(* ===== verification/Prelude.thy ===== *)
theory Prelude
  imports Main "HOL-Library.Word" "HOL-Library.Char_ord" "HOL-Library.List_Lexorder"
begin

text \<open>
  Shared vocabulary of the development: the C++ integer widths, the ways a C++ statement can
  fail, sequencing of fallible statements, vectors indexed without a bounds check, and
  \<^verbatim>\<open>std::map\<close> as an association list kept in key order (the order its iterators follow).
  The generic lemmas on these are declared so that the component theories use them through
  \<open>simp\<close> or through the collections \<open>res_simps\<close> and \<open>inv_intros\<close>.
\<close>

named_theorems res_simps \<open>equations that take a fallible computation apart\<close>
named_theorems inv_intros \<open>operations that keep the invariant of their component\<close>

section \<open>Integers\<close>

type_synonym u16 = "16 word"
type_synonym u32 = "32 word"
type_synonym u64 = "64 word"

lemma u16_bound: "unat (x :: u16) < 2 ^ 16"
  using unsigned_less[of x, where 'a = nat] by simp

lemma u32_bound: "unat (x :: u32) < 2 ^ 32"
  using unsigned_less[of x, where 'a = nat] by simp

lemma u64_bound: "unat (x :: u64) < 2 ^ 64"
  using unsigned_less[of x, where 'a = nat] by simp

text \<open>
  \<^verbatim>\<open>size_t\<close> positions are natural numbers below \<open>2 ^ 64\<close>; the arithmetic the sources do on
  them wraps around, and \<^verbatim>\<open>npos\<close> is the largest of them.
\<close>

type_synonym size_t = nat

definition npos :: size_t where
  "npos = 2 ^ 64 - 1"

definition sz_add :: "size_t \<Rightarrow> size_t \<Rightarrow> size_t" where
  "sz_add a b = (a + b) mod 2 ^ 64"

definition sz_sub :: "size_t \<Rightarrow> size_t \<Rightarrow> size_t" where
  "sz_sub a b = (a + (2 ^ 64 - b mod 2 ^ 64)) mod 2 ^ 64"

lemma sz_add_small [simp]: "a + b < 2 ^ 64 \<Longrightarrow> sz_add a b = a + b"
  by (simp add: sz_add_def)

lemma sz_add_npos: "0 < k \<Longrightarrow> k < 2 ^ 64 \<Longrightarrow> sz_add npos k = k - 1"
proof -
  assume "0 < k" "k < 2 ^ 64"
  then have "npos + k = 2 ^ 64 + (k - 1)" and "k - 1 < 2 ^ 64"
    by (simp_all add: npos_def)
  then show ?thesis by (simp add: sz_add_def)
qed

lemma sz_sub_small [simp]:
  assumes "b \<le> a" "a < 2 ^ 64"
  shows "sz_sub a b = a - b"
proof -
  have "a + (2 ^ 64 - b mod 2 ^ 64) = 2 ^ 64 + (a - b)" and "a - b < 2 ^ 64"
    using assms by simp_all
  then show ?thesis by (simp add: sz_sub_def)
qed

section \<open>Failure\<close>

text \<open>
  A statement can throw (\<^verbatim>\<open>std::out_of_range\<close>, \<^verbatim>\<open>std::invalid_argument\<close>, \<^verbatim>\<open>std::length_error\<close>, a
  jsoncpp exception, \<^verbatim>\<open>std::system_error\<close>) or have undefined behaviour (an unchecked vector index out of range, a write past
  a buffer, a null dereference). Both are errors of the model; \<open>Undefined\<close> is never caught.
\<close>

datatype cpp_error = OutOfRange | InvalidArgument | LengthError | JsonError | SystemError | Undefined

type_synonym 'a res = "cpp_error + 'a"

fun bindR :: "'a res \<Rightarrow> ('a \<Rightarrow> 'b res) \<Rightarrow> 'b res" where
  "bindR (Inl e) f = Inl e"
| "bindR (Inr a) f = f a"

lemma bindR_cong [fundef_cong]:
  "m = m' \<Longrightarrow> (\<And>a. m' = Inr a \<Longrightarrow> f a = g a) \<Longrightarrow> bindR m f = bindR m' g"
  by (cases m') auto

lemma bindR_Inr_iff [res_simps]: "bindR m f = Inr y \<longleftrightarrow> (\<exists>a. m = Inr a \<and> f a = Inr y)"
  by (cases m) auto

lemma bindR_Inl_iff [res_simps]:
  "bindR m f = Inl e \<longleftrightarrow> m = Inl e \<or> (\<exists>a. m = Inr a \<and> f a = Inl e)"
  by (cases m) auto

text \<open>A loop over a vector whose body may fail: the first failure ends it.\<close>

fun foldR :: "('a \<Rightarrow> 's \<Rightarrow> 's res) \<Rightarrow> 'a list \<Rightarrow> 's \<Rightarrow> 's res" where
  "foldR f [] s = Inr s"
| "foldR f (x # xs) s = bindR (f x s) (foldR f xs)"

lemma foldR_cong [fundef_cong]:
  "xs = ys \<Longrightarrow> s = t \<Longrightarrow> (\<And>x u. x \<in> set ys \<Longrightarrow> f x u = g x u) \<Longrightarrow> foldR f xs s = foldR g ys t"
proof (induction ys arbitrary: xs s t)
  case (Cons y ys)
  then show ?case by (cases "g y t") auto
qed simp

lemma bindR_Inr_id [simp]: "bindR m Inr = m"
  by (cases m) auto

lemma foldR_Nil_fun [simp]: "foldR f [] = Inr"
  by (simp add: fun_eq_iff)

lemma foldR_append: "foldR f (xs @ ys) s = bindR (foldR f xs s) (foldR f ys)"
proof (induction xs arbitrary: s)
  case (Cons x xs)
  then show ?case by (cases "f x s") auto
qed simp

lemma foldR_invariant:
  assumes step: "\<And>x s s'. x \<in> set xs \<Longrightarrow> P s \<Longrightarrow> f x s = Inr s' \<Longrightarrow> P s'"
    and start: "P s" and run: "foldR f xs s = Inr s'"
  shows "P s'"
  using assms
proof (induction xs arbitrary: s)
  case (Cons x xs)
  from Cons.prems(3) obtain t where t: "f x s = Inr t" "foldR f xs t = Inr s'"
    by (auto simp: bindR_Inr_iff)
  have "P t" using Cons.prems(1)[of x s t] Cons.prems(2) t(1) by simp
  then show ?case using Cons.IH[of t] Cons.prems(1) t(2) by (meson list.set_intros(2))
qed simp

lemma foldR_total:
  assumes "\<And>x s. x \<in> set xs \<Longrightarrow> \<exists>s'. f x s = Inr s'"
  shows "\<exists>s'. foldR f xs s = Inr s'"
  using assms
proof (induction xs arbitrary: s)
  case (Cons x xs)
  then obtain t where "f x s = Inr t" by fastforce
  with Cons show ?case by fastforce
qed simp

lemma foldR_pure: "(\<And>x s. f x s = Inr (g x s)) \<Longrightarrow> foldR f xs s = Inr (fold g xs s)"
  by (induction xs arbitrary: s) auto

text \<open>Statements one after the other.\<close>

definition seqR :: "('s \<Rightarrow> 's res) list \<Rightarrow> 's \<Rightarrow> 's res" where
  "seqR fs s = foldR (\<lambda>f. f) fs s"

lemma seqR_simps [simp]: "seqR [] s = Inr s" "seqR (f # fs) s = bindR (f s) (seqR fs)"
proof -
  show "seqR [] s = Inr s" by (simp add: seqR_def)
  show "seqR (f # fs) s = bindR (f s) (seqR fs)" unfolding seqR_def by (cases "f s") simp_all
qed

fun mapR :: "('a \<Rightarrow> 'b res) \<Rightarrow> 'a list \<Rightarrow> 'b list res" where
  "mapR f [] = Inr []"
| "mapR f (x # xs) = bindR (f x) (\<lambda>y. bindR (mapR f xs) (\<lambda>ys. Inr (y # ys)))"

text \<open>\<^verbatim>\<open>std::vector::operator[]\<close>: no bounds check, so an index out of range is undefined.\<close>

definition vec_at :: "'a list \<Rightarrow> nat \<Rightarrow> 'a res" where
  "vec_at xs i = (if i < length xs then Inr (xs ! i) else Inl Undefined)"

lemma vec_at_Inr [simp]: "i < length xs \<Longrightarrow> vec_at xs i = Inr (xs ! i)"
  by (simp add: vec_at_def)

lemma vec_at_eq_Inr [res_simps]: "vec_at xs i = Inr x \<longleftrightarrow> i < length xs \<and> xs ! i = x"
  by (auto simp: vec_at_def)

lemma vec_at_Nil [simp]: "vec_at [] i = Inl Undefined"
  by (simp add: vec_at_def)

section \<open>Vectors searched by a loop that stops at the first match\<close>

text \<open>
  The sources walk a vector and act on the first element that satisfies a test. The action
  replaces that element (\<open>update_first\<close>) or erases it (\<open>erase_first\<close>).
\<close>

fun update_first :: "('a \<Rightarrow> bool) \<Rightarrow> ('a \<Rightarrow> 'a) \<Rightarrow> 'a list \<Rightarrow> 'a list" where
  "update_first P f [] = []"
| "update_first P f (x # xs) = (if P x then f x # xs else x # update_first P f xs)"

fun erase_first :: "('a \<Rightarrow> bool) \<Rightarrow> 'a list \<Rightarrow> 'a list" where
  "erase_first P [] = []"
| "erase_first P (x # xs) = (if P x then xs else x # erase_first P xs)"

fun update_firstR :: "('a \<Rightarrow> bool) \<Rightarrow> ('a \<Rightarrow> 'a res) \<Rightarrow> 'a list \<Rightarrow> 'a list res" where
  "update_firstR P f [] = Inr []"
| "update_firstR P f (x # xs) =
     (if P x then bindR (f x) (\<lambda>y. Inr (y # xs)) else bindR (update_firstR P f xs) (\<lambda>ys. Inr (x # ys)))"

lemma update_firstR_split:
  assumes "update_firstR P f xs = Inr ys" "list_ex P xs"
  obtains us x vs y where "xs = us @ x # vs" "P x" "\<not> list_ex P us" "f x = Inr y" "ys = us @ y # vs"
  using assms
proof (induction xs arbitrary: ys thesis)
  case (Cons z zs)
  show ?case
  proof (cases "P z")
    case True
    then obtain y where "f z = Inr y" "ys = y # zs" using Cons.prems(2) by (auto simp: bindR_Inr_iff)
    with True Cons.prems(1)[of "[]" z zs y] show ?thesis by simp
  next
    case False
    then obtain ws where ws: "update_firstR P f zs = Inr ws" "ys = z # ws"
      using Cons.prems(2) by (auto simp: bindR_Inr_iff)
    have "list_ex P zs" using False Cons.prems(3) by simp
    from Cons.IH[OF _ ws(1) this] obtain us x vs y
      where "zs = us @ x # vs" "P x" "\<not> list_ex P us" "f x = Inr y" "ws = us @ y # vs" by blast
    with False ws(2) Cons.prems(1)[of "z # us" x vs y] show ?thesis by simp
  qed
qed simp

lemma update_firstR_none: "\<not> list_ex P xs \<Longrightarrow> update_firstR P f xs = Inr xs"
  by (induction xs) auto

lemma length_update_first [simp]: "length (update_first P f xs) = length xs"
  by (induction xs) auto

lemma update_first_none: "\<not> list_ex P xs \<Longrightarrow> update_first P f xs = xs"
  by (induction xs) auto

lemma update_first_split:
  assumes "list_ex P xs"
  obtains ys x zs where "xs = ys @ x # zs" "P x" "\<not> list_ex P ys"
    "\<And>f. update_first P f xs = ys @ f x # zs"
proof -
  from assms obtain ys x zs where s: "xs = ys @ x # zs" "P x" "\<forall>y\<in>set ys. \<not> P y"
    using split_list_first_prop[of xs P] by (auto simp: list_ex_iff)
  have "\<not> list_ex P ys" using s(3) by (simp add: list_ex_iff)
  moreover have "update_first P f (ys @ x # zs) = ys @ f x # zs" for f
    using s(2,3) by (induction ys) auto
  ultimately show thesis using s that by blast
qed

lemma list_ex_image: "list_ex (\<lambda>q. f q = x) xs \<longleftrightarrow> x \<in> f ` set xs"
  by (induction xs) auto

lemma set_erase_first_subset: "set (erase_first P xs) \<subseteq> set xs"
  by (induction xs) auto

lemma in_erase_first: "x \<in> set xs \<Longrightarrow> \<not> P x \<Longrightarrow> x \<in> set (erase_first P xs)"
  by (induction xs) auto

lemma erase_first_none: "\<not> list_ex P xs \<Longrightarrow> erase_first P xs = xs"
  by (induction xs) auto

lemma distinct_map_erase_first: "distinct (map g xs) \<Longrightarrow> distinct (map g (erase_first P xs))"
  by (induction xs) (use set_erase_first_subset in \<open>fastforce\<close>)+

lemma sum_list_erase_first_le: "sum_list (map g (erase_first P xs)) \<le> sum_list (map (g :: 'a \<Rightarrow> nat) xs)"
  by (induction xs) auto

section \<open>std::map\<close>

type_synonym ('k, 'v) smap = "('k \<times> 'v) list"

fun mput :: "'k::linorder \<Rightarrow> 'v \<Rightarrow> ('k, 'v) smap \<Rightarrow> ('k, 'v) smap" where
  "mput k v [] = [(k, v)]"
| "mput k v ((k', v') # m) =
     (if k = k' then (k, v) # m
      else if k < k' then (k, v) # (k', v') # m
      else (k', v') # mput k v m)"

definition mhas :: "('k, 'v) smap \<Rightarrow> 'k \<Rightarrow> bool" where
  "mhas m k = list_ex (\<lambda>e. fst e = k) m"

definition key_sorted :: "('k::linorder, 'v) smap \<Rightarrow> bool" where
  "key_sorted m = sorted_wrt (<) (map fst m)"

lemma mhas_map_of [simp]: "mhas m k \<longleftrightarrow> map_of m k \<noteq> None"
  by (induction m) (auto simp: mhas_def)

lemma map_of_mput [simp]: "map_of (mput k v m) = (map_of m)(k \<mapsto> v)"
  by (induction k v m rule: mput.induct) (auto simp: fun_eq_iff)

lemma fst_set_mput: "fst ` set (mput k v m) = insert k (fst ` set m)"
  by (induction k v m rule: mput.induct) auto

lemma key_sorted_Nil [simp]: "key_sorted []"
  by (simp add: key_sorted_def)

lemma key_sorted_Cons: "key_sorted ((k, v) # m) \<longleftrightarrow> (\<forall>y \<in> fst ` set m. k < y) \<and> key_sorted m"
  by (auto simp: key_sorted_def)

lemma key_sorted_mput [simp]: "key_sorted m \<Longrightarrow> key_sorted (mput k v m)"
proof (induction k v m rule: mput.induct)
  case (2 k v k' v' m)
  then have m: "\<forall>y \<in> fst ` set m. k' < y" "key_sorted m"
    by (auto simp: key_sorted_Cons)
  consider "k = k'" | "k < k'" | "k' < k" by fastforce
  then show ?case
  proof cases
    case 3
    with m "2.IH" show ?thesis by (auto simp: key_sorted_Cons fst_set_mput)
  qed (use m in \<open>auto simp: key_sorted_Cons\<close>)
qed (simp add: key_sorted_def)

lemma key_sorted_distinct: "key_sorted m \<Longrightarrow> distinct (map fst m)"
  by (induction m) (fastforce simp: key_sorted_Cons)+

end
