(* ===== verification/Workers.thy ===== *)
theory Workers
  imports Prelude
begin

text \<open>
  The threads of the agent as step relations. A collector (and, with the same code, a log parser) has
  a worker thread that collects and sleeps until the destructor clears the flag \<^verbatim>\<open>active\<close>; a mutex
  protects the collected values; HTTP requests read them, the history handler under the mutex and
  the handler of /all without it. The manager of services has a discovery thread without a mutex.
  One step is one statement of one thread; the flag is read and written atomically.
\<close>

section \<open>Runs of a transition system\<close>

inductive reach :: "('s \<Rightarrow> 's \<Rightarrow> bool) \<Rightarrow> 's \<Rightarrow> 's \<Rightarrow> bool" for step and s where
  reach_refl [intro]: "reach step s s"
| reach_step: "reach step s t \<Longrightarrow> step t u \<Longrightarrow> reach step s u"

lemma reach_trans: "reach step t u \<Longrightarrow> reach step s t \<Longrightarrow> reach step s u"
  by (induction rule: reach.induct) (auto intro: reach_step)

lemma reach_one: "step s t \<Longrightarrow> reach step t u \<Longrightarrow> reach step s u"
  using reach_step[of step s s t] reach_trans[of step t u s] by blast

locale step_invariant =
  fixes start :: 's
    and step :: "'s \<Rightarrow> 's \<Rightarrow> bool"
    and inv :: "'s \<Rightarrow> bool"
  assumes inv_start: "inv start"
    and inv_step: "inv s \<Longrightarrow> step s s' \<Longrightarrow> inv s'"
begin

lemma inv_from: "reach step s t \<Longrightarrow> inv s \<Longrightarrow> inv t"
  by (induction rule: reach.induct) (auto intro: inv_step)

lemma inv_reach: "reach step start s \<Longrightarrow> inv s"
  using inv_from inv_start by blast

end

section \<open>The worker of a collector, its destructor and its readers\<close>

datatype wpc = W_test | W_lock | W_check | W_collect | W_unlock | W_wait | W_done
datatype dpc = D_none | D_lock | D_flag | D_join | D_done
datatype hpc = H_idle | H_lock | H_read
datatype apc = A_idle | A_read
datatype owner = Free | ByWorker | ByDestructor | ByHandler

record cworker =
  active :: bool
  terminate :: bool
  mutex :: owner
  wk :: wpc
  ds :: dpc
  hd_pc :: hpc
  all_pc :: apc
  collected :: nat

definition started :: cworker where
  "started = \<lparr>active = True, terminate = False, mutex = Free, wk = W_test, ds = D_none, hd_pc = H_idle,
     all_pc = A_idle, collected = 0\<rparr>"

inductive cstep :: "cworker \<Rightarrow> cworker \<Rightarrow> bool" where
  w_test: "wk s = W_test \<Longrightarrow> active s \<Longrightarrow> cstep s (s\<lparr>wk := W_lock\<rparr>)"
| w_end: "wk s = W_test \<Longrightarrow> \<not> active s \<Longrightarrow> cstep s (s\<lparr>wk := W_done\<rparr>)"
| w_lock: "wk s = W_lock \<Longrightarrow> mutex s = Free \<Longrightarrow> cstep s (s\<lparr>wk := W_check, mutex := ByWorker\<rparr>)"
| w_check: "wk s = W_check \<Longrightarrow> active s \<Longrightarrow> cstep s (s\<lparr>wk := W_collect\<rparr>)"
| w_skip: "wk s = W_check \<Longrightarrow> \<not> active s \<Longrightarrow> cstep s (s\<lparr>wk := W_unlock\<rparr>)"
| w_collect: "wk s = W_collect \<Longrightarrow> cstep s (s\<lparr>wk := W_unlock, collected := collected s + 1\<rparr>)"
| w_unlock: "wk s = W_unlock \<Longrightarrow> cstep s (s\<lparr>wk := W_wait, mutex := Free\<rparr>)"
| w_wake: "wk s = W_wait \<Longrightarrow> cstep s (s\<lparr>wk := W_test\<rparr>)"
| d_start: "ds s = D_none \<Longrightarrow> cstep s (s\<lparr>ds := D_lock\<rparr>)"
| d_lock: "ds s = D_lock \<Longrightarrow> mutex s = Free \<Longrightarrow> cstep s (s\<lparr>ds := D_flag, mutex := ByDestructor\<rparr>)"
| d_flag: "ds s = D_flag \<Longrightarrow> cstep s (s\<lparr>ds := D_join, terminate := terminate s \<or> active s, active := False\<rparr>)"
| d_join: "ds s = D_join \<Longrightarrow> wk s = W_done \<Longrightarrow> cstep s (s\<lparr>ds := D_done, mutex := Free\<rparr>)"
| h_start: "hd_pc s = H_idle \<Longrightarrow> ds s = D_none \<Longrightarrow> cstep s (s\<lparr>hd_pc := H_lock\<rparr>)"
| h_lock: "hd_pc s = H_lock \<Longrightarrow> mutex s = Free \<Longrightarrow> cstep s (s\<lparr>hd_pc := H_read, mutex := ByHandler\<rparr>)"
| h_end: "hd_pc s = H_read \<Longrightarrow> cstep s (s\<lparr>hd_pc := H_idle, mutex := Free\<rparr>)"
| a_start: "all_pc s = A_idle \<Longrightarrow> ds s = D_none \<Longrightarrow> cstep s (s\<lparr>all_pc := A_read\<rparr>)"
| a_end: "all_pc s = A_read \<Longrightarrow> cstep s (s\<lparr>all_pc := A_idle\<rparr>)"

inductive_cases cstep_E: "cstep s t"

definition cinv :: "cworker \<Rightarrow> bool" where
  "cinv s \<longleftrightarrow>
     (mutex s = ByWorker \<longleftrightarrow> wk s \<in> {W_check, W_collect, W_unlock}) \<and>
     (mutex s = ByDestructor \<longleftrightarrow> ds s \<in> {D_flag, D_join}) \<and>
     (mutex s = ByHandler \<longleftrightarrow> hd_pc s = H_read) \<and>
     (ds s \<in> {D_join, D_done} \<longrightarrow> \<not> active s) \<and>
     (ds s = D_done \<longrightarrow> wk s = W_done)"

interpretation cw: step_invariant started cstep cinv
proof (unfold_locales, goal_cases)
  case 1
  show ?case by (simp add: cinv_def started_def)
next
  case (2 s s')
  then show ?case by (elim cstep_E) (auto simp: cinv_def)
qed

lemma cstep_collected: "cstep s t \<Longrightarrow> wk s \<noteq> W_collect \<Longrightarrow> collected t = collected s"
  by (elim cstep_E) auto

lemma cstep_final: "cstep s t \<Longrightarrow> ds s \<in> {D_join, D_done} \<Longrightarrow> ds t \<in> {D_join, D_done}"
  by (elim cstep_E) auto

lemma cinv_final: "cinv s \<Longrightarrow> ds s \<in> {D_join, D_done} \<Longrightarrow> wk s \<noteq> W_collect"
  by (auto simp: cinv_def)

lemma no_more_collections:
  assumes "reach cstep s t" "cinv s" "ds s \<in> {D_join, D_done}"
  shows "collected t = collected s \<and> ds t \<in> {D_join, D_done} \<and> cinv t"
  using assms
proof (induction rule: reach.induct)
  case (reach_step t u)
  then have t: "collected t = collected s" "ds t \<in> {D_join, D_done}" "cinv t" by simp_all
  then show ?case
    using cstep_collected[OF reach_step.hyps(2)] cstep_final[OF reach_step.hyps(2)] cinv_final[of t]
      cw.inv_step[OF _ reach_step.hyps(2)] by simp
qed simp

text \<open>
  C29: the mutex keeps a collection and the reading of a history apart, and once the destructor has
  cleared the flag no collection is running or starts again.
\<close>

theorem collect_exclusive:
  assumes "reach cstep started s"
  shows "\<not> (wk s = W_collect \<and> hd_pc s = H_read) \<and>
    (ds s \<in> {D_join, D_done} \<longrightarrow> wk s \<noteq> W_collect \<and> (\<forall>t. reach cstep s t \<longrightarrow> collected t = collected s))"
proof -
  have inv: "cinv s" using cw.inv_reach[OF assms] .
  then have "\<not> (wk s = W_collect \<and> hd_pc s = H_read)" by (auto simp: cinv_def)
  with no_more_collections[OF _ inv] cinv_final[OF inv] show ?thesis by blast
qed

text \<open>The worker passed the test of the flag, then the destructor took the mutex and cleared the flag.\<close>

definition stuck :: cworker where
  "stuck = started\<lparr>wk := W_lock, ds := D_join, mutex := ByDestructor, active := False, terminate := True\<rparr>"

lemma stuck_reached: "reach cstep started stuck"
proof -
  let ?s1 = "started\<lparr>wk := W_lock\<rparr>"
  let ?s2 = "?s1\<lparr>ds := D_lock\<rparr>"
  let ?s3 = "?s2\<lparr>ds := D_flag, mutex := ByDestructor\<rparr>"
  have "cstep started ?s1" by (rule w_test) (simp_all add: started_def)
  moreover have "cstep ?s1 ?s2" by (rule d_start) (simp add: started_def)
  moreover have "cstep ?s2 ?s3" by (rule d_lock) (simp_all add: started_def)
  moreover have "cstep ?s3 (?s3\<lparr>ds := D_join, terminate := terminate ?s3 \<or> active ?s3, active := False\<rparr>)"
    by (rule d_flag) simp
  moreover have "?s3\<lparr>ds := D_join, terminate := terminate ?s3 \<or> active ?s3, active := False\<rparr> = stuck"
    by (simp add: stuck_def started_def)
  ultimately show ?thesis by (metis reach_refl reach_step)
qed

theorem collect_exclusive_witness: "wk stuck \<noteq> W_collect \<and> collected stuck = 0"
  using collect_exclusive[OF stuck_reached] by (simp add: stuck_def started_def)

lemma stuck_forever:
  assumes "reach cstep s t" "wk s = W_lock" "ds s = D_join" "mutex s = ByDestructor" "hd_pc s = H_idle"
  shows "wk t = W_lock \<and> ds t = D_join \<and> mutex t = ByDestructor \<and> hd_pc t = H_idle"
  using assms
proof (induction rule: reach.induct)
  case (reach_step t u)
  then show ?case by (elim cstep_E) auto
qed simp

text \<open>
  C27: the destructor of a collector can wait forever: it holds the mutex while it joins the worker,
  and a worker that tested the flag before it was cleared waits for that mutex. Such a state is
  reached in four steps, and from it the destructor never returns.
\<close>

theorem destructor_deadlock:
  "\<exists>s. reach cstep started s \<and> ds s = D_join \<and> \<not> (\<exists>t. reach cstep s t \<and> ds t \<noteq> D_join)"
  using stuck_reached stuck_forever[of stuck] by (auto simp: stuck_def started_def)

text \<open>
  The destructor can always finish when the worker is not waiting for the mutex: from every state
  in which it joins a worker that is elsewhere it can be reached that it has returned.
\<close>

theorem destructor_finishes:
  assumes "reach cstep started s" "ds s = D_join" "wk s \<noteq> W_lock"
  shows "\<exists>t. reach cstep s t \<and> ds t = D_done"
proof -
  have inv: "cinv s" using cw.inv_reach[OF assms(1)] .
  then have "mutex s = ByDestructor" "\<not> active s" using assms(2) by (auto simp: cinv_def)
  then have wk: "wk s = W_test \<or> wk s = W_wait \<or> wk s = W_done"
    using inv assms(3) by (cases "wk s") (auto simp: cinv_def)
  have fin: "\<exists>t. reach cstep u t \<and> ds t = D_done" if "wk u = W_done" "ds u = D_join" for u
    using d_join[OF that(2,1)] by (intro exI[of _ "u\<lparr>ds := D_done, mutex := Free\<rparr>"]) (auto intro: reach_one)
  have test: "\<exists>t. reach cstep u t \<and> ds t = D_done" if "wk u = W_test" "ds u = D_join" "\<not> active u" for u
    using w_end[OF that(1,3)] fin[of "u\<lparr>wk := W_done\<rparr>"] that(2) by (auto intro: reach_one)
  have "\<exists>t. reach cstep s t \<and> ds t = D_done" if "wk s = W_wait"
    using w_wake[OF that] test[of "s\<lparr>wk := W_test\<rparr>"] assms(2) \<open>\<not> active s\<close> by (auto intro: reach_one)
  then show ?thesis using wk fin[of s] test[of s] assms(2) \<open>\<not> active s\<close> by blast
qed

definition asleep :: cworker where
  "asleep = started\<lparr>ds := D_join, mutex := ByDestructor, active := False, terminate := True\<rparr>"

lemma asleep_reached: "reach cstep started asleep"
proof -
  let ?s1 = "started\<lparr>ds := D_lock\<rparr>"
  let ?s2 = "?s1\<lparr>ds := D_flag, mutex := ByDestructor\<rparr>"
  have "cstep started ?s1" by (rule d_start) (simp add: started_def)
  moreover have "cstep ?s1 ?s2" by (rule d_lock) (simp_all add: started_def)
  moreover have "cstep ?s2 (?s2\<lparr>ds := D_join, terminate := terminate ?s2 \<or> active ?s2, active := False\<rparr>)"
    by (rule d_flag) simp
  moreover have "?s2\<lparr>ds := D_join, terminate := terminate ?s2 \<or> active ?s2, active := False\<rparr> = asleep"
    by (simp add: asleep_def started_def)
  ultimately show ?thesis by (metis reach_refl reach_step)
qed

theorem destructor_finishes_witness: "\<exists>t. reach cstep asleep t \<and> ds t = D_done"
  using destructor_finishes[OF asleep_reached] by (simp add: asleep_def started_def)

text \<open>
  The handler of /all reads a history while a collection is writing it: it takes no lock.
\<close>

theorem all_races_with_collect:
  "\<exists>s. reach cstep started s \<and> wk s = W_collect \<and> all_pc s = A_read"
proof -
  let ?s1 = "started\<lparr>wk := W_lock\<rparr>"
  let ?s2 = "?s1\<lparr>wk := W_check, mutex := ByWorker\<rparr>"
  let ?s3 = "?s2\<lparr>wk := W_collect\<rparr>"
  let ?s4 = "?s3\<lparr>all_pc := A_read\<rparr>"
  have "cstep started ?s1" by (rule w_test) (simp_all add: started_def)
  moreover have "cstep ?s1 ?s2" by (rule w_lock) (simp_all add: started_def)
  moreover have "cstep ?s2 ?s3" by (rule w_check) (simp_all add: started_def)
  moreover have "cstep ?s3 ?s4" by (rule a_start) (simp_all add: started_def)
  ultimately have "reach cstep started ?s4" by (metis reach_refl reach_step)
  then show ?thesis by (intro exI[of _ ?s4]) simp
qed

section \<open>The discovery thread of the manager and its destructor\<close>

datatype mpc = M_sleep | M_find | M_test | M_wait | M_retest | M_done
datatype spc = S_none | S_flag | S_kill | S_join | S_done

record mworker =
  m_active :: bool
  m_terminate :: bool
  mk :: mpc
  sd :: spc
  finds :: nat

definition m_started :: mworker where
  "m_started = \<lparr>m_active = True, m_terminate = False, mk = M_sleep, sd = S_none, finds = 0\<rparr>"

text \<open>A round of \<^verbatim>\<open>find\<close> is one step that ends; that a detector may not return is not part of this model.\<close>

inductive mstep :: "mworker \<Rightarrow> mworker \<Rightarrow> bool" where
  m_sleep: "mk s = M_sleep \<Longrightarrow> mstep s (s\<lparr>mk := M_find\<rparr>)"
| m_find: "mk s = M_find \<Longrightarrow> mstep s (s\<lparr>mk := M_test, finds := finds s + 1\<rparr>)"
| m_test: "mk s = M_test \<Longrightarrow> mstep s (s\<lparr>mk := if m_active s then M_wait else M_done\<rparr>)"
| m_killed: "mk s = M_wait \<Longrightarrow> m_terminate s \<Longrightarrow> mstep s (s\<lparr>mk := M_done\<rparr>)"
| m_timeout: "mk s = M_wait \<Longrightarrow> \<not> m_terminate s \<Longrightarrow> mstep s (s\<lparr>mk := M_retest\<rparr>)"
| m_retest: "mk s = M_retest \<Longrightarrow> mstep s (s\<lparr>mk := if m_active s then M_find else M_done\<rparr>)"
| s_start: "sd s = S_none \<Longrightarrow> m_active s \<Longrightarrow> mstep s (s\<lparr>sd := S_flag\<rparr>)"
| s_flag: "sd s = S_flag \<Longrightarrow> mstep s (s\<lparr>sd := S_kill, m_active := False\<rparr>)"
| s_kill: "sd s = S_kill \<Longrightarrow> mstep s (s\<lparr>sd := S_join, m_terminate := True\<rparr>)"
| s_join: "sd s = S_join \<Longrightarrow> mk s = M_done \<Longrightarrow> mstep s (s\<lparr>sd := S_done\<rparr>)"

inductive_cases mstep_E: "mstep s t"

definition minv :: "mworker \<Rightarrow> bool" where
  "minv s \<longleftrightarrow> (m_active s \<longleftrightarrow> sd s \<in> {S_none, S_flag}) \<and> (m_terminate s \<longleftrightarrow> sd s \<in> {S_join, S_done}) \<and>
     (sd s = S_done \<longrightarrow> mk s = M_done)"

interpretation mw: step_invariant m_started mstep minv
proof (unfold_locales, goal_cases)
  case 1
  show ?case by (simp add: minv_def m_started_def)
next
  case (2 s s')
  then show ?case by (elim mstep_E) (auto simp: minv_def)
qed

fun mrank :: "mpc \<Rightarrow> nat" where
  "mrank M_sleep = 4" | "mrank M_find = 3" | "mrank M_test = 2" | "mrank M_wait = 2" | "mrank M_retest = 1" | "mrank M_done = 0"

fun srank :: "spc \<Rightarrow> nat" where
  "srank S_none = 4" | "srank S_flag = 3" | "srank S_kill = 2" | "srank S_join = 1" | "srank S_done = 0"

definition left_to_do :: "mworker \<Rightarrow> nat" where
  "left_to_do s = mrank (mk s) + srank (sd s)"

lemma shutdown_decreases: "mstep s t \<Longrightarrow> \<not> m_active s \<Longrightarrow> left_to_do t < left_to_do s \<and> \<not> m_active t"
  by (elim mstep_E) (auto simp: left_to_do_def)

lemma shutdown_progress: "minv s \<Longrightarrow> \<not> m_active s \<Longrightarrow> sd s \<noteq> S_done \<Longrightarrow> \<exists>t. mstep s t"
proof -
  assume a: "minv s" "\<not> m_active s" "sd s \<noteq> S_done"
  show ?thesis
  proof (cases "mk s = M_done")
    case True
    then show ?thesis using a by (cases "sd s") (auto simp: minv_def intro: mstep.intros)
  next
    case False
    then show ?thesis by (cases "mk s"; cases "m_terminate s") (auto intro: mstep.intros)
  qed
qed

lemma shutdown_reaches:
  "minv s \<Longrightarrow> \<not> m_active s \<Longrightarrow> \<exists>t. reach mstep s t \<and> sd t = S_done \<and> mk t = M_done"
proof (induction "left_to_do s" arbitrary: s rule: less_induct)
  case less
  show ?case
  proof (cases "sd s = S_done")
    case True
    then show ?thesis using less.prems(1) by (auto simp: minv_def)
  next
    case False
    then obtain u where u: "mstep s u" using shutdown_progress less.prems by blast
    have "minv u" "\<not> m_active u" "left_to_do u < left_to_do s"
      using mw.inv_step[OF less.prems(1) u] shutdown_decreases[OF u less.prems(2)] by simp_all
    then show ?thesis using less.hyps[of u] u by (auto intro: reach_one)
  qed
qed

text \<open>
  C28: the manager's shutdown always ends: once the flag is cleared every step of either thread brings
  the end nearer, some step is possible until the destructor has returned, and it returns with the
  discovery thread ended.
\<close>

theorem manager_shutdown_ends:
  assumes "reach mstep m_started s" "\<not> m_active s"
  shows "(\<forall>t. mstep s t \<longrightarrow> left_to_do t < left_to_do s) \<and> (sd s \<noteq> S_done \<longrightarrow> (\<exists>t. mstep s t)) \<and>
    (\<exists>t. reach mstep s t \<and> sd t = S_done \<and> mk t = M_done)"
proof -
  have inv: "minv s" using mw.inv_reach[OF assms(1)] .
  show ?thesis
    using shutdown_reaches[OF inv assms(2)] shutdown_progress[OF inv assms(2)] shutdown_decreases[OF _ assms(2)]
    by blast
qed

lemma killed_reached: "reach mstep m_started (m_started\<lparr>sd := S_kill, m_active := False\<rparr>)"
proof -
  let ?s = "m_started\<lparr>sd := S_flag\<rparr>"
  have 1: "mstep m_started ?s" by (rule s_start) (simp_all add: m_started_def)
  have "mstep ?s (?s\<lparr>sd := S_kill, m_active := False\<rparr>)" by (rule s_flag) simp
  then have "reach mstep ?s (m_started\<lparr>sd := S_kill, m_active := False\<rparr>)"
    using reach_step[OF reach_refl, of mstep ?s] by simp
  with 1 show ?thesis by (rule reach_one)
qed

theorem manager_shutdown_ends_witness:
  "\<exists>t. reach mstep (m_started\<lparr>sd := S_kill, m_active := False\<rparr>) t \<and> sd t = S_done \<and> mk t = M_done"
  using manager_shutdown_ends[OF killed_reached] by simp

end
