(* ===== verification/CppString.thy ===== *)
theory CppString
  imports Prelude
begin

text \<open>
  The parts of the C and C++ standard library the sources use on strings: \<^verbatim>\<open>find\<close>,
  \<^verbatim>\<open>rfind\<close> and \<^verbatim>\<open>substr\<close> of \<^verbatim>\<open>std::string\<close> with their \<^verbatim>\<open>npos\<close> and
  \<^verbatim>\<open>std::out_of_range\<close> behaviour, \<^verbatim>\<open>strtoul\<close>, \<^verbatim>\<open>atoi\<close> as glibc computes it (the low
  32 bits of \<^verbatim>\<open>strtol\<close>), \<^verbatim>\<open>std::to_string\<close> and hexadecimal output, formatted extraction of a
  \<^verbatim>\<open>uint16_t\<close> and of a \<^verbatim>\<open>char\<close>, tokens read by \<^verbatim>\<open>istream_iterator\<close>, and \<^verbatim>\<open>getline\<close>.
  A string is its list of bytes. The main lemmas are the inverse pairs: scanning what
  \<open>show_nat\<close> printed, finding the separator that was put between two parts.
\<close>

section \<open>find, rfind, substr\<close>

fun find_at :: "string \<Rightarrow> string \<Rightarrow> nat \<Rightarrow> size_t" where
  "find_at pat [] i = (if pat = [] then i else npos)"
| "find_at pat (c # cs) i =
     (if take (length pat) (c # cs) = pat then i else find_at pat cs (Suc i))"

definition str_find :: "string \<Rightarrow> string \<Rightarrow> size_t \<Rightarrow> size_t" where
  "str_find s pat pos = (if length s < pos then npos else find_at pat (drop pos s) pos)"

fun rfind_at :: "char \<Rightarrow> string \<Rightarrow> nat \<Rightarrow> size_t \<Rightarrow> size_t" where
  "rfind_at c [] i found = found"
| "rfind_at c (x # xs) i found = rfind_at c xs (Suc i) (if x = c then i else found)"

text \<open>\<^verbatim>\<open>rfind\<close> of a one-character pattern, from the end and from a given position.\<close>

definition str_rfind :: "string \<Rightarrow> char \<Rightarrow> size_t" where
  "str_rfind s c = rfind_at c s 0 npos"

definition str_rfind_from :: "string \<Rightarrow> char \<Rightarrow> size_t \<Rightarrow> size_t" where
  "str_rfind_from s c pos = rfind_at c (take (Suc pos) s) 0 npos"

definition substr :: "string \<Rightarrow> size_t \<Rightarrow> size_t \<Rightarrow> string res" where
  "substr s pos n = (if length s < pos then Inl OutOfRange else Inr (take n (drop pos s)))"

abbreviation substr_from :: "string \<Rightarrow> size_t \<Rightarrow> string res" where
  "substr_from s pos \<equiv> substr s pos npos"

text \<open>A string never fills the address space, which is what makes \<open>npos\<close> a safe length.\<close>

abbreviation fits :: "string \<Rightarrow> bool" where
  "fits s \<equiv> length s < 2 ^ 63"

lemma substr_Inr [simp]: "pos \<le> length s \<Longrightarrow> substr s pos n = Inr (take n (drop pos s))"
  by (simp add: substr_def)

lemma substr_eq_Inr [res_simps]:
  "substr s pos n = Inr t \<longleftrightarrow> pos \<le> length s \<and> t = take n (drop pos s)"
  by (auto simp: substr_def)

lemma substr_from_Inr: "pos \<le> length s \<Longrightarrow> fits s \<Longrightarrow> substr_from s pos = Inr (drop pos s)"
  by (simp add: npos_def)

lemma substr_after:
  assumes "s = pre @ c # suf" "fits s"
  shows "substr_from s (sz_add (length pre) 1) = Inr suf"
proof -
  have "sz_add (length pre) 1 = Suc (length pre)" using assms by simp
  moreover have "substr_from s (Suc (length pre)) = Inr suf"
    using assms by (subst substr_from_Inr) simp_all
  ultimately show ?thesis by (simp only:)
qed

lemma find_at_char: "c \<notin> set xs \<Longrightarrow> find_at [c] (xs @ c # ys) i = i + length xs"
  by (induction xs arbitrary: i) auto

lemma find_at_char_none: "c \<notin> set xs \<Longrightarrow> find_at [c] xs i = npos"
  by (induction xs arbitrary: i) auto

lemma str_find_char [simp]: "c \<notin> set xs \<Longrightarrow> str_find (xs @ c # ys) [c] 0 = length xs"
  by (simp add: str_find_def find_at_char)

lemma str_find_char_none: "c \<notin> set xs \<Longrightarrow> str_find xs [c] 0 = npos"
  by (simp add: str_find_def find_at_char_none)

lemma str_find_char_from:
  "c \<notin> set ys \<Longrightarrow> pos = length xs \<Longrightarrow> str_find (xs @ ys @ c # zs) [c] pos = length xs + length ys"
  by (simp add: str_find_def find_at_char)

lemma rfind_at_notin: "c \<notin> set xs \<Longrightarrow> rfind_at c xs i r = r"
  by (induction xs arbitrary: i r) auto

lemma rfind_at_split: "c \<notin> set ys \<Longrightarrow> rfind_at c (xs @ c # ys) i r = i + length xs"
  by (induction xs arbitrary: i r) (auto simp: rfind_at_notin)

lemma str_rfind_split [simp]: "c \<notin> set ys \<Longrightarrow> str_rfind (xs @ c # ys) c = length xs"
  by (simp add: str_rfind_def rfind_at_split)

lemma str_rfind_none: "c \<notin> set xs \<Longrightarrow> str_rfind xs c = npos"
  by (simp add: str_rfind_def rfind_at_notin)

section \<open>Positions kept in an int\<close>

text \<open>
  The sources store positions in a 32-bit \<^verbatim>\<open>int\<close> and pass it back as a \<^verbatim>\<open>size_t\<close>: \<^verbatim>\<open>npos\<close> becomes
  \<open>-1\<close> and is \<^verbatim>\<open>npos\<close> again.
\<close>

definition int_of_size :: "size_t \<Rightarrow> int" where
  "int_of_size n = (let m = int (n mod 2 ^ 32) in if 2 ^ 31 \<le> m then m - 2 ^ 32 else m)"

definition size_of_int :: "int \<Rightarrow> size_t" where
  "size_of_int i = nat (i mod 2 ^ 64)"

lemma int_of_size_small [simp]: "n < 2 ^ 31 \<Longrightarrow> int_of_size n = int n"
  by (simp add: int_of_size_def Let_def)

lemma size_of_int_nat [simp]: "n < 2 ^ 64 \<Longrightarrow> size_of_int (int n) = n"
  by (simp add: size_of_int_def nat_mod_as_int)

section \<open>Numbers\<close>

definition is_space :: "char \<Rightarrow> bool" where
  "is_space c = (let n = of_char c :: nat in n = 32 \<or> (9 \<le> n \<and> n \<le> 13))"

definition is_digit :: "char \<Rightarrow> bool" where
  "is_digit c = (let n = of_char c :: nat in 48 \<le> n \<and> n \<le> 57)"

definition digit_of :: "char \<Rightarrow> nat option" where
  "digit_of c = (let n = of_char c :: nat in
     if 48 \<le> n \<and> n \<le> 57 then Some (n - 48)
     else if 65 \<le> n \<and> n \<le> 90 then Some (n - 55)
     else if 97 \<le> n \<and> n \<le> 122 then Some (n - 87)
     else None)"

definition digit_val :: "nat \<Rightarrow> char \<Rightarrow> nat option" where
  "digit_val b c = (case digit_of c of Some d \<Rightarrow> if d < b then Some d else None | None \<Rightarrow> None)"

fun scan_digits :: "nat \<Rightarrow> string \<Rightarrow> nat \<Rightarrow> nat \<times> string" where
  "scan_digits b [] acc = (acc, [])"
| "scan_digits b (c # cs) acc =
     (case digit_val b c of
        None \<Rightarrow> (acc, c # cs)
      | Some d \<Rightarrow> scan_digits b cs (acc * b + d))"

definition scan_sign :: "string \<Rightarrow> bool \<times> string" where
  "scan_sign s = (case s of
      c # cs \<Rightarrow> if c = CHR ''-'' then (True, cs) else if c = CHR ''+'' then (False, cs) else (False, s)
    | [] \<Rightarrow> (False, []))"

definition skip_0x :: "nat \<Rightarrow> string \<Rightarrow> string" where
  "skip_0x b s = (case s of
      z # x # d # ds \<Rightarrow>
        if b = 16 \<and> z = CHR ''0'' \<and> (x = CHR ''x'' \<or> x = CHR ''X'') \<and> digit_val 16 d \<noteq> None
        then d # ds else s
    | _ \<Rightarrow> s)"

text \<open>\<^verbatim>\<open>strtoul(s, NULL, b)\<close> with a 64-bit \<^verbatim>\<open>unsigned long\<close>: saturates, negates after a minus.\<close>

definition strtoul :: "nat \<Rightarrow> string \<Rightarrow> nat" where
  "strtoul b s =
     (let (neg, s2) = scan_sign (dropWhile is_space s);
          n = fst (scan_digits b (skip_0x b s2) 0)
      in if 2 ^ 64 \<le> n then 2 ^ 64 - 1 else if neg then (2 ^ 64 - n) mod 2 ^ 64 else n)"

text \<open>\<^verbatim>\<open>strtol(s, NULL, 10)\<close> with a 64-bit \<^verbatim>\<open>long\<close>.\<close>

definition strtol10 :: "string \<Rightarrow> int" where
  "strtol10 s =
     (let (neg, s2) = scan_sign (dropWhile is_space s);
          n = int (fst (scan_digits 10 s2 0))
      in if neg then max (- (2 ^ 63)) (- n) else min (2 ^ 63 - 1) n)"

text \<open>
  \<^verbatim>\<open>atoi\<close> returns the \<^verbatim>\<open>int\<close> whose bits are the low 32 bits of \<^verbatim>\<open>strtol\<close>; stored into a
  \<^verbatim>\<open>uint32_t\<close> the bits stay the same. A signed reading is \<open>sint\<close> of it.
\<close>

definition atoi :: "string \<Rightarrow> u32" where
  "atoi s = word_of_int (strtol10 s)"

definition digit_char :: "nat \<Rightarrow> char" where
  "digit_char d = ''0123456789abcdefghijklmnopqrstuvwxyz'' ! d"

fun show_nat :: "nat \<Rightarrow> nat \<Rightarrow> string" where
  "show_nat b n = (if n < b \<or> b < 2 then [digit_char n] else show_nat b (n div b) @ [digit_char (n mod b)])"

declare show_nat.simps [simp del]

abbreviation to_string :: "nat \<Rightarrow> string" where
  "to_string n \<equiv> show_nat 10 n"

text \<open>Output through a stream with \<^verbatim>\<open>std::hex\<close>: lower case, no leading zeros.\<close>

abbreviation to_hex :: "nat \<Rightarrow> string" where
  "to_hex n \<equiv> show_nat 16 n"

lemma digit_val_digit_char [simp]: "d < b \<Longrightarrow> b \<le> 36 \<Longrightarrow> digit_val b (digit_char d) = Some d"
proof -
  assume "d < b" "b \<le> 36"
  moreover have "list_all (\<lambda>d. digit_of (digit_char d) = Some d) [0..<36]"
    by (simp add: upt_rec digit_char_def digit_of_def)
  ultimately show ?thesis by (simp add: digit_val_def list_all_iff)
qed

lemma digit_not_space: "digit_val b c = Some d \<Longrightarrow> \<not> is_space c"
  by (auto simp: digit_val_def digit_of_def is_space_def Let_def split: if_splits option.splits)

lemma digit_not_sign: "digit_val b c = Some d \<Longrightarrow> c \<noteq> CHR ''-'' \<and> c \<noteq> CHR ''+''"
  by (auto simp: digit_val_def digit_of_def Let_def)

lemma digit_char_not_x: "d < 16 \<Longrightarrow> digit_char d \<noteq> CHR ''x'' \<and> digit_char d \<noteq> CHR ''X''"
proof -
  assume "d < 16"
  then have "digit_val 16 (digit_char d) \<noteq> None" by simp
  moreover have "digit_val 16 (CHR ''x'') = None" "digit_val 16 (CHR ''X'') = None"
    by (simp_all add: digit_val_def digit_of_def Let_def)
  ultimately show ?thesis by metis
qed

lemma show_nat_nonempty [simp]: "show_nat b n \<noteq> []"
  by (subst show_nat.simps) auto

lemma show_nat_digits: "2 \<le> b \<Longrightarrow> c \<in> set (show_nat b n) \<Longrightarrow> \<exists>d < b. c = digit_char d"
proof (induction b n rule: show_nat.induct)
  case (1 b n)
  show ?case
  proof (cases "n < b")
    case True
    with 1 show ?thesis by (auto simp: show_nat.simps [of b n])
  next
    case False
    have "\<exists>d < b. digit_char (n mod b) = digit_char d"
      using 1 by (intro exI[of _ "n mod b"]) simp
    with 1 False show ?thesis by (auto simp: show_nat.simps [of b n])
  qed
qed

lemma length_show_nat: "2 \<le> b \<Longrightarrow> n < b ^ Suc k \<Longrightarrow> length (show_nat b n) \<le> Suc k"
proof (induction k arbitrary: n)
  case 0
  then show ?case by (simp add: show_nat.simps [of b n])
next
  case (Suc k)
  then have "n div b < b ^ Suc k" by (simp add: less_mult_imp_div_less mult.commute)
  with Suc show ?case by (auto simp: show_nat.simps [of b n])
qed

lemma show_nat_all_digits:
  "2 \<le> b \<Longrightarrow> b \<le> 36 \<Longrightarrow> c \<in> set (show_nat b n) \<Longrightarrow> digit_val b c \<noteq> None"
  using show_nat_digits[of b c n] by fastforce

lemma scan_digits_append:
  "(\<And>c. c \<in> set ds \<Longrightarrow> digit_val b c \<noteq> None) \<Longrightarrow>
   scan_digits b (ds @ rest) acc = scan_digits b rest (fst (scan_digits b ds acc))"
proof (induction ds arbitrary: acc)
  case (Cons a ds)
  then obtain d where "digit_val b a = Some d" by force
  with Cons show ?case by simp
qed simp

lemma scan_show_nat_acc:
  assumes "2 \<le> b" "b \<le> 36"
  shows "fst (scan_digits b (show_nat b n) 0) = n"
  using assms
proof (induction b n rule: show_nat.induct)
  case (1 b n)
  show ?case
  proof (cases "n < b")
    case True
    with 1 show ?thesis by (simp add: show_nat.simps [of b n])
  next
    case False
    have "scan_digits b (show_nat b (n div b) @ [digit_char (n mod b)]) 0
        = scan_digits b [digit_char (n mod b)] (n div b)"
      using 1 False by (subst scan_digits_append) (auto dest: show_nat_all_digits)
    with False 1 show ?thesis
      by (simp add: show_nat.simps [of b n])
  qed
qed

text \<open>What \<^verbatim>\<open>strtoul\<close> and the stream extractors read back from a printed number.\<close>

definition no_digit_first :: "nat \<Rightarrow> string \<Rightarrow> bool" where
  "no_digit_first b s = (case s of [] \<Rightarrow> True | c # _ \<Rightarrow> digit_val b c = None)"

lemma scan_show_nat:
  assumes "2 \<le> b" "b \<le> 36" "no_digit_first b rest"
  shows "scan_digits b (show_nat b n @ rest) 0 = (n, rest)"
proof -
  have "scan_digits b (show_nat b n @ rest) 0 = scan_digits b rest n"
    using assms by (subst scan_digits_append) (auto dest: show_nat_all_digits simp: scan_show_nat_acc)
  also have "\<dots> = (n, rest)"
    using assms(3) by (cases rest) (auto simp: no_digit_first_def)
  finally show ?thesis .
qed

lemma show_nat_Cons:
  assumes "2 \<le> b" "b \<le> 36"
  obtains c cs where "show_nat b n = c # cs" "digit_val b c \<noteq> None"
  using show_nat_nonempty[of b n] show_nat_all_digits[OF assms, of _ n]
  by (cases "show_nat b n") auto

lemma dropWhile_show_nat [simp]:
  assumes "2 \<le> b" "b \<le> 36"
  shows "dropWhile is_space (show_nat b n @ rest) = show_nat b n @ rest"
  by (rule show_nat_Cons[OF assms, of n]) (auto simp: digit_not_space)

lemma scan_sign_show_nat [simp]:
  assumes "2 \<le> b" "b \<le> 36"
  shows "scan_sign (show_nat b n @ rest) = (False, show_nat b n @ rest)"
  by (rule show_nat_Cons[OF assms, of n]) (auto simp: scan_sign_def dest!: digit_not_sign)

lemma skip_0x_show_nat:
  assumes "b = 10 \<or> b = 16" "no_digit_first b rest" "\<forall>c \<in> set (take 1 rest). c \<noteq> CHR ''x'' \<and> c \<noteq> CHR ''X''"
  shows "skip_0x b (show_nat b n @ rest) = show_nat b n @ rest"
proof (cases "b = 16")
  case True
  have "(show_nat 16 n @ rest) ! 1 \<noteq> CHR ''x'' \<and> (show_nat 16 n @ rest) ! 1 \<noteq> CHR ''X''"
    if "1 < length (show_nat 16 n @ rest)"
  proof (cases "1 < length (show_nat 16 n)")
    case l: True
    then have "show_nat 16 n ! 1 \<in> set (show_nat 16 n)" by (rule nth_mem)
    then obtain d where "d < 16" "show_nat 16 n ! 1 = digit_char d"
      using show_nat_digits[of 16 _ n] by fastforce
    with l show ?thesis by (simp add: nth_append digit_char_not_x)
  next
    case False
    then have "length (show_nat 16 n) = 1"
      using show_nat_nonempty[of 16 n] by (cases "show_nat 16 n") auto
    with that assms(3) show ?thesis
      by (cases rest) (auto simp: nth_append)
  qed
  then have "\<not> (\<exists>z d ds. show_nat 16 n @ rest = z # CHR ''x'' # d # ds \<or> show_nat 16 n @ rest = z # CHR ''X'' # d # ds)"
    by (metis One_nat_def Suc_less_eq length_Cons nth_Cons_0 nth_Cons_Suc zero_less_Suc)
  with True show ?thesis
    by (auto simp: skip_0x_def split: list.splits)
next
  case False
  then show ?thesis by (auto simp: skip_0x_def split: list.splits)
qed

lemma strtoul_show_nat:
  assumes b: "b = 10 \<or> b = 16" and rest: "no_digit_first b rest"
    "\<forall>c \<in> set (take 1 rest). c \<noteq> CHR ''x'' \<and> c \<noteq> CHR ''X''" and n: "n < 2 ^ 64"
  shows "strtoul b (show_nat b n @ rest) = n"
proof -
  have "2 \<le> b" "b \<le> 36" using b by auto
  with skip_0x_show_nat[OF b rest] scan_show_nat[OF _ _ rest(1), of n] n show ?thesis
    by (simp add: strtoul_def)
qed

lemma strtoul_show_nat' [simp]: "b = 10 \<or> b = 16 \<Longrightarrow> n < 2 ^ 64 \<Longrightarrow> strtoul b (show_nat b n) = n"
  using strtoul_show_nat[of b "[]" n] by (simp add: no_digit_first_def)

lemma strtoul_all_digits:
  assumes b: "b = 10 \<or> b = 16" and s: "s \<noteq> []" "\<forall>c \<in> set s. digit_val b c \<noteq> None"
    and n: "fst (scan_digits b s 0) < 2 ^ 64"
  shows "strtoul b s = fst (scan_digits b s 0)"
proof -
  obtain c cs d where c: "s = c # cs" "digit_val b c = Some d" using s by (cases s) auto
  have "dropWhile is_space s = s" "scan_sign s = (False, s)"
    using digit_not_space[OF c(2)] digit_not_sign[OF c(2)] c(1) by (auto simp: scan_sign_def)
  moreover have "digit_val 16 (CHR ''x'') = None" "digit_val 16 (CHR ''X'') = None"
    by (simp_all add: digit_val_def digit_of_def)
  then have "skip_0x b s = s"
    using s(2) by (auto simp: skip_0x_def split: list.splits)
  ultimately show ?thesis using n by (simp add: strtoul_def)
qed

text \<open>Upper case hexadecimal of a fixed width, as the kernel's \<^verbatim>\<open>%08X\<close> and \<^verbatim>\<open>%04X\<close> print it.\<close>

definition upper_digit :: "nat \<Rightarrow> char" where
  "upper_digit d = ''0123456789ABCDEF'' ! d"

fun hexU :: "nat \<Rightarrow> nat \<Rightarrow> string" where
  "hexU 0 n = []"
| "hexU (Suc w) n = hexU w (n div 16) @ [upper_digit (n mod 16)]"

lemma digit_val_upper [simp]: "d < 16 \<Longrightarrow> digit_val 16 (upper_digit d) = Some d"
proof -
  assume "d < 16"
  moreover have "list_all (\<lambda>d. digit_of (upper_digit d) = Some d) [0..<16]"
    by (simp add: upt_rec upper_digit_def digit_of_def)
  ultimately show ?thesis by (simp add: digit_val_def list_all_iff)
qed

lemma hexU_2: "hexU 2 n = [upper_digit (n div 16 mod 16), upper_digit (n mod 16)]"
  by (simp add: numeral_2_eq_2)


lemma length_hexU [simp]: "length (hexU w n) = w"
  by (induction w arbitrary: n) auto

lemma hexU_digits: "c \<in> set (hexU w n) \<Longrightarrow> digit_val 16 c \<noteq> None"
  by (induction w arbitrary: n) auto

lemma hexU_append: "hexU v (n div 16 ^ w) @ hexU w n = hexU (v + w) n"
proof (induction w arbitrary: n)
  case (Suc w)
  have "n div (16 * 16 ^ w) = n div 16 div 16 ^ w" by (simp add: div_mult2_eq)
  with Suc[of "n div 16"] show ?case by simp
qed simp

lemma hexU_4: "hexU 4 n = hexU 2 (n div 256) @ hexU 2 n"
  using hexU_append[of 2 n 2] by simp

lemma scan_hexU: "fst (scan_digits 16 (hexU w n) 0) = n mod 16 ^ w"
proof (induction w arbitrary: n)
  case (Suc w)
  have "fst (scan_digits 16 (hexU (Suc w) n) 0)
      = fst (scan_digits 16 [upper_digit (n mod 16)] (fst (scan_digits 16 (hexU w (n div 16)) 0)))"
    by (simp only: hexU.simps) (subst scan_digits_append, use hexU_digits in auto)
  also have "\<dots> = (n div 16) mod 16 ^ w * 16 + n mod 16" by (simp add: Suc.IH)
  also have "\<dots> = n mod 16 ^ Suc w"
    by (metis add.commute mod_mult2_eq mult.commute power_Suc)
  finally show ?case .
qed simp

lemma strtoul_hexU: "0 < w \<Longrightarrow> w \<le> 15 \<Longrightarrow> n < 16 ^ w \<Longrightarrow> strtoul 16 (hexU w n) = n"
proof -
  assume a: "0 < w" "w \<le> 15" "n < 16 ^ w"
  have "(16 :: nat) ^ w \<le> 16 ^ 15" using a(2) by (intro power_increasing) auto
  then have "fst (scan_digits 16 (hexU w n) 0) < 2 ^ 64" using a(3) by (simp add: scan_hexU)
  moreover have "hexU w n \<noteq> []" using a(1) by (metis length_hexU list.size(3) less_numeral_extra(3))
  ultimately show ?thesis using a(3) by (simp add: strtoul_all_digits hexU_digits scan_hexU)
qed

lemma hexU_no_colon: "CHR '':'' \<notin> set (hexU w n)"
  using hexU_digits[of "CHR '':''" w n] by (auto simp: digit_val_def digit_of_def)

lemma atoi_to_string:
  assumes "n < 2 ^ 32"
  shows "atoi (to_string n) = of_nat n"
proof -
  have "dropWhile is_space (to_string n) = to_string n" "scan_sign (to_string n) = (False, to_string n)"
    using dropWhile_show_nat[of 10 n "[]"] scan_sign_show_nat[of 10 n "[]"] by simp_all
  moreover have "fst (scan_digits 10 (to_string n) 0) = n"
    using scan_show_nat_acc[of 10 n] by simp
  ultimately show ?thesis using assms by (simp add: atoi_def strtol10_def)
qed

section \<open>Formatted extraction from an istringstream\<close>

text \<open>
  The stream is its fail flag and the characters left. \<^verbatim>\<open>>> uint16_t\<close> skips white space; at the
  end of the input it fails and leaves the variable alone, without a digit it stores 0 and fails,
  above 65535 it stores 65535 and fails; a minus sign negates modulo \<open>2 ^ 16\<close>. \<^verbatim>\<open>>> char\<close> takes
  one character after white space.
\<close>

type_synonym istream = "bool \<times> string"

definition get_u16 :: "istream \<Rightarrow> u16 \<Rightarrow> istream \<times> u16" where
  "get_u16 st old =
     (let (failed, s) = st; s1 = dropWhile is_space s in
      if failed then (st, old)
      else if s1 = [] then ((True, []), old)
      else let (neg, s2) = scan_sign s1; (n, rest) = scan_digits 10 s2 0 in
        if s2 = rest then ((True, rest), 0)
        else if 65535 < n then ((True, rest), 65535)
        else ((False, rest), if neg then - of_nat n else of_nat n))"

definition get_char :: "istream \<Rightarrow> istream" where
  "get_char st =
     (let (failed, s) = st in
      if failed then st
      else case dropWhile is_space s of [] \<Rightarrow> (True, []) | _ # cs \<Rightarrow> (False, cs))"

lemma get_u16_show_nat:
  assumes "no_digit_first 10 rest" "n < 2 ^ 16"
  shows "get_u16 (False, to_string n @ rest) old = ((False, rest), of_nat n)"
proof -
  have "scan_digits 10 (to_string n @ rest) 0 = (n, rest)"
    using assms by (simp add: scan_show_nat)
  moreover have "to_string n @ rest \<noteq> rest" "dropWhile is_space (to_string n @ rest) = to_string n @ rest"
    by simp_all
  ultimately show ?thesis
    using assms by (simp add: get_u16_def del: append_self_conv2 dropWhile_eq_Nil_conv)
qed

lemma get_char_dot [simp]: "get_char (False, CHR ''.'' # s) = (False, s)"
  by (simp add: get_char_def is_space_def)

section \<open>Tokens and lines\<close>

lemma length_dropWhile_less: "s \<noteq> [] \<Longrightarrow> P (hd s) \<Longrightarrow> length (dropWhile P s) < length s"
  by (cases s) (auto simp: le_imp_less_Suc length_dropWhile_le)

function tokens :: "string \<Rightarrow> string list" where
  "tokens s =
     (case dropWhile is_space s of
        [] \<Rightarrow> []
      | c # cs \<Rightarrow> takeWhile (\<lambda>x. \<not> is_space x) (c # cs) # tokens (dropWhile (\<lambda>x. \<not> is_space x) (c # cs)))"
  by pat_completeness auto
termination
proof (relation "measure length")
  fix s c cs
  assume s: "dropWhile is_space s = c # cs"
  then have "\<not> is_space c" using hd_dropWhile[of is_space s] by auto
  then have "length (dropWhile (\<lambda>x. \<not> is_space x) (c # cs)) < length (c # cs)"
    by (auto simp: length_dropWhile_le le_imp_less_Suc)
  also have "\<dots> \<le> length s" using length_dropWhile_le[of is_space s] s by simp
  finally show "(dropWhile (\<lambda>x. \<not> is_space x) (c # cs), s) \<in> measure length" by simp
qed simp

declare tokens.simps [simp del]

text \<open>The lines that repeated \<^verbatim>\<open>getline\<close> calls return: a final line need not end in a newline.\<close>

abbreviation newline :: char where
  "newline \<equiv> CHR 0x0A"

function getlines :: "string \<Rightarrow> string list" where
  "getlines s =
     (case s of
        [] \<Rightarrow> []
      | c # cs \<Rightarrow> takeWhile (\<lambda>x. x \<noteq> newline) s # getlines (drop 1 (dropWhile (\<lambda>x. x \<noteq> newline) s)))"
  by pat_completeness auto
termination
proof (relation "measure length")
  fix s :: string and c cs
  assume s: "s = c # cs"
  have "length (dropWhile (\<lambda>x. x \<noteq> newline) s) \<le> length s" by (rule length_dropWhile_le)
  with s show "(drop 1 (dropWhile (\<lambda>x. x \<noteq> newline) s), s) \<in> measure length"
    by (cases "dropWhile (\<lambda>x. x \<noteq> newline) s") auto
qed simp

declare getlines.simps [simp del]

lemma tokens_Nil [simp]: "tokens [] = []"
  by (simp add: tokens.simps)

lemma tokens_space [simp]: "is_space c \<Longrightarrow> tokens (c # s) = tokens s"
  by (subst (1 2) tokens.simps) simp

lemma tokens_word:
  assumes "w \<noteq> []" "\<forall>c \<in> set w. \<not> is_space c" "rest = [] \<or> is_space (hd rest)"
  shows "tokens (w @ rest) = w # tokens rest"
proof -
  obtain c cs where w: "w = c # cs" using assms(1) by (cases w) auto
  have "dropWhile is_space (w @ rest) = w @ rest" using assms(2) w by simp
  moreover have "takeWhile (\<lambda>x. \<not> is_space x) (w @ rest) = w"
    using assms(2,3) by (cases rest) (auto simp: takeWhile_append2)
  moreover have "dropWhile (\<lambda>x. \<not> is_space x) (w @ rest) = rest"
    using assms(2,3) by (cases rest) (auto simp: dropWhile_append2)
  ultimately show ?thesis
    using w by (subst tokens.simps) (simp add: w)
qed

lemma tokens_word_sp:
  "w \<noteq> [] \<Longrightarrow> \<forall>c \<in> set w. \<not> is_space c \<Longrightarrow> tokens (w @ CHR '' '' # rest) = w # tokens rest"
  using tokens_word[of w "CHR '' '' # rest"] by (simp add: is_space_def)

end
