(* ===== verification/Doubles.thy ===== *)
theory Doubles
  imports Complex_Main CppString
begin

text \<open>
  The C++ type \<^verbatim>\<open>double\<close>: an IEEE 754 binary64 number as the rational it stands for, the two
  infinities and NaN. Every operation computes the exact result and rounds it to 53 significant
  bits, ties to even, with gradual underflow below \<open>2\<close> to the power \<open>-1022\<close>. The sign of a zero
  is not kept. \<^verbatim>\<open>std::stod\<close> and \<^verbatim>\<open>std::to_string(double)\<close> are defined on it.
\<close>

section \<open>Rounding\<close>

fun ilog2 :: "nat \<Rightarrow> nat" where
  "ilog2 n = (if n < 2 then 0 else Suc (ilog2 (n div 2)))"

declare ilog2.simps [simp del]

lemma ilog2_bounds: "0 < n \<Longrightarrow> 2 ^ ilog2 n \<le> n \<and> n < 2 * 2 ^ ilog2 n"
proof (induction n rule: ilog2.induct)
  case (1 n)
  show ?case
  proof (cases "n < 2")
    case True
    then show ?thesis using 1 by (simp add: ilog2.simps)
  next
    case False
    then have "2 ^ ilog2 (n div 2) \<le> n div 2 \<and> n div 2 < 2 * 2 ^ ilog2 (n div 2)" using 1 by simp
    moreover have "ilog2 n = Suc (ilog2 (n div 2))" using False by (subst ilog2.simps) simp
    ultimately show ?thesis by auto
  qed
qed

text \<open>The exponent of a positive rational: the \<open>e\<close> with \<open>2 ^ e \<le> q < 2 ^ (e + 1)\<close>.\<close>

definition expo :: "rat \<Rightarrow> int" where
  "expo q = (let (n, d) = quotient_of q; e = int (ilog2 (nat n)) - int (ilog2 (nat d))
             in if 2 powi e \<le> q then e else e - 1)"

definition round_even :: "rat \<Rightarrow> int" where
  "round_even q = (let f = \<lfloor>q\<rfloor>; r = q - of_int f in
     if r < 1 / 2 then f else if 1 / 2 < r then f + 1 else if even f then f else f + 1)"

definition ulp :: "rat \<Rightarrow> rat" where
  "ulp q = 2 powi (max (- 1074) (expo q - 52))"

definition rnd_pos :: "rat \<Rightarrow> rat" where
  "rnd_pos q = of_int (round_even (q / ulp q)) * ulp q"

definition rnd :: "rat \<Rightarrow> rat" where
  "rnd q = (if q = 0 then 0 else if 0 < q then rnd_pos q else - rnd_pos (- q))"

section \<open>Values and operations\<close>

datatype double = Fin rat | PInf | NInf | NaN

definition dround :: "rat \<Rightarrow> double" where
  "dround q = (let r = rnd q in
     if 2 ^ 1024 \<le> r then PInf else if r \<le> - (2 ^ 1024) then NInf else Fin r)"

definition of_nat_d :: "nat \<Rightarrow> double" where
  "of_nat_d n = dround (of_nat n)"

definition of_int_d :: "int \<Rightarrow> double" where
  "of_int_d i = dround (of_int i)"

fun dneg :: "double \<Rightarrow> double" where
  "dneg (Fin x) = Fin (- x)"
| "dneg PInf = NInf"
| "dneg NInf = PInf"
| "dneg NaN = NaN"

fun dadd :: "double \<Rightarrow> double \<Rightarrow> double" where
  "dadd (Fin x) (Fin y) = dround (x + y)"
| "dadd NaN _ = NaN"
| "dadd _ NaN = NaN"
| "dadd PInf NInf = NaN"
| "dadd NInf PInf = NaN"
| "dadd PInf _ = PInf"
| "dadd NInf _ = NInf"
| "dadd (Fin _) y = y"

definition dsub :: "double \<Rightarrow> double \<Rightarrow> double" where
  "dsub x y = dadd x (dneg y)"

definition dinf :: "bool \<Rightarrow> double" where
  "dinf neg = (if neg then NInf else PInf)"

fun dsign :: "double \<Rightarrow> int" where
  "dsign (Fin x) = (if x < 0 then - 1 else if x = 0 then 0 else 1)"
| "dsign PInf = 1"
| "dsign NInf = - 1"
| "dsign NaN = 0"

definition dmul :: "double \<Rightarrow> double \<Rightarrow> double" where
  "dmul a b = (case (a, b) of
      (Fin x, Fin y) \<Rightarrow> dround (x * y)
    | _ \<Rightarrow> if a = NaN \<or> b = NaN \<or> dsign a * dsign b = 0 then NaN else dinf (dsign a * dsign b < 0))"

definition ddiv :: "double \<Rightarrow> double \<Rightarrow> double" where
  "ddiv a b = (case (a, b) of
      (Fin x, Fin y) \<Rightarrow>
        if y = 0 then (if x = 0 then NaN else dinf (x < 0)) else dround (x / y)
    | (Fin x, _) \<Rightarrow> if b = NaN then NaN else Fin 0
    | (_, Fin y) \<Rightarrow> if a = NaN then NaN else dinf (dsign a < 0 \<longleftrightarrow> \<not> y < 0)
    | _ \<Rightarrow> NaN)"

fun dle :: "double \<Rightarrow> double \<Rightarrow> bool" where
  "dle (Fin x) (Fin y) = (x \<le> y)"
| "dle NaN _ = False"
| "dle _ NaN = False"
| "dle NInf _ = True"
| "dle _ PInf = True"
| "dle _ _ = False"

fun dlt :: "double \<Rightarrow> double \<Rightarrow> bool" where
  "dlt (Fin x) (Fin y) = (x < y)"
| "dlt NaN _ = False"
| "dlt _ NaN = False"
| "dlt PInf _ = False"
| "dlt _ NInf = False"
| "dlt _ _ = True"

section \<open>Text\<close>

text \<open>\<^verbatim>\<open>std::to_string(double)\<close>: the format \<^verbatim>\<open>%f\<close>, six decimals of the exact value.\<close>

definition pad0 :: "nat \<Rightarrow> string \<Rightarrow> string" where
  "pad0 w s = replicate (w - length s) (CHR ''0'') @ s"

fun dto_string :: "double \<Rightarrow> string" where
  "dto_string (Fin x) =
     (let n = nat (round_even (\<bar>x\<bar> * 1000000)) in
      (if x < 0 then ''-'' else []) @ to_string (n div 1000000) @ ''.'' @ pad0 6 (to_string (n mod 1000000)))"
| "dto_string PInf = ''inf''"
| "dto_string NInf = ''-inf''"
| "dto_string NaN = ''nan''"

text \<open>
  \<^verbatim>\<open>std::stod\<close>: optional white space and sign, then \<^verbatim>\<open>inf\<close>, \<^verbatim>\<open>infinity\<close> or \<^verbatim>\<open>nan\<close> in any case, or digits
  with an optional point and exponent, in base 16 after \<^verbatim>\<open>0x\<close>. No digit at all is
  \<^verbatim>\<open>invalid_argument\<close>; a result that overflows, or is inexact below the normal range, is
  \<^verbatim>\<open>out_of_range\<close>.
\<close>

definition lower :: "char \<Rightarrow> char" where
  "lower c = (if 65 \<le> (of_char c :: nat) \<and> (of_char c :: nat) \<le> 90 then char_of ((of_char c :: nat) + 32) else c)"

definition has_prefix :: "string \<Rightarrow> string \<Rightarrow> bool" where
  "has_prefix p s = (map lower (take (length p) s) = p)"

definition scan_frac :: "nat \<Rightarrow> string \<Rightarrow> (rat \<times> string) option" where
  "scan_frac b s =
     (let (i, s1) = scan_digits b s 0; ni = length s - length s1;
          s2 = (case s1 of c # cs \<Rightarrow> if c = CHR ''.'' then cs else [] | [] \<Rightarrow> []);
          (f, s3) = scan_digits b s2 0; nf = length s2 - length s3
      in if ni = 0 \<and> nf = 0 then None
         else Some (of_nat i + of_nat f / of_nat b ^ nf,
                    case s1 of c # cs \<Rightarrow> if c = CHR ''.'' then s3 else s1 | [] \<Rightarrow> []))"

definition scan_exp :: "char \<Rightarrow> string \<Rightarrow> int" where
  "scan_exp mark s = (case s of
      c # cs \<Rightarrow>
        if lower c = mark then
          (let (neg, ds) = scan_sign cs; e = int (fst (scan_digits 10 ds 0)) in if neg then - e else e)
        else 0
    | [] \<Rightarrow> 0)"

definition strip_hex :: "string \<Rightarrow> string option" where
  "strip_hex s = (case s of
      z # x # ds \<Rightarrow> if z = CHR ''0'' \<and> lower x = CHR ''x'' \<and> scan_frac 16 ds \<noteq> None then Some ds else None
    | _ \<Rightarrow> None)"

definition strtod :: "string \<Rightarrow> (bool \<times> rat) option" where
  "strtod s =
     (let (neg, s1) = scan_sign (dropWhile is_space s) in
      case strip_hex s1 of
        Some s2 \<Rightarrow> map_option (\<lambda>(m, rest). (neg, m * 2 powi scan_exp (CHR ''p'') rest)) (scan_frac 16 s2)
      | None \<Rightarrow> map_option (\<lambda>(m, rest). (neg, m * 10 powi scan_exp (CHR ''e'') rest)) (scan_frac 10 s1))"

definition stod :: "string \<Rightarrow> double res" where
  "stod s =
     (let (neg, s1) = scan_sign (dropWhile is_space s) in
      if has_prefix ''inf'' s1 then Inr (dinf neg)
      else if has_prefix ''nan'' s1 then Inr NaN
      else case strtod s of
        None \<Rightarrow> Inl InvalidArgument
      | Some (ng, q) \<Rightarrow>
          (case dround (if ng then - q else q) of
             Fin r \<Rightarrow> if \<bar>r\<bar> < 2 powi (- 1022) \<and> \<bar>r\<bar> \<noteq> q then Inl OutOfRange else Inr (Fin r)
           | _ \<Rightarrow> Inl OutOfRange))"

text \<open>Points without a digit are no number.\<close>

lemma digit_val_dot: "digit_val b (CHR ''.'') = None"
  by (simp add: digit_val_def digit_of_def)

lemma stod_dots:
  assumes "set x \<subseteq> {CHR ''.''}"
  shows "stod x = Inl InvalidArgument"
proof (cases x)
  case Nil
  then show ?thesis by (simp add: stod_def strtod_def scan_sign_def strip_hex_def scan_frac_def has_prefix_def)
next
  case (Cons c cs)
  then have c: "c = CHR ''.''" using assms by simp
  have s: "dropWhile is_space x = x" "scan_sign x = (False, x)" using Cons c by (simp_all add: is_space_def scan_sign_def)
  have "scan_digits b cs 0 = (0, cs)" "scan_digits b x 0 = (0, x)" for b
    using Cons c assms by (cases cs; simp add: digit_val_dot)+
  then have "scan_frac b x = None" for b using Cons c by (simp add: scan_frac_def)
  moreover have "strip_hex x = None" using Cons c by (simp add: strip_hex_def split: list.split)
  moreover have "\<not> has_prefix ''inf'' x" "\<not> has_prefix ''nan'' x" using Cons c by (simp_all add: has_prefix_def lower_def)
  ultimately show ?thesis by (simp add: stod_def strtod_def s)
qed

section \<open>Rounding is monotone and keeps integers\<close>

lemma ilog2_bounds_int: "0 < i \<Longrightarrow> (2::int) ^ ilog2 (nat i) \<le> i \<and> i < 2 * 2 ^ ilog2 (nat i)"
proof -
  assume "0 < i"
  then obtain n where n: "i = int n" "0 < n" using zero_less_imp_eq_int by blast
  from ilog2_bounds[OF n(2)] have "int (2 ^ ilog2 n) \<le> int n \<and> int n < int (2 * 2 ^ ilog2 n)"
    by (simp only: of_nat_le_iff of_nat_less_iff)
  then show ?thesis using n by simp
qed

lemma expo_bounds:
  assumes "0 < q"
  shows "2 powi expo q \<le> q" "q < 2 powi (expo q + 1)"
proof -
  obtain n d where nd: "quotient_of q = (n, d)" by (cases "quotient_of q")
  have d: "0 < d" and q: "q = of_int n / of_int d"
    using nd quotient_of_denom_pos quotient_of_div by blast+
  then have n: "0 < n" using assms by (simp add: zero_less_divide_iff)
  let ?a = "ilog2 (nat n)" and ?b = "ilog2 (nat d)"
  have "(2::int) ^ ?a \<le> n" "n < 2 * 2 ^ ?a" "(2::int) ^ ?b \<le> d" "d < 2 * 2 ^ ?b"
    using ilog2_bounds_int n d by simp_all
  then have "(of_int (2 ^ ?a) :: rat) \<le> of_int n" "(of_int n :: rat) < of_int (2 * 2 ^ ?a)"
    "(of_int (2 ^ ?b) :: rat) \<le> of_int d" "(of_int d :: rat) < of_int (2 * 2 ^ ?b)"
    by (simp_all only: of_int_le_iff of_int_less_iff)
  then have bn: "(2::rat) ^ ?a \<le> of_int n" "of_int n < (2::rat) * 2 ^ ?a"
    and bd: "(2::rat) ^ ?b \<le> of_int d" "of_int d < (2::rat) * 2 ^ ?b" by simp_all
  have dpos: "(0::rat) < of_int d" using d by simp
  have up: "q < 2 * 2 ^ ?a / 2 ^ ?b"
  proof -
    have "of_int n / of_int d \<le> (of_int n :: rat) / 2 ^ ?b" using bd(1) n by (simp add: frac_le)
    also have "\<dots> < 2 * 2 ^ ?a / 2 ^ ?b" using bn(2) by (simp add: divide_strict_right_mono)
    finally show ?thesis using q by simp
  qed
  have lo: "2 ^ ?a / (2 * 2 ^ ?b) \<le> q"
  proof -
    have "(2::rat) ^ ?a / (2 * 2 ^ ?b) \<le> of_int n / (2 * 2 ^ ?b)" using bn(1) by (simp add: divide_right_mono)
    also have "\<dots> \<le> of_int n / of_int d" using bd(2) n dpos by (simp add: frac_le)
    finally show ?thesis using q by simp
  qed
  let ?e = "int ?a - int ?b"
  have pe: "(2::rat) powi ?e = 2 ^ ?a / 2 ^ ?b" by (simp add: power_int_diff)
  have pe1: "(2::rat) powi (?e + 1) = 2 * 2 ^ ?a / 2 ^ ?b" by (subst power_int_add) (simp_all add: pe)
  have pem: "(2::rat) powi (?e - 1) = 2 ^ ?a / (2 * 2 ^ ?b)" by (subst power_int_diff) (simp_all add: pe)
  have ex: "expo q = (if 2 powi ?e \<le> q then ?e else ?e - 1)" by (simp add: expo_def nd)
  show "2 powi expo q \<le> q" using ex lo pem by (cases "2 powi ?e \<le> q") simp_all
  show "q < 2 powi (expo q + 1)" using ex up pe1 by (cases "2 powi ?e \<le> q") simp_all
qed

lemma round_even_range: "\<lfloor>q\<rfloor> \<le> round_even q \<and> round_even q \<le> \<lfloor>q\<rfloor> + 1"
  by (simp add: round_even_def Let_def)

lemma round_even_of_int [simp]: "round_even (of_int i) = i"
  by (simp add: round_even_def)

lemma round_even_mono: "x \<le> y \<Longrightarrow> round_even x \<le> round_even y"
proof -
  assume le: "x \<le> y"
  then consider "\<lfloor>x\<rfloor> < \<lfloor>y\<rfloor>" | "\<lfloor>x\<rfloor> = \<lfloor>y\<rfloor>" using floor_mono by fastforce
  then show ?thesis
  proof cases
    case 1
    then show ?thesis using round_even_range[of x] round_even_range[of y] by linarith
  next
    case 2
    with le show ?thesis by (auto simp: round_even_def Let_def)
  qed
qed

lemma ulp_pos [simp]: "0 < ulp q"
  by (simp add: ulp_def)

lemma expo_mono:
  assumes "0 < x" "x \<le> y"
  shows "expo x \<le> expo y"
proof (rule ccontr)
  assume "\<not> expo x \<le> expo y"
  then have "(2::rat) powi (expo y + 1) \<le> 2 powi expo x" by (intro power_int_increasing) simp_all
  then show False using expo_bounds[of x] expo_bounds[of y] assms by linarith
qed

lemma powi_int: "0 \<le> k \<Longrightarrow> (2::rat) powi k = of_int (2 ^ nat k)"
  by (simp add: power_int_def)

lemma rnd_pos_le_powi:
  assumes "x \<le> 2 powi e" "max (- 1074) (expo x - 52) \<le> e"
  shows "rnd_pos x \<le> 2 powi e"
proof -
  let ?m = "max (- 1074) (expo x - 52)"
  have "x / ulp x \<le> 2 powi (e - ?m)"
    using assms(1) by (simp add: ulp_def power_int_diff divide_right_mono)
  then have "x / ulp x \<le> of_int (2 ^ nat (e - ?m))" using assms(2) by (simp add: powi_int)
  then have "round_even (x / ulp x) \<le> 2 ^ nat (e - ?m)"
    using round_even_mono[of "x / ulp x" "of_int (2 ^ nat (e - ?m))"] round_even_of_int by metis
  then have "(of_int (round_even (x / ulp x)) :: rat) \<le> of_int (2 ^ nat (e - ?m))"
    by (simp only: of_int_le_iff)
  then have "(of_int (round_even (x / ulp x)) :: rat) \<le> 2 powi (e - ?m)" using assms(2) by (simp add: powi_int)
  then have "rnd_pos x \<le> 2 powi (e - ?m) * 2 powi ?m"
    unfolding rnd_pos_def ulp_def by (rule mult_right_mono) simp
  also have "\<dots> = 2 powi e" by (simp flip: power_int_add)
  finally show ?thesis .
qed

lemma powi_le_rnd_pos:
  assumes "2 powi e \<le> x" "max (- 1074) (expo x - 52) \<le> e"
  shows "2 powi e \<le> rnd_pos x"
proof -
  let ?m = "max (- 1074) (expo x - 52)"
  have "2 powi (e - ?m) \<le> x / ulp x"
    using assms(1) by (simp add: ulp_def power_int_diff divide_right_mono)
  then have "of_int (2 ^ nat (e - ?m)) \<le> x / ulp x" using assms(2) by (simp add: powi_int)
  then have "2 ^ nat (e - ?m) \<le> round_even (x / ulp x)"
    using round_even_mono[of "of_int (2 ^ nat (e - ?m))" "x / ulp x"] round_even_of_int by metis
  then have "(of_int (2 ^ nat (e - ?m)) :: rat) \<le> of_int (round_even (x / ulp x))"
    by (simp only: of_int_le_iff)
  then have "2 powi (e - ?m) \<le> (of_int (round_even (x / ulp x)) :: rat)" using assms(2) by (simp add: powi_int)
  then have "2 powi (e - ?m) * 2 powi ?m \<le> rnd_pos x"
    unfolding rnd_pos_def ulp_def by (rule mult_right_mono) simp
  moreover have "2 powi (e - ?m) * 2 powi ?m = (2::rat) powi e" by (simp flip: power_int_add)
  ultimately show ?thesis by simp
qed

lemma rnd_pos_mono:
  assumes "0 < x" "x \<le> y"
  shows "rnd_pos x \<le> rnd_pos y"
proof (cases "ulp x = ulp y")
  case True
  have "round_even (x / ulp y) \<le> round_even (y / ulp y)"
    using assms(2) by (intro round_even_mono divide_right_mono) (simp_all add: less_imp_le)
  then show ?thesis by (simp add: rnd_pos_def True)
next
  case False
  have e: "expo x \<le> expo y" using expo_mono assms by blast
  moreover have "max (- 1074) (expo x - 52) \<noteq> max (- 1074) (expo y - 52)"
    using False by (auto simp: ulp_def)
  ultimately have lt: "expo x + 1 \<le> expo y" "- 1074 \<le> expo y - 52" by linarith+
  have "(2::rat) powi (expo x + 1) \<le> 2 powi expo y" using lt(1) by (intro power_int_increasing) simp_all
  then have "rnd_pos x \<le> 2 powi expo y"
    using expo_bounds[OF assms(1)] lt by (intro rnd_pos_le_powi) auto
  also have "\<dots> \<le> rnd_pos y"
    using expo_bounds[of y] assms lt by (intro powi_le_rnd_pos) auto
  finally show ?thesis .
qed

lemma rnd_pos_nonneg: "0 < x \<Longrightarrow> 0 \<le> rnd_pos x"
proof -
  assume "0 < x"
  then have "0 \<le> x / ulp x" by (simp add: less_imp_le)
  then have "0 \<le> round_even (x / ulp x)" using round_even_mono[of 0 "x / ulp x"] round_even_of_int[of 0] by simp
  then show ?thesis by (simp add: rnd_pos_def less_imp_le)
qed

lemma rnd_mono: "x \<le> y \<Longrightarrow> rnd x \<le> rnd y"
  using rnd_pos_mono[of x y] rnd_pos_mono[of "- y" "- x"] rnd_pos_nonneg[of y] rnd_pos_nonneg[of "- x"]
  by (auto simp: rnd_def)

lemma rnd_pos_int:
  assumes "0 < n" "n < 2 ^ 53"
  shows "rnd_pos (of_int n) = of_int n"
proof -
  let ?e = "expo (of_int n)" and ?m = "max (- 1074) (expo (of_int n) - 52)"
  have "expo 1 \<le> ?e" using assms expo_mono[of 1 "of_int n"] by simp
  moreover have "expo 1 = 0" by (simp add: expo_def ilog2.simps)
  moreover have "?e < 53"
  proof (rule ccontr)
    assume "\<not> ?e < 53"
    then have "(2::rat) powi 53 \<le> 2 powi ?e" by (intro power_int_increasing) simp_all
    then have "(of_int (2 ^ 53) :: rat) \<le> of_int n" using expo_bounds[of "of_int n"] assms by (simp add: power_int_def)
    then show False using assms by (simp only: of_int_le_iff)
  qed
  ultimately have m: "?m = ?e - 52" "0 \<le> - ?m" by simp_all
  have "of_int n / ulp (of_int n) = of_int n * 2 powi (- ?m)"
    by (simp add: ulp_def power_int_minus field_simps)
  also have "\<dots> = of_int (n * 2 ^ nat (- ?m))" using m(2) by (simp only: powi_int) simp
  finally have "round_even (of_int n / ulp (of_int n)) = n * 2 ^ nat (- ?m)" by (simp only: round_even_of_int)
  then have "rnd_pos (of_int n) = of_int n * 2 powi (- ?m) * 2 powi ?m"
    using m(2) by (simp add: rnd_pos_def powi_int ulp_def)
  then show ?thesis by (simp add: power_int_minus)
qed

lemma rnd_int: "\<bar>n\<bar> < 2 ^ 53 \<Longrightarrow> rnd (of_int n) = of_int n"
  using rnd_pos_int[of n] rnd_pos_int[of "- n"] by (auto simp: rnd_def)

end
