(* ===== verification/Json.thy ===== *)
theory Json
  imports Doubles
begin

text \<open>
  The agent keeps its configuration and its measures in values of the jsoncpp library. The library
  is a parameter of the model: the record \<open>jsonlib\<close> of its operations on an opaque type of values.
  What the agent relies on is stated by the locale \<open>json_laws\<close>, which follows the library's
  documentation: reading a member after writing it, appending to an array, and the conversions of a
  value to the type it was made from. A value written by the agent is an object or an array
  wherever it is used as one; a configuration file with a value of another type there makes the
  library throw, and the model takes files of the documented shape.
  An executable reference implementation shows that the laws can hold and runs the witnesses.
\<close>

section \<open>The library's operations\<close>

datatype place = commentBefore | commentAfterOnSameLine

record 'j jsonlib =
  j_null :: 'j
  j_object :: 'j
  j_array :: 'j
  j_string :: "string \<Rightarrow> 'j"
  j_int :: "int \<Rightarrow> 'j"
  j_uint :: "nat \<Rightarrow> 'j"
  j_double :: "double \<Rightarrow> 'j"
  j_bool :: "bool \<Rightarrow> 'j"
  j_isObject :: "'j \<Rightarrow> bool"
  j_isArray :: "'j \<Rightarrow> bool"
  j_member :: "'j \<Rightarrow> string \<Rightarrow> bool"
  j_get :: "'j \<Rightarrow> string \<Rightarrow> 'j"
  j_set :: "'j \<Rightarrow> string \<Rightarrow> 'j \<Rightarrow> 'j"
  j_at :: "'j \<Rightarrow> nat \<Rightarrow> 'j"
  j_set_at :: "'j \<Rightarrow> nat \<Rightarrow> 'j \<Rightarrow> 'j"
  j_append :: "'j \<Rightarrow> 'j \<Rightarrow> 'j"
  j_clear :: "'j \<Rightarrow> 'j"
  j_elems :: "'j \<Rightarrow> 'j list"
  j_keys :: "'j \<Rightarrow> string list"
  j_eq :: "'j \<Rightarrow> 'j \<Rightarrow> bool"
  j_setComment :: "'j \<Rightarrow> string \<Rightarrow> place \<Rightarrow> 'j"
  j_asString :: "'j \<Rightarrow> string res"
  j_asBool :: "'j \<Rightarrow> bool res"
  j_asInt :: "'j \<Rightarrow> int res"
  j_asUInt :: "'j \<Rightarrow> u32 res"
  j_asDouble :: "'j \<Rightarrow> double res"
  j_write :: "'j \<Rightarrow> string"
  j_writeString :: "string \<Rightarrow> bool \<Rightarrow> 'j \<Rightarrow> string"
  j_read :: "string \<Rightarrow> 'j res"

text \<open>
  \<open>j_get\<close> and \<open>j_set\<close> are the subscript operators on a member name, for reading and for
  assignment; \<open>j_at\<close> and \<open>j_set_at\<close> those on an array index. \<open>j_elems\<close> and \<open>j_keys\<close> are what an
  iterator goes through. \<open>j_writeString\<close> takes the writer's indentation and whether it writes
  comments, and \<open>j_write\<close> is the stream output operator.

  A chain of subscripts on the left of an assignment creates the members on its way.
\<close>

datatype sub = Key string | Idx nat

fun j_put :: "'j jsonlib \<Rightarrow> sub list \<Rightarrow> 'j \<Rightarrow> 'j \<Rightarrow> 'j" where
  "j_put J [] x v = x"
| "j_put J (Key k # ks) x v = j_set J v k (j_put J ks x (j_get J v k))"
| "j_put J (Idx i # ks) x v = j_set_at J v i (j_put J ks x (j_at J v i))"

fun j_path :: "'j jsonlib \<Rightarrow> string list \<Rightarrow> 'j \<Rightarrow> 'j" where
  "j_path J [] v = v"
| "j_path J (k # ks) v = j_path J ks (j_get J v k)"

text \<open>The agent's way to fill in a default: set a missing member and comment it.\<close>

definition j_default :: "'j jsonlib \<Rightarrow> string \<Rightarrow> 'j \<Rightarrow> string \<Rightarrow> place \<Rightarrow> 'j \<Rightarrow> 'j" where
  "j_default J k x txt pl c =
     (if j_member J c k then c else j_set J c k (j_setComment J x txt pl))"

text \<open>The comments of the settings every plugin has.\<close>

definition cm_history :: string where
  "cm_history = ''/*'' @ [CHR 0x09, CHR 0x09] @ ''Number of elements to keep*/''"

definition cm_poll :: string where
  "cm_poll = ''/* '' @ [CHR 0x09] @ ''Number of seconds between snapshots*/''"

definition cm_enable :: string where
  "cm_enable = ''/*'' @ [CHR 0x09, CHR 0x09] @ ''Enable this plugin ?*/''"

text \<open>The settings of a plugin: history length, poll frequency, and whether it is enabled.\<close>

definition plugin_defaults :: "'j jsonlib \<Rightarrow> u32 \<Rightarrow> u32 \<Rightarrow> 'j \<Rightarrow> 'j" where
  "plugin_defaults J p_history p_freq_pool c =
     (let c1 = (if 0 < p_history
                then j_default J ''history'' (j_uint J (unat p_history)) cm_history commentAfterOnSameLine c else c);
          c2 = (if 0 < p_freq_pool
                then j_default J ''poll-frequency'' (j_uint J (unat p_freq_pool)) cm_poll commentAfterOnSameLine c1 else c1)
      in j_default J ''enable'' (j_bool J True) cm_enable commentAfterOnSameLine c2)"

section \<open>What the library promises\<close>

locale json_laws =
  fixes J :: "'j jsonlib"
  assumes obj_object: "j_isObject J (j_object J)"
    and obj_set: "j_isObject J v \<Longrightarrow> j_isObject J (j_set J v k x)"
    and get_set: "j_isObject J v \<Longrightarrow> j_get J (j_set J v k x) k' = (if k' = k then x else j_get J v k')"
    and member_set: "j_isObject J v \<Longrightarrow> j_member J (j_set J v k x) k' \<longleftrightarrow> k' = k \<or> j_member J v k'"
    and member_object: "\<not> j_member J (j_object J) k"
    and arr_array: "j_isArray J (j_array J)"
    and elems_array: "j_elems J (j_array J) = []"
    and arr_append: "j_isArray J a \<Longrightarrow> j_isArray J (j_append J a x)"
    and elems_append: "j_isArray J a \<Longrightarrow> j_elems J (j_append J a x) = j_elems J a @ [x]"
    and arr_clear: "j_isArray J a \<Longrightarrow> j_isArray J (j_clear J a)"
    and elems_clear: "j_isArray J a \<Longrightarrow> j_elems J (j_clear J a) = []"
    and as_string: "j_asString J (j_string J s) = Inr s"
    and as_bool: "j_asBool J (j_bool J b) = Inr b"
    and as_double: "j_asDouble J (j_double J d) = Inr d"
    and as_int: "- (2 ^ 31) \<le> i \<Longrightarrow> i < 2 ^ 31 \<Longrightarrow> j_asInt J (j_int J i) = Inr i"
    and as_uint: "n < 2 ^ 32 \<Longrightarrow> j_asUInt J (j_uint J n) = Inr (of_nat n)"
    and as_int_uint: "n < 2 ^ 31 \<Longrightarrow> j_asInt J (j_uint J n) = Inr (int n)"
    and comment_get: "j_asString J (j_setComment J x txt pl) = j_asString J x"
      "j_asBool J (j_setComment J x txt pl) = j_asBool J x"
      "j_asInt J (j_setComment J x txt pl) = j_asInt J x"
      "j_asUInt J (j_setComment J x txt pl) = j_asUInt J x"
      "j_asDouble J (j_setComment J x txt pl) = j_asDouble J x"
begin

lemmas laws = obj_object obj_set get_set member_set member_object as_string as_bool as_double as_int
  as_uint as_int_uint comment_get

lemma member_default:
  "j_isObject J c \<Longrightarrow> j_member J (j_default J k x txt pl c) k' \<longleftrightarrow> k' = k \<or> j_member J c k'"
  by (auto simp: j_default_def member_set)

lemma obj_default: "j_isObject J c \<Longrightarrow> j_isObject J (j_default J k x txt pl c)"
  by (simp add: j_default_def obj_set)

lemma get_default_other: "j_isObject J c \<Longrightarrow> k' \<noteq> k \<Longrightarrow> j_get J (j_default J k x txt pl c) k' = j_get J c k'"
  by (simp add: j_default_def get_set)

lemma get_default_kept: "j_member J c k \<Longrightarrow> j_default J k x txt pl c = c"
  by (simp add: j_default_def)

lemma obj_plugin_defaults: "j_isObject J c \<Longrightarrow> j_isObject J (plugin_defaults J h p c)"
  by (simp add: plugin_defaults_def Let_def obj_default)

lemma plugin_defaults_kept:
  assumes "j_isObject J c" "j_member J c k"
  shows "j_get J (plugin_defaults J h p c) k = j_get J c k"
proof -
  have "j_get J (j_default J k' x tx pl d) k = j_get J d k \<and> j_member J (j_default J k' x tx pl d) k"
    if "j_isObject J d" "j_member J d k" for k' x tx pl d
    using that by (cases "k' = k") (auto simp: get_default_kept get_default_other member_default)
  then show ?thesis using assms by (simp add: plugin_defaults_def Let_def obj_default)
qed

lemma plugin_defaults_history:
  assumes "j_isObject J c" "\<not> j_member J c ''history''" "0 < h"
  shows "j_asUInt J (j_get J (plugin_defaults J h p c) ''history'') = Inr h"
  using assms u32_bound[of h]
  by (simp add: plugin_defaults_def Let_def get_default_other obj_default)
     (simp add: j_default_def get_set comment_get as_uint)

lemma elems_fold_append:
  "j_isArray J a \<Longrightarrow> j_elems J (fold (\<lambda>x a. j_append J a x) xs a) = j_elems J a @ xs"
  by (induction xs arbitrary: a) (simp_all add: elems_append arr_append)

end

section \<open>A reference implementation\<close>

datatype jv = JNull | JBool bool | JInt int | JDbl double | JStr string | JArr "jv list" | JObj "(string \<times> jv) list"

fun jv_get :: "jv \<Rightarrow> string \<Rightarrow> jv" where
  "jv_get (JObj m) k = (case map_of m k of Some v \<Rightarrow> v | None \<Rightarrow> JNull)"
| "jv_get _ k = JNull"

fun jv_set :: "jv \<Rightarrow> string \<Rightarrow> jv \<Rightarrow> jv" where
  "jv_set (JObj m) k v = JObj (mput k v m)"
| "jv_set _ k v = JObj [(k, v)]"

fun jv_member :: "jv \<Rightarrow> string \<Rightarrow> bool" where
  "jv_member (JObj m) k = mhas m k"
| "jv_member _ k = False"

fun jv_elems :: "jv \<Rightarrow> jv list" where
  "jv_elems (JArr xs) = xs"
| "jv_elems (JObj m) = map snd m"
| "jv_elems _ = []"

fun jv_keys :: "jv \<Rightarrow> string list" where
  "jv_keys (JObj m) = map fst m"
| "jv_keys _ = []"

definition jv_at :: "jv \<Rightarrow> nat \<Rightarrow> jv" where
  "jv_at v i = (let xs = jv_elems v in if i < length xs then xs ! i else JNull)"

definition jv_set_at :: "jv \<Rightarrow> nat \<Rightarrow> jv \<Rightarrow> jv" where
  "jv_set_at v i x = (let xs = jv_elems v; ys = xs @ replicate (Suc i - length xs) JNull in JArr (ys[i := x]))"

fun jv_clear :: "jv \<Rightarrow> jv" where
  "jv_clear (JArr _) = JArr []"
| "jv_clear (JObj _) = JObj []"
| "jv_clear v = v"

definition show_int :: "int \<Rightarrow> string" where
  "show_int i = (if i < 0 then CHR ''-'' # to_string (nat (- i)) else to_string (nat i))"

fun jv_asString :: "jv \<Rightarrow> string res" where
  "jv_asString (JStr s) = Inr s"
| "jv_asString (JInt i) = Inr (show_int i)"
| "jv_asString (JBool b) = Inr (if b then ''true'' else ''false'')"
| "jv_asString (JDbl d) = Inr (dto_string d)"
| "jv_asString JNull = Inr []"
| "jv_asString _ = Inl JsonError"

fun jv_asBool :: "jv \<Rightarrow> bool res" where
  "jv_asBool (JBool b) = Inr b"
| "jv_asBool (JInt i) = Inr (i \<noteq> 0)"
| "jv_asBool JNull = Inr False"
| "jv_asBool _ = Inl JsonError"

fun jv_asInt :: "jv \<Rightarrow> int res" where
  "jv_asInt (JInt i) = (if - (2 ^ 31) \<le> i \<and> i < 2 ^ 31 then Inr i else Inl JsonError)"
| "jv_asInt JNull = Inr 0"
| "jv_asInt _ = Inl JsonError"

fun jv_asUInt :: "jv \<Rightarrow> u32 res" where
  "jv_asUInt (JInt i) = (if 0 \<le> i \<and> i < 2 ^ 32 then Inr (of_int i) else Inl JsonError)"
| "jv_asUInt JNull = Inr 0"
| "jv_asUInt _ = Inl JsonError"

fun jv_asDouble :: "jv \<Rightarrow> double res" where
  "jv_asDouble (JDbl d) = Inr d"
| "jv_asDouble (JInt i) = Inr (of_int_d i)"
| "jv_asDouble JNull = Inr (Fin 0)"
| "jv_asDouble _ = Inl JsonError"

fun sep_by :: "string \<Rightarrow> string list \<Rightarrow> string" where
  "sep_by s [] = []"
| "sep_by s [x] = x"
| "sep_by s (x # y # xs) = x @ s @ sep_by s (y # xs)"

fun jv_write :: "jv \<Rightarrow> string" where
  "jv_write JNull = ''null''"
| "jv_write (JBool b) = (if b then ''true'' else ''false'')"
| "jv_write (JInt i) = show_int i"
| "jv_write (JDbl d) = dto_string d"
| "jv_write (JStr s) = [CHR 0x22] @ s @ [CHR 0x22]"
| "jv_write (JArr xs) = ''['' @ sep_by '','' (map jv_write xs) @ '']''"
| "jv_write (JObj m) = ''{'' @ sep_by '','' (map (\<lambda>(k, v). [CHR 0x22] @ k @ [CHR 0x22] @ '':'' @ jv_write v) m) @ ''}''"

definition ref_json :: "jv jsonlib" where
  "ref_json = \<lparr>j_null = JNull, j_object = JObj [], j_array = JArr [], j_string = JStr, j_int = JInt,
     j_uint = (\<lambda>n. JInt (int n)), j_double = JDbl, j_bool = JBool,
     j_isObject = (\<lambda>v. case v of JObj _ \<Rightarrow> True | _ \<Rightarrow> False),
     j_isArray = (\<lambda>v. case v of JArr _ \<Rightarrow> True | _ \<Rightarrow> False),
     j_member = jv_member, j_get = jv_get, j_set = jv_set, j_at = jv_at, j_set_at = jv_set_at,
     j_append = (\<lambda>a x. JArr (jv_elems a @ [x])), j_clear = jv_clear, j_elems = jv_elems, j_keys = jv_keys,
     j_eq = (=), j_setComment = (\<lambda>v _ _. v),
     j_asString = jv_asString, j_asBool = jv_asBool, j_asInt = jv_asInt, j_asUInt = jv_asUInt,
     j_asDouble = jv_asDouble, j_write = jv_write, j_writeString = (\<lambda>_ _. jv_write),
     j_read = (\<lambda>_. Inl JsonError)\<rparr>"

lemma jv_get_set: "jv_get (jv_set (JObj m) k x) k' = (if k' = k then x else jv_get (JObj m) k')"
  by simp

lemma ref_json_sel [simp]:
  "j_null ref_json = JNull" "j_object ref_json = JObj []" "j_array ref_json = JArr []"
  "j_string ref_json = JStr" "j_int ref_json = JInt" "j_uint ref_json n = JInt (int n)"
  "j_double ref_json = JDbl" "j_bool ref_json = JBool"
  "j_isObject ref_json v = (case v of JObj _ \<Rightarrow> True | _ \<Rightarrow> False)"
  "j_isArray ref_json v = (case v of JArr _ \<Rightarrow> True | _ \<Rightarrow> False)"
  "j_member ref_json = jv_member" "j_get ref_json = jv_get" "j_set ref_json = jv_set"
  "j_at ref_json = jv_at" "j_set_at ref_json = jv_set_at" "j_append ref_json a x = JArr (jv_elems a @ [x])"
  "j_clear ref_json = jv_clear" "j_elems ref_json = jv_elems" "j_keys ref_json = jv_keys"
  "j_eq ref_json = (=)" "j_setComment ref_json v c pl = v" "j_asString ref_json = jv_asString"
  "j_asBool ref_json = jv_asBool" "j_asInt ref_json = jv_asInt" "j_asUInt ref_json = jv_asUInt"
  "j_asDouble ref_json = jv_asDouble" "j_write ref_json = jv_write" "j_writeString ref_json ind cm = jv_write"
  "j_read ref_json s = Inl JsonError"
  by (simp_all add: ref_json_def)

interpretation ref: json_laws ref_json
  by unfold_locales (auto split: jv.splits)

end
