(* ===== verification/History.thy ===== *)
theory History
  imports Json
begin

text \<open>
  What the measures of a collector and the events of a log parser have in common: a vector with the
  newest entry first, cut to a maximum length after each insertion, where a new entry starts as a
  copy of the one before it; and the loop that hands out the entries from a time on, oldest first.
  The locale \<open>bounded_history\<close> states the first contract for any state with such a vector.
\<close>

section \<open>A history of bounded length\<close>

locale bounded_history =
  fixes hist :: "'s \<Rightarrow> 'e list"
    and cap :: "'s \<Rightarrow> nat"
    and record_entry :: "'i \<Rightarrow> 's \<Rightarrow> 's"
    and entry :: "'i \<Rightarrow> 'e list \<Rightarrow> 'e"
  assumes hist_record: "hist (record_entry i s) = take (cap s) (entry i (hist s) # hist s)"
    and cap_record: "cap (record_entry i s) = cap s"
begin

lemma cap_run: "cap (fold record_entry is s) = cap s"
  by (induction "is" arbitrary: s) (simp_all add: cap_record)

lemma length_record: "length (hist (record_entry i s)) = min (cap s) (Suc (length (hist s)))"
  by (simp add: hist_record min_def)

lemma bounded_record: "length (hist (record_entry i s)) \<le> cap s"
  by (simp add: hist_record)

lemma length_run:
  "length (hist s) \<le> cap s \<Longrightarrow> length (hist (fold record_entry is s)) = min (cap s) (length (hist s) + length is)"
proof (induction "is" arbitrary: s)
  case (Cons i "is")
  have "length (hist (record_entry i s)) \<le> cap (record_entry i s)"
    by (simp add: bounded_record cap_record)
  from Cons.IH[OF this] show ?case by (simp add: cap_record length_record)
qed simp

text \<open>
  What can be read off an entry: if the entries satisfy \<open>P\<close> and \<open>f\<close> reads \<open>g i\<close> off the entry made
  from \<open>i\<close>, a run shows the newest readings, newest first, followed by the old ones, cut.
\<close>

lemma map_run:
  assumes "\<And>i v. \<forall>e \<in> set v. P e \<Longrightarrow> P (entry i v) \<and> f (entry i v) = g i"
    and "\<forall>e \<in> set (hist s). P e" "length (hist s) \<le> cap s"
  shows "map f (hist (fold record_entry is s)) = take (cap s) (rev (map g is) @ map f (hist s)) \<and>
    (\<forall>e \<in> set (hist (fold record_entry is s)). P e)"
  using assms(2,3)
proof (induction "is" arbitrary: s)
  case (Cons i "is")
  have "length (hist (record_entry i s)) \<le> cap (record_entry i s)"
    by (simp add: bounded_record cap_record)
  moreover have "\<forall>e \<in> set (hist (record_entry i s)). P e"
    using assms(1)[OF Cons.prems(1), of i] Cons.prems(1) by (auto simp: hist_record dest!: in_set_takeD)
  ultimately have IH: "map f (hist (fold record_entry is (record_entry i s))) =
      take (cap s) (rev (map g is) @ map f (take (cap s) (entry i (hist s) # hist s)))"
    "\<forall>e \<in> set (hist (fold record_entry is (record_entry i s))). P e"
    using Cons.IH[of "record_entry i s"] by (simp_all add: cap_record hist_record)
  have "take (cap s) (xs @ take (cap s) ys) = take (cap s) (xs @ ys)" for xs ys :: "'f list" by simp
  with IH assms(1)[OF Cons.prems(1), of i] show ?case by (simp flip: take_map)
qed simp

lemma newest: "0 < cap s \<Longrightarrow> hd (hist (record_entry i s)) = entry i (hist s)"
  by (simp add: hist_record)

lemma older_kept: "j < length (hist s) \<Longrightarrow> Suc j < cap s \<Longrightarrow> hist (record_entry i s) ! Suc j = hist s ! j"
  by (simp add: hist_record)

end

section \<open>Handing out a history\<close>

definition recent :: "'j jsonlib \<Rightarrow> double \<Rightarrow> 'j \<Rightarrow> bool res" where
  "recent J since e =
     (if j_member J e ''timestamp''
      then bindR (j_asDouble J (j_get J e ''timestamp'')) (\<lambda>t. Inr (dle since t))
      else Inr False)"

definition add_text :: "'j jsonlib \<Rightarrow> double \<Rightarrow> 'j \<Rightarrow> string \<times> bool \<Rightarrow> (string \<times> bool) res" where
  "add_text J since e = (\<lambda>(ss, splitted).
     bindR (recent J since e) (\<lambda>b.
     Inr (if b then (ss @ (if splitted then [] else '','' @ [newline]) @ j_write J e, False)
          else (ss, splitted))))"

definition history_text :: "'j jsonlib \<Rightarrow> double \<Rightarrow> 'j list \<Rightarrow> string res" where
  "history_text J since v =
     bindR (foldR (add_text J since) (rev v) (''['' @ [newline], True)) (\<lambda>(ss, _).
     Inr (ss @ [newline] @ '']'' @ [newline]))"

definition history_append :: "'j jsonlib \<Rightarrow> double \<Rightarrow> 'j list \<Rightarrow> 'j \<Rightarrow> 'j res" where
  "history_append J since v out =
     foldR (\<lambda>e out. bindR (recent J since e) (\<lambda>b. Inr (if b then j_append J out e else out))) (rev v) out"

text \<open>An entry whose timestamp is the given number, as every entry of the agent is.\<close>

definition stamp :: "'j jsonlib \<Rightarrow> 'j \<Rightarrow> double" where
  "stamp J e = (case j_asDouble J (j_get J e ''timestamp'') of Inr t \<Rightarrow> t | Inl _ \<Rightarrow> NaN)"

definition stamped :: "'j jsonlib \<Rightarrow> 'j \<Rightarrow> bool" where
  "stamped J e \<longleftrightarrow> j_isObject J e \<and> j_member J e ''timestamp'' \<and>
     (\<exists>t. j_asDouble J (j_get J e ''timestamp'') = Inr t)"

lemma recent_stamped: "stamped J e \<Longrightarrow> recent J since e = Inr (dle since (stamp J e))"
  by (auto simp: stamped_def recent_def stamp_def)

lemma add_text_stamped:
  "stamped J e \<Longrightarrow> add_text J since e (ss, splitted) =
     Inr (if dle since (stamp J e) then (ss @ (if splitted then [] else '','' @ [newline]) @ j_write J e, False)
          else (ss, splitted))"
  by (simp add: add_text_def recent_stamped)

lemma sep_by_Cons: "sep_by s (x # xs) = x @ concat (map (\<lambda>y. s @ y) xs)"
  by (induction xs arbitrary: x) auto

lemma foldR_add_text_rest:
  "\<forall>e \<in> set es. stamped J e \<Longrightarrow>
   foldR (add_text J since) es (ss, False) =
     Inr (ss @ concat (map (\<lambda>e. '','' @ [newline] @ j_write J e) (filter (\<lambda>e. dle since (stamp J e)) es)), False)"
  by (induction es arbitrary: ss) (simp_all add: add_text_stamped)

lemma foldR_add_text:
  "\<forall>e \<in> set es. stamped J e \<Longrightarrow>
   \<exists>b. foldR (add_text J since) es (ss, True) =
     Inr (ss @ sep_by ('','' @ [newline]) (map (j_write J) (filter (\<lambda>e. dle since (stamp J e)) es)), b)"
proof (induction es arbitrary: ss)
  case (Cons e es)
  then have st: "stamped J e" "\<forall>x \<in> set es. stamped J x" by simp_all
  show ?case
  proof (cases "dle since (stamp J e)")
    case True
    then show ?thesis
      using foldR_add_text_rest[OF st(2)] by (auto simp: add_text_stamped[OF st(1)] sep_by_Cons comp_def)
  next
    case False
    then show ?thesis using Cons.IH[OF st(2)] by (simp add: add_text_stamped[OF st(1)])
  qed
qed auto

lemma history_text_eq:
  assumes "\<forall>e \<in> set v. stamped J e"
  shows "history_text J since v =
    Inr (''['' @ [newline] @ sep_by ('','' @ [newline]) (map (j_write J) (filter (\<lambda>e. dle since (stamp J e)) (rev v)))
         @ [newline] @ '']'' @ [newline])"
proof -
  obtain b where "foldR (add_text J since) (rev v) (''['' @ [newline], True) =
      Inr ((''['' @ [newline]) @ sep_by ('','' @ [newline]) (map (j_write J) (filter (\<lambda>e. dle since (stamp J e)) (rev v))), b)"
    using foldR_add_text[of "rev v" J since "''['' @ [newline]"] assms by auto
  then show ?thesis by (simp add: history_text_def)
qed

lemma history_append_eq:
  assumes "\<forall>e \<in> set v. stamped J e"
  shows "history_append J since v out =
    Inr (fold (\<lambda>e out. j_append J out e) (filter (\<lambda>e. dle since (stamp J e)) (rev v)) out)"
proof -
  have "\<forall>e \<in> set es. stamped J e \<Longrightarrow>
      foldR (\<lambda>e out. bindR (recent J since e) (\<lambda>b. Inr (if b then j_append J out e else out))) es out =
      Inr (fold (\<lambda>e out. j_append J out e) (filter (\<lambda>e. dle since (stamp J e)) es) out)" for es out
    by (induction es arbitrary: out) (simp_all add: recent_stamped)
  then show ?thesis using assms by (simp add: history_append_def)
qed

end
