(* ===== verification/Ressources.thy ===== *)
theory Ressources
  imports History
begin

text \<open>
  The measures of a collector (\<^verbatim>\<open>Ressource\<close>, \<^verbatim>\<open>tickRessource\<close>, \<^verbatim>\<open>pidRessource\<close> of src/collectors.cpp and
  include/collectors.h) and the agent's own object counters. A collector holds all of them behind
  pointers to \<^verbatim>\<open>Ressource\<close> and casts back to the subclass; the subclass and its data is the field
  \<open>rkind\<close>, and an operation of a subclass on another one is undefined. The clock is an argument.
\<close>

section \<open>Object counters\<close>

record counter =
  cadd :: u32
  cdel :: u32

type_synonym counters = "(string, counter) smap"

definition counter_of :: "counters \<Rightarrow> string \<Rightarrow> counter" where
  "counter_of cs n = (case map_of cs n of Some c \<Rightarrow> c | None \<Rightarrow> \<lparr>cadd = 0, cdel = 0\<rparr>)"

definition count_add :: "string \<Rightarrow> u32 \<Rightarrow> counters \<Rightarrow> counters" where
  "count_add n k cs = mput n ((counter_of cs n)\<lparr>cadd := cadd (counter_of cs n) + k\<rparr>) cs"

definition count_del :: "string \<Rightarrow> u32 \<Rightarrow> counters \<Rightarrow> counters" where
  "count_del n k cs = mput n ((counter_of cs n)\<lparr>cdel := cdel (counter_of cs n) + k\<rparr>) cs"

definition live_count :: "counters \<Rightarrow> string \<Rightarrow> u32" where
  "live_count cs n = cadd (counter_of cs n) - cdel (counter_of cs n)"

lemma counter_of_mput: "counter_of (mput k c cs) n = (if n = k then c else counter_of cs n)"
  by (simp add: counter_of_def)

lemma live_count_add [simp]: "live_count (count_add n k cs) m = live_count cs m + (if m = n then k else 0)"
  by (simp add: live_count_def count_add_def counter_of_mput)

lemma live_count_del [simp]: "live_count (count_del n k cs) m = live_count cs m - (if m = n then k else 0)"
  by (simp add: live_count_def count_del_def counter_of_mput)

section \<open>Measures\<close>

datatype rkind =
    RPlain
  | RTick "(string, u32) smap" u32
  | RPid "(string, (u64, u64) smap) smap" double
  | RCpu "(string, u32) smap"

record 'j ressource =
  typeName :: string
  rv :: "'j list"
  rd :: "(string, string) smap"
  rt :: "(string, string) smap"
  rsize :: u32
  rkind :: rkind

definition new_ressource :: "rkind \<Rightarrow> u32 \<Rightarrow> string \<Rightarrow> counters \<Rightarrow> 'j ressource \<times> counters" where
  "new_ressource k p_size p_typeName cs =
     (\<lparr>typeName = p_typeName, rv = [], rd = [], rt = [], rsize = p_size, rkind = k\<rparr>, count_add ''ressource'' 1 cs)"

definition drop_ressource :: "'j ressource \<Rightarrow> counters \<Rightarrow> counters" where
  "drop_ressource r cs = count_del ''ressource'' 1 cs"

definition getValue :: "'j jsonlib \<Rightarrow> 'j ressource \<Rightarrow> string \<Rightarrow> 'j ressource \<times> 'j" where
  "getValue J r p_name =
     (case rv r of
        [] \<Rightarrow> (r, j_int J 0)
      | e # es \<Rightarrow> (r\<lparr>rv := j_set J e p_name (j_get J e p_name) # es\<rparr>, j_get J e p_name))"

definition next_entry :: "'j jsonlib \<Rightarrow> double \<Rightarrow> 'j list \<Rightarrow> 'j" where
  "next_entry J now v = j_set J (case v of [] \<Rightarrow> j_object J | e # _ \<Rightarrow> e) ''timestamp'' (j_double J now)"

definition nextValue :: "'j jsonlib \<Rightarrow> double \<Rightarrow> 'j ressource \<times> counters \<Rightarrow> 'j ressource \<times> counters" where
  "nextValue J now = (\<lambda>(r, cs).
     let v = next_entry J now (rv r) # rv r; cs1 = count_add ''values_count'' 1 cs in
     if unat (rsize r) < length v
     then (r\<lparr>rv := take (unat (rsize r)) v\<rparr>, count_del ''values_count'' (of_nat (length v - unat (rsize r))) cs1)
     else (r\<lparr>rv := v\<rparr>, cs1))"

definition haveProperty :: "'j jsonlib \<Rightarrow> 'j ressource \<Rightarrow> string \<Rightarrow> bool res" where
  "haveProperty J r p_name = bindR (vec_at (rv r) 0) (\<lambda>e. Inr (j_member J e p_name))"

definition setProperty :: "'j jsonlib \<Rightarrow> string \<Rightarrow> 'j \<Rightarrow> 'j ressource \<Rightarrow> 'j ressource res" where
  "setProperty J p_name p_val r =
     bindR (vec_at (rv r) 0) (\<lambda>e. Inr (r\<lparr>rv := (rv r)[0 := j_set J e p_name p_val]\<rparr>))"

definition addProperty :: "string \<Rightarrow> string \<Rightarrow> string \<Rightarrow> 'j ressource \<Rightarrow> 'j ressource" where
  "addProperty p_name p_desc p_typename r =
     r\<lparr>rd := mput p_name p_desc (rd r), rt := mput p_name p_typename (rt r)\<rparr>"

definition getHistory :: "'j jsonlib \<Rightarrow> 'j ressource \<Rightarrow> double \<Rightarrow> string res" where
  "getHistory J r since = history_text J since (rv r)"

definition getHistory_json :: "'j jsonlib \<Rightarrow> 'j ressource \<Rightarrow> double \<Rightarrow> 'j \<Rightarrow> 'j res" where
  "getHistory_json J r since out = history_append J since (rv r) out"

fun quoted_list :: "string list \<Rightarrow> string \<Rightarrow> string" where
  "quoted_list [] sep = []"
| "quoted_list (x # xs) sep = sep @ [CHR 0x27] @ x @ [CHR 0x27] @ quoted_list xs '',''"

definition getMorrisDesc :: "'j ressource \<Rightarrow> string" where
  "getMorrisDesc r =
     ''ykeys: ['' @ quoted_list (map fst (rd r)) [] @ ''], '' @ ''labels: ['' @ quoted_list (map snd (rd r)) [] @ '']''"

definition getDefinition :: "'j jsonlib \<Rightarrow> 'j ressource \<Rightarrow> 'j \<Rightarrow> 'j" where
  "getDefinition J r p_defs =
     fold (\<lambda>(k, ds) p.
        j_put J [Key ''properties'', Key k, Key ''description''] (j_string J ds)
          (j_put J [Key ''properties'', Key k, Key ''type'']
             (j_string J (case map_of (rt r) k of Some ty \<Rightarrow> ty | None \<Rightarrow> [])) p)) (rd r)
      (j_put J [Key ''properties'', Key ''timestamp'', Key ''format''] (j_string J ''double'')
      (j_put J [Key ''properties'', Key ''timestamp'', Key ''type''] (j_string J ''number'')
      (j_put J [Key ''properties'', Key ''timestamp'', Key ''description''] (j_string J ''timestamp'')
      (j_put J [Key ''required'', Idx 0] (j_string J ''timestamp'')
      (j_put J [Key ''type''] (j_string J ''object'') p_defs)))))"

section \<open>Rates: tickRessource\<close>

definition setTickValue :: "'j jsonlib \<Rightarrow> string \<Rightarrow> u32 \<Rightarrow> 'j ressource \<Rightarrow> 'j ressource res" where
  "setTickValue J p_name p_value r =
     (case rkind r of
        RTick old freq \<Rightarrow>
          bindR (case map_of old p_name of
                   Some o_value \<Rightarrow>
                     if freq = 0 then Inl Undefined
                     else setProperty J p_name (j_uint J (unat ((p_value - o_value) div freq))) r
                 | None \<Rightarrow> setProperty J p_name (j_int J 0) r) (\<lambda>r'.
          Inr (r'\<lparr>rkind := RTick (mput p_name p_value old) freq\<rparr>))
      | _ \<Rightarrow> Inl Undefined)"

section \<open>Sums over processes: pidRessource\<close>

definition pid_nextValue :: "'j jsonlib \<Rightarrow> double \<Rightarrow> 'j ressource \<times> counters \<Rightarrow> ('j ressource \<times> counters) res" where
  "pid_nextValue J now = (\<lambda>(r, cs).
     case rkind r of
       RPid values _ \<Rightarrow>
         (let (r1, cs1) = (if values = [] then (r, cs) else nextValue J now (r, cs)) in
          bindR (foldR (\<lambda>k r. setProperty J k (j_double J (Fin 0)) r) (map fst values) r1) (\<lambda>r2.
          Inr (r2, cs1)))
     | _ \<Rightarrow> Inl Undefined)"

definition setFactor :: "double \<Rightarrow> 'j ressource \<Rightarrow> 'j ressource res" where
  "setFactor p_factor r = (case rkind r of RPid values _ \<Rightarrow> Inr (r\<lparr>rkind := RPid values p_factor\<rparr>) | _ \<Rightarrow> Inl Undefined)"

definition pid_row :: "(string, (u64, u64) smap) smap \<Rightarrow> string \<Rightarrow> (u64, u64) smap" where
  "pid_row values p_name = (case map_of values p_name of Some m \<Rightarrow> m | None \<Rightarrow> [])"

definition setPidValue :: "'j jsonlib \<Rightarrow> string \<Rightarrow> u64 \<Rightarrow> u64 \<Rightarrow> 'j ressource \<Rightarrow> 'j ressource res" where
  "setPidValue J p_name p_pid p_value r =
     (case rkind r of
        RPid values factor \<Rightarrow>
          bindR (case map_of (pid_row values p_name) p_pid of
                   Some o_value \<Rightarrow>
                     if o_value < p_value then
                       bindR (vec_at (rv r) 0) (\<lambda>e.
                       bindR (j_asDouble J (j_get J e p_name)) (\<lambda>x.
                       setProperty J p_name
                         (j_double J (dadd x (dmul factor (of_nat_d (unat (p_value - o_value)))))) r))
                     else Inr r
                 | None \<Rightarrow> Inr r) (\<lambda>r'.
          Inr (r'\<lparr>rkind := RPid (mput p_name (mput p_pid p_value (pid_row values p_name)) values) factor\<rparr>))
      | _ \<Rightarrow> Inl Undefined)"

section \<open>The history of a measure\<close>

definition res_ok :: "'j jsonlib \<Rightarrow> 'j ressource \<Rightarrow> bool" where
  "res_ok J r \<longleftrightarrow> length (rv r) \<le> unat (rsize r) \<and> (\<forall>e \<in> set (rv r). stamped J e)"

interpretation nv: bounded_history "\<lambda>s. rv (fst s)" "\<lambda>s. unat (rsize (fst s))" "nextValue J" "next_entry J"
  for J :: "'j jsonlib"
  by unfold_locales (auto simp: nextValue_def Let_def)

context json_laws
begin

lemma stamped_set_other: "stamped J e \<Longrightarrow> k \<noteq> ''timestamp'' \<Longrightarrow> stamped J (j_set J e k x)"
  by (simp add: stamped_def obj_set member_set get_set)

lemma stamped_next_entry:
  assumes "\<forall>e \<in> set v. stamped J e"
  shows "stamped J (next_entry J now v)" "stamp J (next_entry J now v) = now"
proof -
  have "j_isObject J (case v of [] \<Rightarrow> j_object J | e # _ \<Rightarrow> e)"
    using assms obj_object by (cases v) (simp_all add: stamped_def)
  then show "stamped J (next_entry J now v)" "stamp J (next_entry J now v) = now"
    by (simp_all add: next_entry_def stamped_def stamp_def obj_set member_set get_set as_double)
qed

lemma nextValue_ok: "res_ok J r \<Longrightarrow> res_ok J (fst (nextValue J now (r, cs)))"
  using nv.hist_record[of J now "(r, cs)"] stamped_next_entry(1)[of "rv r"] nv.cap_record[of J now "(r, cs)"]
  by (auto simp: res_ok_def dest!: in_set_takeD)

lemma nextValues_ok: "res_ok J (fst s) \<Longrightarrow> res_ok J (fst (fold (nextValue J) ts s))"
proof (induction ts arbitrary: s)
  case (Cons t ts)
  then have "res_ok J (fst (nextValue J t s))" using nextValue_ok[of "fst s" t "snd s"] by simp
  from Cons.IH[OF this] show ?case by simp
qed simp

lemma setProperty_ok:
  assumes "res_ok J r" "k \<noteq> ''timestamp''" "setProperty J k x r = Inr r'"
  shows "res_ok J r'"
proof -
  obtain e es where "rv r = e # es" and r': "r' = r\<lparr>rv := j_set J e k x # es\<rparr>"
    using assms(3) by (cases "rv r") (auto simp: setProperty_def)
  with assms(1,2) show ?thesis by (auto simp: res_ok_def stamped_set_other)
qed

end

lemma nextValue_rsize: "rsize (fst (fold (nextValue J) ts s)) = rsize (fst s)"
  by (induction ts arbitrary: s) (auto simp: nextValue_def Let_def split: prod.split)

text \<open>
  A measure keeps a sliding window: after any number of readings it holds the newest ones with the
  times they were taken at, newest first and then the older ones, at most as many as its size, and
  its well-formedness is kept.
\<close>

theorem nextValue_window:
  assumes "json_laws J" "res_ok J r" "fold (nextValue J) ts (r, cs) = (r', cs')"
  shows "map (stamp J) (rv r') = take (unat (rsize r)) (rev ts @ map (stamp J) (rv r)) \<and>
    length (rv r') = min (unat (rsize r)) (length (rv r) + length ts) \<and> res_ok J r'"
proof -
  have ok: "length (rv (fst (r, cs))) \<le> unat (rsize (fst (r, cs)))" "\<forall>e \<in> set (rv (fst (r, cs))). stamped J e"
    using assms(2) by (simp_all add: res_ok_def)
  have e: "stamped J (next_entry J now v) \<and> stamp J (next_entry J now v) = now"
    if "\<forall>e \<in> set v. stamped J e" for now v
    using json_laws.stamped_next_entry[OF assms(1) that] by simp
  from nv.map_run[where P = "stamped J" and f = "stamp J" and g = "\<lambda>t. t" and J = J and ?is = ts, OF e ok(2,1)]
    nv.length_run[OF ok(1), where J = J and ?is = ts] show ?thesis
    using json_laws.nextValues_ok[OF assms(1), of "(r, cs)" ts] assms(2,3) by simp
qed

theorem nextValue_window_witness:
  "let s = fold (nextValue ref_json) [Fin 1, Fin 2, Fin 3] (new_ressource RPlain 2 ''t'' []) in
   map (stamp ref_json) (rv (fst s)) = [Fin 3, Fin 2]"
  using nextValue_window[OF ref.json_laws_axioms, of "fst (new_ressource RPlain 2 ''t'' [])" "[Fin 1, Fin 2, Fin 3]"
      "snd (new_ressource RPlain 2 ''t'' [])"
      "fst (fold (nextValue ref_json) [Fin 1, Fin 2, Fin 3] (new_ressource RPlain 2 ''t'' []))"
      "snd (fold (nextValue ref_json) [Fin 1, Fin 2, Fin 3] (new_ressource RPlain 2 ''t'' []))"]
  by (simp add: res_ok_def new_ressource_def Let_def)

text \<open>
  The history a client asks for is exactly the entries taken at or after the given time, oldest
  first, separated by a comma and a line break between brackets.
\<close>

theorem getHistory_since:
  assumes "res_ok J r"
  shows "getHistory J r since =
    Inr (''['' @ [newline] @
         sep_by ('','' @ [newline]) (map (j_write J) (filter (\<lambda>e. dle since (stamp J e)) (rev (rv r)))) @
         [newline] @ '']'' @ [newline])"
  using assms by (simp add: getHistory_def res_ok_def history_text_eq)

theorem getHistory_since_witness:
  "getHistory ref_json \<lparr>typeName = ''t'', rv = [JObj [(''timestamp'', JDbl (Fin 5))], JObj [(''timestamp'', JDbl (Fin 3))]],
      rd = [], rt = [], rsize = 2, rkind = RPlain\<rparr> (Fin 4) =
   Inr (''['' @ [newline] @ jv_write (JObj [(''timestamp'', JDbl (Fin 5))]) @ [newline] @ '']'' @ [newline])"
  using getHistory_since[of ref_json "\<lparr>typeName = ''t'', rv = [JObj [(''timestamp'', JDbl (Fin 5))], JObj [(''timestamp'', JDbl (Fin 3))]],
      rd = [], rt = [], rsize = 2, rkind = RPlain\<rparr>" "Fin 4"]
  by (simp add: res_ok_def stamped_def stamp_def mhas_def)

text \<open>
  The agent's counter of values in memory moves with the histories: a reading changes it by the
  change of the length of the history.
\<close>

theorem values_count_exact:
  assumes "nextValue J now (r, cs) = (r', cs')"
  shows "live_count cs' ''values_count'' - live_count cs ''values_count'' = of_nat (length (rv r')) - of_nat (length (rv r))"
proof (cases "unat (rsize r) < Suc (length (rv r))")
  case True
  then have "of_nat (Suc (length (rv r)) - unat (rsize r)) = (of_nat (Suc (length (rv r))) - rsize r :: u32)"
    by (simp add: of_nat_diff)
  moreover have "of_nat (min (Suc (length (rv r))) (unat (rsize r))) = rsize r" using True by (simp add: min_def)
  ultimately show ?thesis using assms True by (auto simp: nextValue_def Let_def)
qed (use assms in \<open>auto simp: nextValue_def Let_def\<close>)

theorem values_count_exact_witness:
  "live_count (snd (nextValue ref_json (Fin 1) (new_ressource RPlain 2 ''t'' []))) ''values_count'' = 1"
  using values_count_exact[of ref_json "Fin 1" "fst (new_ressource RPlain 2 ''t'' [])" "snd (new_ressource RPlain 2 ''t'' [])"
    "fst (nextValue ref_json (Fin 1) (new_ressource RPlain 2 ''t'' []))" "snd (nextValue ref_json (Fin 1) (new_ressource RPlain 2 ''t'' []))"]
  by (simp add: new_ressource_def nextValue_def live_count_def count_add_def counter_of_def)

section \<open>Rates\<close>

lemma setProperty_Cons:
  "rv r = e # es \<Longrightarrow> setProperty J k x r = Inr (r\<lparr>rv := j_set J e k x # es\<rparr>)"
  by (simp add: setProperty_def)

lemma setTickValue_known:
  assumes "rkind r = RTick old freq" "freq \<noteq> 0" "rv r = e # es" "map_of old k = Some o_value"
  shows "setTickValue J k x r = Inr (r\<lparr>rv := j_set J e k (j_uint J (unat ((x - o_value) div freq))) # es,
                                      rkind := RTick (mput k x old) freq\<rparr>)"
  using assms by (simp add: setTickValue_def setProperty_Cons)

lemma setTickValue_first:
  assumes "rkind r = RTick old freq" "rv r = e # es" "map_of old k = None"
  shows "setTickValue J k x r = Inr (r\<lparr>rv := j_set J e k (j_int J 0) # es, rkind := RTick (mput k x old) freq\<rparr>)"
  using assms by (simp add: setTickValue_def setProperty_Cons)

lemma word_diff_of_nat: "a \<le> b \<Longrightarrow> b - a < 2 ^ 32 \<Longrightarrow> unat (of_nat b - of_nat a :: u32) = b - a"
proof -
  assume "a \<le> b" "b - a < 2 ^ 32"
  then have "(of_nat b - of_nat a :: u32) = of_nat (b - a)" by (simp add: of_nat_diff)
  with \<open>b - a < 2 ^ 32\<close> show ?thesis by (simp add: unat_of_nat take_bit_nat_eq_self)
qed

text \<open>
  C33: a rate is right also when the kernel's counter passed the 32 bits the agent keeps of it between
  two readings: a counter that went from \<open>a\<close> to \<open>b\<close> is reported as the whole part of
  \<open>(b - a) / freq\<close>.
\<close>

theorem setTickValue_rate:
  assumes "json_laws J" "rkind r = RTick old freq" "freq \<noteq> 0" "rv r = e # es" "j_isObject J e"
    and "map_of old k = Some (of_nat a)" "a \<le> b" "b - a < 2 ^ 32"
  shows "\<exists>r'. setTickValue J k (of_nat b) r = Inr r' \<and>
    (\<exists>n. j_get J (hd (rv r')) k = j_uint J n \<and> n = (b - a) div unat freq) \<and>
    rkind r' = RTick (mput k (of_nat b) old) freq \<and> tl (rv r') = es"
proof -
  have "unat ((of_nat b - of_nat a :: u32) div freq) = (b - a) div unat freq"
    using word_diff_of_nat[OF assms(7,8)] by (simp add: unat_div)
  then show ?thesis
    using setTickValue_known[OF assms(2-4,6), of J "of_nat b"] json_laws.get_set[OF assms(1,5)] by simp
qed

theorem setTickValue_rate_witness:
  "\<exists>r'. setTickValue ref_json ''rx'' (of_nat 4294967301) \<lparr>typeName = ''t'', rv = [JObj []], rd = [], rt = [], rsize = 2,
      rkind = RTick [(''rx'', 4294967291)] 5\<rparr> = Inr r' \<and>
     j_get ref_json (hd (rv r')) ''rx'' = j_uint ref_json 2"
  using setTickValue_rate[OF ref.json_laws_axioms, of "\<lparr>typeName = ''t'', rv = [JObj []], rd = [], rt = [], rsize = 2,
      rkind = RTick [(''rx'', 4294967291)] 5\<rparr>" "[(''rx'', 4294967291)]" 5 "JObj []" "[]" "''rx''" 4294967291 4294967301]
  by auto

section \<open>Sums over processes\<close>

lemma setPidValue_known:
  assumes "rkind r = RPid values f" "rv r = e # es" "map_of (pid_row values k) p = Some o_value"
    and "j_asDouble J (j_get J e k) = Inr x" "o_value < y"
  shows "setPidValue J k p y r =
    Inr (r\<lparr>rv := j_set J e k (j_double J (dadd x (dmul f (of_nat_d (unat (y - o_value)))))) # es,
          rkind := RPid (mput k (mput p y (pid_row values k)) values) f\<rparr>)"
  using assms by (simp add: setPidValue_def setProperty_Cons)

lemma setPidValue_quiet:
  assumes "rkind r = RPid values f"
    and "case map_of (pid_row values k) p of None \<Rightarrow> True | Some o_value \<Rightarrow> y \<le> o_value"
  shows "setPidValue J k p y r = Inr (r\<lparr>rkind := RPid (mput k (mput p y (pid_row values k)) values) f\<rparr>)"
  using assms by (auto simp: setPidValue_def not_less split: option.splits)

lemma dround_int: "\<bar>n\<bar> < 2 ^ 53 \<Longrightarrow> dround (of_int n) = Fin (of_int n)"
proof -
  assume n: "\<bar>n\<bar> < 2 ^ 53"
  then have "\<bar>of_int n :: rat\<bar> < of_int (2 ^ 53)" by (metis of_int_abs of_int_less_iff)
  then have "(of_int n :: rat) < 2 ^ 1024" "- (2 ^ 1024) < (of_int n :: rat)"
    by (auto simp: abs_less_iff)
  then show ?thesis using rnd_int[OF n] by (auto simp: dround_def Let_def)
qed

lemma dround_nat: "n < 2 ^ 53 \<Longrightarrow> dround (of_nat n) = Fin (of_nat n)"
  using dround_int[of "int n"] by simp

lemma add_exact:
  assumes "s + d < 2 ^ 53"
  shows "dadd (Fin (of_nat s)) (dmul (Fin 1) (of_nat_d d)) = Fin (of_nat (s + d))"
proof -
  have "dmul (Fin 1) (of_nat_d d) = Fin (of_nat d)"
    using assms dround_nat[of d] by (simp add: dmul_def of_nat_d_def)
  then show ?thesis using dround_nat[OF assms] by simp
qed

text \<open>
  The state of a measure in the middle of a collection: the total so far of one property, and the
  values the processes had at the previous collection.
\<close>

definition pid_total :: "'j jsonlib \<Rightarrow> 'j ressource \<Rightarrow> string \<Rightarrow> (u64 \<Rightarrow> u64) \<Rightarrow> u64 set \<Rightarrow> nat \<Rightarrow> bool" where
  "pid_total J r k old ps s \<longleftrightarrow>
     (\<exists>values e es. rkind r = RPid values (Fin 1) \<and> rv r = e # es \<and> j_isObject J e \<and>
        j_asDouble J (j_get J e k) = Inr (Fin (of_nat s)) \<and>
        (\<forall>p \<in> ps. map_of (pid_row values k) p = Some (old p)))"

lemma pid_row_mput [simp]: "pid_row (mput k m values) k' = (if k' = k then m else pid_row values k')"
  by (simp add: pid_row_def)

lemma pid_total_step:
  assumes "json_laws J" "pid_total J r k old ps s" "p \<in> ps" "old p \<le> y" "s + unat (y - old p) < 2 ^ 53"
  shows "\<exists>r'. setPidValue J k p y r = Inr r' \<and> pid_total J r' k old (ps - {p}) (s + unat (y - old p))"
proof -
  obtain vals e es where r: "rkind r = RPid vals (Fin 1)" "rv r = e # es" "j_isObject J e"
      "j_asDouble J (j_get J e k) = Inr (Fin (of_nat s))" "\<forall>p \<in> ps. map_of (pid_row vals k) p = Some (old p)"
    using assms(2) by (auto simp: pid_total_def)
  show ?thesis
  proof (cases "old p < y")
    case True
    from setPidValue_known[OF r(1,2) r(5)[rule_format, OF assms(3)] r(4) True] show ?thesis
      using r(3,5) assms(1) by (auto simp: pid_total_def add_exact[OF assms(5)]
          json_laws.get_set json_laws.obj_set json_laws.as_double)
  next
    case False
    with assms(4) have "old p = y" by simp
    with setPidValue_quiet[OF r(1), where k = k and p = p and y = y and J = J] r assms(3) show ?thesis by (auto simp: pid_total_def)
  qed
qed

text \<open>
  C14: what a collection adds up over the processes of a service is the sum of the increases of each
  process since the previous collection, as long as the sum is below \<open>2 ^ 53\<close>.
\<close>

theorem setPidValue_sum:
  assumes "json_laws J" "pid_total J r k old (set ps) s" "distinct ps" "\<forall>p \<in> set ps. old p \<le> new p"
    and "s + (\<Sum>p \<leftarrow> ps. unat (new p - old p)) < 2 ^ 53"
  shows "\<exists>r'. foldR (\<lambda>p. setPidValue J k p (new p)) ps r = Inr r' \<and>
    pid_total J r' k old {} (s + (\<Sum>p \<leftarrow> ps. unat (new p - old p)))"
  using assms(2-5)
proof (induction ps arbitrary: r s)
  case (Cons p ps)
  obtain r1 where r1: "setPidValue J k p (new p) r = Inr r1"
      "pid_total J r1 k old (set (p # ps) - {p}) (s + unat (new p - old p))"
    using pid_total_step[OF assms(1) Cons.prems(1), of p "new p"] Cons.prems(3,4) by auto
  moreover have "set (p # ps) - {p} = set ps" using Cons.prems(2) by auto
  ultimately show ?case using Cons.IH[of r1 "s + unat (new p - old p)"] Cons.prems(2-4) by (simp add: add.assoc)
qed simp

theorem setPidValue_sum_witness:
  "\<exists>r'. foldR (\<lambda>p. setPidValue ref_json ''rb'' p (if p = 7 then 30 else 12)) [7, 9]
       \<lparr>typeName = ''t'', rv = [JObj [(''rb'', JDbl (Fin 0))]], rd = [], rt = [], rsize = 2,
        rkind = RPid [(''rb'', [(7, 10), (9, 10)])] (Fin 1)\<rparr> = Inr r' \<and>
     pid_total ref_json r' ''rb'' (\<lambda>_. 10) {} 22"
  using setPidValue_sum[OF ref.json_laws_axioms, of "\<lparr>typeName = ''t'', rv = [JObj [(''rb'', JDbl (Fin 0))]], rd = [], rt = [], rsize = 2,
        rkind = RPid [(''rb'', [(7, 10), (9, 10)])] (Fin 1)\<rparr>" "''rb''" "\<lambda>_. 10" "[7, 9]" 0 "\<lambda>p. if p = 7 then 30 else 12"]
  by (simp add: pid_total_def pid_row_def)

end
