(* ===== verification/Processes.thy ===== *)
theory Processes
  imports CppString
begin

text \<open>
  The \<^verbatim>\<open>process\<close> class of src/services.cpp: a process is known by its PID and read from /proc.
  The operating system is a parameter of the model, the record \<open>os\<close> of what its calls return; one
  operation of the agent sees one such snapshot. \<open>readlink\<close> results are copied into a fixed
  buffer and terminated by a zero byte, so a link that fills the buffer is written past its end.
\<close>

section \<open>The operating system\<close>

record os =
  os_readlink :: "string \<Rightarrow> string option"
  os_readdir :: "string \<Rightarrow> string list option"
  os_stat :: "string \<Rightarrow> bool option"
  os_file :: "string \<Rightarrow> string option"
  os_getpwuid :: "u32 \<Rightarrow> string option"
  os_canonname :: "string option"
  os_getpid :: u32

text \<open>
  \<open>os_stat\<close> is \<open>None\<close> where \<^verbatim>\<open>stat\<close> fails and says otherwise whether the file is a directory;
  \<open>os_readdir\<close> is \<open>None\<close> where \<^verbatim>\<open>opendir\<close> returns a null pointer; \<open>os_file\<close> is the content of a
  file that can be opened; \<open>os_canonname\<close> is the canonical name \<^verbatim>\<open>getaddrinfo\<close> gives for the
  host name.
\<close>

definition file_lines :: "os \<Rightarrow> string \<Rightarrow> string list" where
  "file_lines w f = (case os_file w f of None \<Rightarrow> [] | Some c \<Rightarrow> getlines c)"

text \<open>
  \<^verbatim>\<open>int count = readlink(file, buf, sizeof(buf)); if (count > 0) buf[count] = 0\<close> with a buffer of
  \<open>n\<close> bytes: no result when nothing was read, undefined when the link fills the buffer.
\<close>

definition readlink_buf :: "os \<Rightarrow> nat \<Rightarrow> string \<Rightarrow> string option res" where
  "readlink_buf w n f =
     (case os_readlink w f of
        None \<Rightarrow> Inr None
      | Some l \<Rightarrow> if l = [] then Inr None
                 else if n \<le> length l then Inl Undefined
                 else Inr (Some l))"

definition proc_path :: "u32 \<Rightarrow> string \<Rightarrow> string" where
  "proc_path p rest = ''/proc/'' @ to_string (unat p) @ rest"

section \<open>The process class\<close>

record process =
  pid :: u32
  username :: string
  full_path :: string
  base_name :: string
  cwd :: string
  sockets :: "u32 list"

definition path_base :: "string \<Rightarrow> string res" where
  "path_base path = substr_from path (sz_add (str_rfind path (CHR ''/'')) 1)"

definition strip_deleted :: "string \<Rightarrow> string res" where
  "strip_deleted path =
     (if 9 < length path
      then bindR (substr_from path (length path - 9)) (\<lambda>tl.
        if tl = ''(deleted)'' then substr path 0 (length path - 10) else Inr path)
      else Inr path)"

definition process_of_pid :: "os \<Rightarrow> u32 \<Rightarrow> process res" where
  "process_of_pid w p =
     (let fresh = \<lparr>pid = p, username = [], full_path = [], base_name = [], cwd = [], sockets = []\<rparr> in
      bindR (readlink_buf w 1024 (proc_path p ''/exe'')) (\<lambda>l.
      case l of
        None \<Rightarrow> Inr fresh
      | Some buf \<Rightarrow>
          bindR (strip_deleted buf) (\<lambda>path.
          bindR (path_base path) (\<lambda>base.
          Inr (fresh\<lparr>full_path := path, base_name := base\<rparr>)))))"

definition process_of_path :: "string \<Rightarrow> process res" where
  "process_of_path p_fullpath =
     bindR (path_base p_fullpath) (\<lambda>base.
     Inr \<lparr>pid = 0, username = [], full_path = p_fullpath, base_name = base, cwd = [], sockets = []\<rparr>)"

definition getPPID :: "os \<Rightarrow> process \<Rightarrow> u32 res" where
  "getPPID w p =
     (case file_lines w (proc_path (pid p) ''/stat'') of
        [] \<Rightarrow> Inr 0
      | line # _ \<Rightarrow> bindR (vec_at (tokens line) 3) (\<lambda>t. Inr (atoi t)))"

definition clearSockets :: "process \<Rightarrow> process" where
  "clearSockets p = p\<lparr>sockets := []\<rparr>"

definition proc_haveSocket :: "process \<Rightarrow> u32 \<Rightarrow> bool" where
  "proc_haveSocket p i = list_ex (\<lambda>s. s = i) (sockets p)"

definition is_socket_link :: "string \<Rightarrow> bool" where
  "is_socket_link link = (take 8 link = ''socket:['')"

text \<open>One entry of /proc/[pid]/fd in \<^verbatim>\<open>setSockets\<close>.\<close>

definition add_fd_socket :: "os \<Rightarrow> string \<Rightarrow> process \<Rightarrow> process res" where
  "add_fd_socket w ent p =
     (if take 1 ent = ''.'' then Inr p
      else bindR (readlink_buf w 512 (proc_path (pid p) ''/fd/'' @ ent)) (\<lambda>l.
        case l of
          None \<Rightarrow> Inr p
        | Some link \<Rightarrow>
            if \<not> is_socket_link link then Inr p
            else let s = atoi (drop 8 link) in
              if proc_haveSocket p s then Inr p
              else Inr (p\<lparr>sockets := sockets p @ [s]\<rparr>)))"

definition setSockets :: "os \<Rightarrow> process \<Rightarrow> process res" where
  "setSockets w p =
     (case os_readdir w (proc_path (pid p) ''/fd/'') of
        None \<Rightarrow> Inr p
      | Some ents \<Rightarrow> foldR (add_fd_socket w) ents (clearSockets p))"

text \<open>One entry of /proc/[pid]/fd in \<^verbatim>\<open>getOpenLogs\<close>: the open files with ``log'' in their path.\<close>

definition add_open_log :: "os \<Rightarrow> process \<Rightarrow> string \<Rightarrow> string list \<Rightarrow> string list res" where
  "add_open_log w p ent acc =
     (if take 1 ent = ''.'' then Inr acc
      else bindR (readlink_buf w 512 (proc_path (pid p) ''/fd/'' @ ent)) (\<lambda>l.
        case l of
          None \<Rightarrow> Inr acc
        | Some link \<Rightarrow>
            if take 5 link = ''/dev/'' then Inr acc
            else if str_find link ''log'' 0 = npos then Inr acc
            else if os_stat w link = None then Inr acc
            else Inr (acc @ [link])))"

definition getOpenLogs :: "os \<Rightarrow> process \<Rightarrow> string list res" where
  "getOpenLogs w p =
     (case os_readdir w (proc_path (pid p) ''/fd/'') of
        None \<Rightarrow> Inr []
      | Some ents \<Rightarrow> foldR (add_open_log w p) ents [])"

definition proc_getStatus :: "os \<Rightarrow> process \<Rightarrow> bool" where
  "proc_getStatus w p = (os_stat w (proc_path (pid p) []) \<noteq> None)"

text \<open>The scan of /proc/[pid]/status for the line that starts with \<^verbatim>\<open>Uid:\<close>.\<close>

fun find_uid :: "string list \<Rightarrow> u32 option res" where
  "find_uid [] = Inr None"
| "find_uid (line # ls) =
     bindR (vec_at (tokens line) 0) (\<lambda>t0.
     if t0 = ''Uid:'' then bindR (vec_at (tokens line) 1) (\<lambda>t1. Inr (Some (atoi t1)))
     else find_uid ls)"

definition getUsername :: "os \<Rightarrow> process \<Rightarrow> (process \<times> string) res" where
  "getUsername w p =
     (if username p \<noteq> [] \<or> \<not> proc_getStatus w p then Inr (p, username p)
      else bindR (find_uid (file_lines w (proc_path (pid p) ''/status''))) (\<lambda>u.
        case u of
          None \<Rightarrow> Inr (p, username p)
        | Some uid \<Rightarrow>
            (case os_getpwuid w uid of
               None \<Rightarrow> Inr (p, to_string (unat uid))
             | Some nm \<Rightarrow> Inr (p\<lparr>username := nm\<rparr>, nm))))"

definition getCWD :: "os \<Rightarrow> process \<Rightarrow> (process \<times> string) res" where
  "getCWD w p =
     (if cwd p \<noteq> [] \<or> \<not> proc_getStatus w p then Inr (p, cwd p)
      else bindR (readlink_buf w 1024 (proc_path (pid p) ''/cwd'')) (\<lambda>l.
        case l of
          None \<Rightarrow> Inr (p, cwd p)
        | Some d \<Rightarrow> Inr (p\<lparr>cwd := d\<rparr>, d)))"

section \<open>Names and paths\<close>

lemma path_base_split:
  assumes "path = d @ CHR ''/'' # b" "CHR ''/'' \<notin> set b" "fits path"
  shows "path_base path = Inr b"
proof -
  have "str_rfind path (CHR ''/'') = length d" using assms(1,2) by simp
  with substr_after[OF assms(1,3)] show ?thesis by (simp only: path_base_def)
qed

lemma path_base_no_slash:
  assumes "CHR ''/'' \<notin> set path" "fits path"
  shows "path_base path = Inr path"
proof -
  have "sz_add (str_rfind path (CHR ''/'')) 1 = 0"
    using sz_add_npos[of 1] assms(1) by (simp add: str_rfind_none)
  with assms(2) show ?thesis by (simp add: path_base_def substr_from_Inr del: substr_Inr)
qed

lemma path_base_total:
  assumes "fits path"
  obtains d b where "path_base path = Inr b" "path = d @ b" "CHR ''/'' \<notin> set b"
proof (cases "CHR ''/'' \<in> set path")
  case True
  then obtain d b where "path = d @ CHR ''/'' # b" "CHR ''/'' \<notin> set b"
    by (meson split_list_last)
  with path_base_split[of path d b] assms that[of b "d @ ''/''"] show ?thesis by simp
next
  case False
  with path_base_no_slash[OF False] assms that[of path "[]"] show ?thesis by simp
qed

lemma strip_deleted_marked: "strip_deleted (q @ '' (deleted)'') = Inr q"
  by (simp add: strip_deleted_def npos_def)

lemma strip_deleted_plain:
  assumes "\<not> (\<exists>r. q = r @ ''(deleted)'')" "fits q"
  shows "strip_deleted q = Inr q"
proof (cases "9 < length q")
  case True
  have "drop (length q - 9) q \<noteq> ''(deleted)''"
    using assms(1) append_take_drop_id[of "length q - 9" q] by metis
  with True assms(2) show ?thesis
    by (simp add: strip_deleted_def substr_from_Inr del: substr_Inr)
qed (simp add: strip_deleted_def)

text \<open>
  A process found in /proc is named after the file its \<^verbatim>\<open>exe\<close> link points to, also when the
  file was replaced and the kernel marks the link as deleted; the base name is what follows the
  last slash.
\<close>

theorem process_exe_path:
  assumes "os_readlink w (proc_path i ''/exe'') = Some (q @ mark)" "q \<noteq> []" "length (q @ mark) < 1024"
    and "mark = '' (deleted)'' \<or> (mark = [] \<and> \<not> (\<exists>r. q = r @ ''(deleted)''))"
  shows "\<exists>p. process_of_pid w i = Inr p \<and> pid p = i \<and> full_path p = q \<and>
           CHR ''/'' \<notin> set (base_name p) \<and> (\<exists>d. q = d @ base_name p)"
proof -
  have "fits q" using assms(3) by simp
  then obtain d b where b: "path_base q = Inr b" "q = d @ b" "CHR ''/'' \<notin> set b"
    by (rule path_base_total)
  have "strip_deleted (q @ mark) = Inr q"
    using assms(4) \<open>fits q\<close> strip_deleted_marked strip_deleted_plain[of q] by auto
  moreover have "readlink_buf w 1024 (proc_path i ''/exe'') = Inr (Some (q @ mark))"
    using assms(1-3) by (simp add: readlink_buf_def)
  ultimately show ?thesis using b by (auto simp: process_of_pid_def)
qed

text \<open>A machine on which every call fails; the witnesses set what they need of it.\<close>

definition bare_os :: os where
  "bare_os = \<lparr>os_readlink = (\<lambda>_. None), os_readdir = (\<lambda>_. None), os_stat = (\<lambda>_. None),
     os_file = (\<lambda>_. None), os_getpwuid = (\<lambda>_. None), os_canonname = None, os_getpid = 1\<rparr>"

lemma proc_path_42: "proc_path 42 r = ''/proc/42'' @ r"
  by (simp add: proc_path_def show_nat.simps digit_char_def)

theorem process_exe_path_witness:
  "\<exists>p. process_of_pid (bare_os\<lparr>os_readlink := \<lambda>f. if f = proc_path 42 ''/exe''
          then Some ''/usr/sbin/nginx (deleted)'' else None\<rparr>) 42 = Inr p \<and>
     full_path p = ''/usr/sbin/nginx''"
  using process_exe_path[of "bare_os\<lparr>os_readlink := \<lambda>f. if f = proc_path 42 ''/exe''
      then Some ''/usr/sbin/nginx (deleted)'' else None\<rparr>" 42 "''/usr/sbin/nginx''" "'' (deleted)''"]
  by auto

section \<open>Sockets of a process\<close>

text \<open>The inode that an entry of /proc/[pid]/fd refers to, when it is a socket.\<close>

definition fd_inode :: "os \<Rightarrow> u32 \<Rightarrow> string \<Rightarrow> u32 option" where
  "fd_inode w i ent =
     (if take 1 ent = ''.'' then None
      else case os_readlink w (proc_path i ''/fd/'' @ ent) of
        Some l \<Rightarrow> if is_socket_link l then Some (atoi (drop 8 l)) else None
      | None \<Rightarrow> None)"

definition fd_inodes :: "os \<Rightarrow> u32 \<Rightarrow> string list \<Rightarrow> u32 set" where
  "fd_inodes w i ents = {s. \<exists>e \<in> set ents. fd_inode w i e = Some s}"

lemma fd_inodes_Cons:
  "fd_inodes w i (e # es) = set_option (fd_inode w i e) \<union> fd_inodes w i es"
  by (auto simp: fd_inodes_def)

lemma readlink_buf_Some [res_simps]:
  "readlink_buf w n f = Inr (Some l) \<longleftrightarrow> os_readlink w f = Some l \<and> l \<noteq> [] \<and> length l < n"
  by (auto simp: readlink_buf_def split: option.splits)

lemma readlink_buf_None [res_simps]:
  "readlink_buf w n f = Inr None \<longleftrightarrow> os_readlink w f = None \<or> os_readlink w f = Some []"
  by (auto simp: readlink_buf_def split: option.splits)

lemma add_fd_socket_eq:
  assumes "add_fd_socket w e p = Inr p'"
  shows "p' = (case fd_inode w (pid p) e of
      None \<Rightarrow> p
    | Some s \<Rightarrow> if s \<in> set (sockets p) then p else p\<lparr>sockets := sockets p @ [s]\<rparr>)"
proof (cases "take 1 e = ''.''")
  case True
  with assms show ?thesis by (simp add: add_fd_socket_def fd_inode_def)
next
  case False
  let ?f = "proc_path (pid p) ''/fd/'' @ e"
  obtain r where r: "readlink_buf w 512 ?f = Inr r"
    using assms False by (auto simp: add_fd_socket_def bindR_Inr_iff)
  show ?thesis
  proof (cases r)
    case None
    then have "fd_inode w (pid p) e = None"
      using r by (auto simp: fd_inode_def readlink_buf_None is_socket_link_def)
    with None r False assms show ?thesis by (simp add: add_fd_socket_def)
  next
    case (Some l)
    then have l: "os_readlink w ?f = Some l" using r by (simp add: readlink_buf_Some)
    with False r Some assms show ?thesis
      by (auto simp: add_fd_socket_def fd_inode_def proc_haveSocket_def list_ex_iff Let_def split: if_splits)
  qed
qed

lemma add_fd_socket_step:
  assumes "add_fd_socket w e p = Inr p'"
  shows "pid p' = pid p" "set (sockets p') = set (sockets p) \<union> set_option (fd_inode w (pid p) e)"
    "distinct (sockets p) \<Longrightarrow> distinct (sockets p')"
  using add_fd_socket_eq[OF assms] by (auto split: option.splits)

lemma add_fd_sockets:
  assumes "foldR (add_fd_socket w) ents p = Inr p'"
  shows "pid p' = pid p \<and> set (sockets p') = set (sockets p) \<union> fd_inodes w (pid p) ents
     \<and> (distinct (sockets p) \<longrightarrow> distinct (sockets p'))"
  using assms
proof (induction ents arbitrary: p)
  case Nil
  then show ?case by (simp add: fd_inodes_def)
next
  case (Cons e es)
  then obtain q where q: "add_fd_socket w e p = Inr q" "foldR (add_fd_socket w) es q = Inr p'"
    by (auto simp: bindR_Inr_iff)
  from Cons.IH[OF q(2)] add_fd_socket_step[OF q(1)] show ?case
    by (auto simp: fd_inodes_Cons)
qed

lemma setSockets_pid: "setSockets w p = Inr p' \<Longrightarrow> pid p' = pid p"
  by (auto simp: setSockets_def clearSockets_def split: option.splits dest!: add_fd_sockets)

lemma readlink_buf_total:
  "(\<And>l. os_readlink w f = Some l \<Longrightarrow> length l < n) \<Longrightarrow> \<exists>r. readlink_buf w n f = Inr r"
  by (cases "os_readlink w f") (simp_all add: readlink_buf_def leD)

text \<open>The scan returns whenever every link is shorter than its 512-byte buffer.\<close>

lemma add_fd_socket_total:
  assumes "readlink_buf w 512 (proc_path (pid q) ''/fd/'' @ e) = Inr r"
  shows "\<exists>q'. add_fd_socket w e q = Inr q'"
  unfolding add_fd_socket_def assms Let_def by (simp split: option.split)

lemma setSockets_total:
  assumes "\<And>f l. os_readlink w f = Some l \<Longrightarrow> length l < 512"
  shows "\<exists>p'. setSockets w p = Inr p'"
proof -
  have "\<exists>q'. add_fd_socket w e q = Inr q'" for e q
    using readlink_buf_total[of w _ 512] assms add_fd_socket_total by metis
  then show ?thesis
    using foldR_total[of _ "add_fd_socket w"] by (auto simp: setSockets_def split: option.splits)
qed

text \<open>
  When every link fits its 512-byte buffer \<open>setSockets\<close> returns, and the socket list of the
  process then holds exactly the inodes its file descriptors refer to, each once: what it held
  before is forgotten.
\<close>

theorem setSockets_exact:
  assumes "os_readdir w (proc_path (pid p) ''/fd/'') = Some ents"
    and "\<forall>f l. os_readlink w f = Some l \<longrightarrow> length l < 512"
  shows "\<exists>p'. setSockets w p = Inr p' \<and> pid p' = pid p \<and>
           set (sockets p') = fd_inodes w (pid p) ents \<and> distinct (sockets p')"
proof -
  obtain p' where p': "setSockets w p = Inr p'" using setSockets_total assms(2) by blast
  then have "foldR (add_fd_socket w) ents (clearSockets p) = Inr p'"
    using assms(1) by (simp add: setSockets_def)
  from add_fd_sockets[OF this] p' show ?thesis by (simp add: clearSockets_def)
qed

theorem setSockets_exact_witness:
  "let w = bare_os\<lparr>os_readdir := \<lambda>_. Some [''.'', ''..'', ''3'', ''4''],
                   os_readlink := \<lambda>_. Some ''socket:[42]''\<rparr>;
       p = \<lparr>pid = 42, username = [], full_path = [], base_name = [], cwd = [], sockets = [7]\<rparr>
   in \<exists>p'. setSockets w p = Inr p' \<and> set (sockets p') = fd_inodes w 42 [''.'', ''..'', ''3'', ''4'']"
  using setSockets_exact[of "bare_os\<lparr>os_readdir := \<lambda>_. Some [''.'', ''..'', ''3'', ''4''],
                   os_readlink := \<lambda>_. Some ''socket:[42]''\<rparr>"
      "\<lparr>pid = 42, username = [], full_path = [], base_name = [], cwd = [], sockets = [7]\<rparr>"
      "[''.'', ''..'', ''3'', ''4'']"]
  unfolding Let_def by auto

section \<open>The parent process\<close>

lemma getlines_line: "newline \<notin> set l \<Longrightarrow> l \<noteq> [] \<Longrightarrow> getlines (l @ newline # rest) = l # getlines rest"
proof -
  assume a: "newline \<notin> set l" "l \<noteq> []"
  have "takeWhile (\<lambda>x. x \<noteq> newline) (l @ newline # rest) = l"
    "dropWhile (\<lambda>x. x \<noteq> newline) (l @ newline # rest) = newline # rest"
    using a(1) by (subst takeWhile_append2 dropWhile_append2; fastforce)+
  then show ?thesis
    using a(2) by (subst getlines.simps) (auto split: list.split)
qed

text \<open>
  The line the kernel writes into /proc/[pid]/stat: the PID, the command name in parentheses,
  the state letter, the parent's PID, and more fields.
\<close>

definition proc_stat_line :: "u32 \<Rightarrow> string \<Rightarrow> char \<Rightarrow> u32 \<Rightarrow> string \<Rightarrow> string" where
  "proc_stat_line i comm st pp rest =
     to_string (unat i) @ '' ('' @ comm @ '') '' @ [st] @ '' '' @ to_string (unat pp) @ '' '' @ rest"

lemma show_nat_no_space: "2 \<le> b \<Longrightarrow> b \<le> 36 \<Longrightarrow> \<forall>c \<in> set (show_nat b n). \<not> is_space c"
  using show_nat_all_digits digit_not_space by blast

lemma to_string_token: "tokens (to_string n @ CHR '' '' # rest) = to_string n # tokens rest"
  using show_nat_no_space[of 10 n] by (intro tokens_word_sp) auto

lemma getPPID_line:
  assumes "os_file w (proc_path (pid p) ''/stat'') = Some (line @ newline # rest)"
    and "newline \<notin> set line" "line \<noteq> []"
  shows "getPPID w p = bindR (vec_at (tokens line) 3) (\<lambda>t. Inr (atoi t))"
  using assms by (simp add: getPPID_def file_lines_def getlines_line)

lemma show_nat_no_newline: "newline \<notin> set (to_string n)"
  using show_nat_no_space[of 10 n] by (auto simp: is_space_def)

lemma paren_word: "\<forall>c \<in> set w. \<not> is_space c \<Longrightarrow> \<forall>c \<in> set (CHR ''('' # w @ [CHR '')'']). \<not> is_space c"
  by (auto simp: is_space_def)

text \<open>
  For a process whose command name has no white space, \<open>getPPID\<close> returns the parent's PID that
  /proc/[pid]/stat shows.
\<close>

theorem getPPID_correct:
  assumes "os_file w (proc_path (pid p) ''/stat'') = Some (proc_stat_line (pid p) comm st pp rest @ newline # later)"
    and "\<forall>c \<in> set comm. \<not> is_space c" "\<not> is_space st" "newline \<notin> set rest"
  shows "getPPID w p = Inr pp"
proof -
  let ?l = "proc_stat_line (pid p) comm st pp rest"
  have "newline \<notin> set comm" using assms(2) by (auto simp: is_space_def)
  then have nl: "newline \<notin> set ?l" "?l \<noteq> []"
    using assms(3,4) by (auto simp: proc_stat_line_def show_nat_no_newline is_space_def)
  have "tokens ?l = to_string (unat (pid p)) # tokens ((CHR ''('' # comm @ [CHR '')'']) @ CHR '' '' #
      [st] @ CHR '' '' # to_string (unat pp) @ CHR '' '' # rest)"
    using to_string_token[of "unat (pid p)"] by (simp add: proc_stat_line_def)
  also have "\<dots> = [to_string (unat (pid p)), CHR ''('' # comm @ [CHR '')''], [st], to_string (unat pp)] @ tokens rest"
    using paren_word[OF assms(2)] assms(3) tokens_word_sp[of "[st]"]
    by (subst tokens_word_sp) (auto simp: to_string_token simp del: append_Cons)
  finally have "vec_at (tokens ?l) 3 = Inr (to_string (unat pp))" by simp
  then show ?thesis
    using getPPID_line[OF assms(1) nl] u32_bound[of pp] by (simp add: atoi_to_string)
qed

theorem getPPID_correct_witness:
  "getPPID (bare_os\<lparr>os_file := \<lambda>_. Some (proc_stat_line 42 ''cron'' (CHR ''S'') 1 ''42 42'' @ [newline])\<rparr>)
     \<lparr>pid = 42, username = [], full_path = [], base_name = [], cwd = [], sockets = []\<rparr> = Inr 1"
  by (rule getPPID_correct[where comm = "''cron''" and st = "CHR ''S''" and rest = "''42 42''" and later = "[]"])
     (simp_all add: is_space_def)

text \<open>
  A command name with a space in it shifts the fields: for a name of two words the field taken
  for the parent is the state letter, and \<open>getPPID\<close> returns 0 whatever the parent is.
\<close>

theorem getPPID_space_in_name:
  assumes "os_file w (proc_path (pid p) ''/stat'') =
      Some (proc_stat_line (pid p) (a @ CHR '' '' # b) (CHR ''S'') pp rest @ newline # later)"
    and "\<forall>c \<in> set (a @ b). \<not> is_space c" "newline \<notin> set rest"
  shows "getPPID w p = Inr 0"
proof -
  let ?l = "proc_stat_line (pid p) (a @ CHR '' '' # b) (CHR ''S'') pp rest"
  have "is_space newline" by (simp add: is_space_def)
  with assms(2) have "newline \<notin> set (a @ b)" by blast
  then have nl: "newline \<notin> set ?l" "?l \<noteq> []"
    using assms(3) by (auto simp: proc_stat_line_def show_nat_no_newline)
  have w: "\<forall>c \<in> set (CHR ''('' # a). \<not> is_space c" "\<forall>c \<in> set (b @ '')''). \<not> is_space c"
    using assms(2) by (auto simp: is_space_def)
  have l: "?l = to_string (unat (pid p)) @ CHR '' '' # (CHR ''('' # a) @ CHR '' '' # (b @ '')'') @ CHR '' '' #
      ''S'' @ CHR '' '' # to_string (unat pp) @ CHR '' '' # rest"
    by (simp add: proc_stat_line_def)
  have "tokens ?l = [to_string (unat (pid p)), CHR ''('' # a, b @ '')'', ''S''] @
      tokens (to_string (unat pp) @ CHR '' '' # rest)"
    using tokens_word_sp[OF _ w(1)] tokens_word_sp[OF _ w(2)] tokens_word_sp[of "''S''"]
    unfolding l by (subst to_string_token) (simp add: is_space_def del: append_Cons)
  then have "vec_at (tokens ?l) 3 = Inr ''S''" by simp
  then show ?thesis
    using getPPID_line[OF assms(1) nl]
    by (simp add: atoi_def strtol10_def scan_sign_def skip_0x_def is_space_def digit_val_def digit_of_def)
qed

theorem getPPID_space_in_name_witness:
  "getPPID (bare_os\<lparr>os_file := \<lambda>_. Some (proc_stat_line 42 (''tmux:'' @ CHR '' '' # ''server'') (CHR ''S'') 7 ''42'' @ [newline])\<rparr>)
     \<lparr>pid = 42, username = [], full_path = [], base_name = [], cwd = [], sockets = []\<rparr> = Inr 0"
  by (rule getPPID_space_in_name[where a = "''tmux:''" and b = "''server''" and pp = 7 and rest = "''42''" and later = "[]"])
     (simp_all add: is_space_def)

end
