(* ===== verification/Collectors.thy ===== *)
theory Collectors
  imports Ressources Processes
begin

text \<open>
  The base class \<^verbatim>\<open>Collector\<close> of src/collectors.cpp, the JSON part of its HTTP handlers, the response
  texts, the system's \<^verbatim>\<open>CollectorsManager\<close> and the agent's own \<^verbatim>\<open>SelfCollector\<close>. A collector is held
  through a shared pointer; the model keeps it by value, since each one belongs to one manager or
  service. What its weak pointer to a service gives is an argument (the service's identifier, when
  it still lives). The HTML pages are not modelled.
\<close>

section \<open>Responses\<close>

abbreviation crlf :: string where
  "crlf \<equiv> [CHR 0x0D, CHR 0x0A]"

definition setResponse404 :: "string \<Rightarrow> string" where
  "setResponse404 content =
     ''HTTP/1.1 404 Not found'' @ crlf @ ''Server: watched.agent'' @ crlf @
     ''Content-Length: '' @ to_string (length content) @ crlf @ crlf @ content"

definition setResponseHtml :: "string \<Rightarrow> string" where
  "setResponseHtml content =
     ''HTTP/1.1 200 OK'' @ crlf @ ''Server: watched.agent'' @ crlf @
     ''Content-Type:text/html; charset=UTF-8'' @ crlf @
     ''Content-Length: '' @ to_string (length content) @ crlf @ crlf @ content"

definition setResponseJson :: "string \<Rightarrow> string" where
  "setResponseJson content =
     ''HTTP/1.1 200 OK'' @ crlf @ ''Server: watched.agent'' @ crlf @
     ''Content-Type:application/json'' @ crlf @ ''Access-Control-Allow-Origin:*'' @ crlf @
     ''Content-Length: '' @ to_string (length content) @ crlf @ crlf @ content"

type_synonym query_args = "(string \<times> string) list"

text \<open>The loop over the query arguments that the history handlers share: the last \<^verbatim>\<open>since\<close> counts.\<close>

definition since_arg :: "query_args \<Rightarrow> double res" where
  "since_arg args = foldR (\<lambda>(k, v) s. if k = ''since'' then stod v else Inr s) args (Fin (- 1))"

section \<open>The collector\<close>

record 'j collector =
  c_cfg :: 'j
  c_morrisType :: string
  c_morrisOpts :: string
  c_name :: string
  c_basePath :: string
  c_host :: string
  c_haveService :: bool
  c_active :: bool
  c_ressources :: "(string, 'j ressource) smap"
  c_desc :: "(string, string) smap"
  c_routes :: "(string \<times> string) list"

text \<open>\<open>c_routes\<close> lists the HTTP method and regular expression of the routes registered for it.\<close>

definition setService :: "string \<Rightarrow> 'j collector \<Rightarrow> 'j collector" where
  "setService serv_id c = c\<lparr>c_haveService := True, c_basePath := ''/service/'' @ serv_id @ ''/''\<rparr>"

definition new_collector ::
  "'j jsonlib \<Rightarrow> string \<Rightarrow> 'j \<Rightarrow> u32 \<Rightarrow> u32 \<Rightarrow> string option \<Rightarrow> counters \<Rightarrow> 'j collector \<times> counters" where
  "new_collector J p_name p_cfg p_history p_freq_pool p_serv cs =
     (let c = \<lparr>c_cfg = plugin_defaults J p_history p_freq_pool p_cfg, c_morrisType = ''Line'',
               c_morrisOpts = ''behaveLikeLine:true,'', c_name = p_name, c_basePath = ''/system/'', c_host = [],
               c_haveService = False, c_active = False, c_ressources = [], c_desc = [], c_routes = []\<rparr>
      in ((case p_serv of None \<Rightarrow> c | Some i \<Rightarrow> setService i c), count_add ''collector'' 1 cs))"

definition col_startThread :: "'j jsonlib \<Rightarrow> 'j collector \<Rightarrow> 'j collector res" where
  "col_startThread J c =
     (if c_active c then Inr c
      else bindR (j_asBool J (j_get J (c_cfg c) ''enable'')) (\<lambda>en.
        Inr (if en then c\<lparr>c_active := True\<rparr> else c)))"

definition addRessource ::
  "'j jsonlib \<Rightarrow> string \<Rightarrow> string \<Rightarrow> string \<Rightarrow> 'j collector \<times> counters \<Rightarrow> ('j collector \<times> counters) res" where
  "addRessource J p_name p_desc p_typeName = (\<lambda>(c, cs).
     if mhas (c_ressources c) p_name then Inr (c, cs)
     else bindR (j_asUInt J (j_get J (c_cfg c) ''history'')) (\<lambda>h.
       let (r, cs') = new_ressource RPlain h p_typeName cs in
       Inr (c\<lparr>c_ressources := mput p_name r (c_ressources c), c_desc := mput p_name p_desc (c_desc c)\<rparr>, cs')))"

definition addGetMetricRoute :: "'j collector \<Rightarrow> 'j collector" where
  "addGetMetricRoute c =
     c\<lparr>c_routes := c_routes c @
       [(''GET'', ''^'' @ c_basePath c @ c_name c @ ''/(.*)/history$''),
        (''GET'', ''^'' @ c_basePath c @ c_name c @ ''/(.*)/history.since=([0-9.]*)$''),
        (''GET'', ''^'' @ c_basePath c @ c_name c @ ''/(.*)/graph$'')]\<rparr>"

definition add_definition :: "'j jsonlib \<Rightarrow> 'j \<Rightarrow> 'j ressource \<Rightarrow> 'j \<Rightarrow> 'j" where
  "add_definition J data r p_defs =
     (let p = (if j_member J p_defs (typeName r) then p_defs else j_set J p_defs (typeName r) data)
      in j_set J p (typeName r) (getDefinition J r (j_get J p (typeName r))))"

definition getDefinitions :: "'j jsonlib \<Rightarrow> 'j collector \<Rightarrow> 'j \<Rightarrow> 'j res" where
  "getDefinitions J c p_defs =
     (let data = (if c_haveService c then j_set J (j_object J) ''x-isService'' (j_bool J True) else j_object J) in
      bindR (j_asBool J (j_get J (c_cfg c) ''enable'')) (\<lambda>en.
      Inr (if en then fold (\<lambda>(k, r). add_definition J data r) (c_ressources c) p_defs else p_defs)))"

text \<open>
  \<^verbatim>\<open>getHost\<close> looks the name up once and keeps it. When the lookup fails it passes the uninitialised
  result pointer to \<^verbatim>\<open>freeaddrinfo\<close>.
\<close>

definition getHost :: "os \<Rightarrow> 'j collector \<Rightarrow> ('j collector \<times> string) res" where
  "getHost w c =
     (if c_host c \<noteq> [] then Inr (c, c_host c)
      else case os_canonname w of
        None \<Rightarrow> Inl Undefined
      | Some nm \<Rightarrow> Inr (c\<lparr>c_host := nm\<rparr>, nm))"

definition desc_of :: "'j collector \<Rightarrow> string \<Rightarrow> string" where
  "desc_of c k = (case map_of (c_desc c) k of Some d \<Rightarrow> d | None \<Rightarrow> [])"

definition metric_path :: "'j collector \<Rightarrow> string \<Rightarrow> string" where
  "metric_path c k = c_basePath c @ c_name c @ ''/'' @ k @ ''/history''"

definition add_path ::
  "'j jsonlib \<Rightarrow> os \<Rightarrow> string option \<Rightarrow> string \<times> 'j ressource \<Rightarrow> 'j collector \<times> 'j \<Rightarrow> ('j collector \<times> 'j) res" where
  "add_path J w srv = (\<lambda>(k, r) (c, p_defs).
     bindR (getHost w c) (\<lambda>(c', h).
     let p = Key (metric_path c k);
         par = [p, Key ''get'', Key ''parameters'', Idx 0];
         ok = [p, Key ''get'', Key ''responses'', Key ''200''];
         d = fold (\<lambda>(path, x). j_put J path x)
           ([([p, Key ''x-host''], j_string J h),
             ([p, Key ''get'', Key ''summary''], j_string J (desc_of c k)),
             (par @ [Key ''name''], j_string J ''len''),
             (par @ [Key ''in''], j_string J ''query''),
             (par @ [Key ''type''], j_string J ''integer''),
             (par @ [Key ''required''], j_bool J False),
             (par @ [Key ''description''], j_string J ''Length of the history to fetch''),
             (ok @ [Key ''description''], j_string J (desc_of c k)),
             (ok @ [Key ''schema'', Key ''type''], j_string J ''array''),
             (ok @ [Key ''schema'', Key ''items'', Key ''$ref''], j_string J (''#/definitions/'' @ typeName r))]
            @ (case srv of
                 Some i \<Rightarrow> if c_haveService c then [([p, Key ''x-service''], j_string J i)] else []
               | None \<Rightarrow> [])) p_defs
     in Inr (c', d)))"

definition getPaths :: "'j jsonlib \<Rightarrow> os \<Rightarrow> string option \<Rightarrow> 'j collector \<Rightarrow> 'j \<Rightarrow> ('j collector \<times> 'j) res" where
  "getPaths J w srv c p_defs =
     bindR (j_asBool J (j_get J (c_cfg c) ''enable'')) (\<lambda>en.
     if en then foldR (add_path J w srv) (c_ressources c) (c, p_defs) else Inr (c, p_defs))"

definition getJsonHistory :: "'j jsonlib \<Rightarrow> 'j collector \<Rightarrow> double \<Rightarrow> 'j \<Rightarrow> 'j res" where
  "getJsonHistory J c since p_out =
     foldR (\<lambda>(k, r) p.
       bindR (getHistory_json J r since (j_array J)) (\<lambda>a. Inr (j_set J p k a))) (c_ressources c) p_out"

definition doGetHistory :: "'j jsonlib \<Rightarrow> 'j collector \<Rightarrow> string list \<Rightarrow> query_args \<Rightarrow> string res" where
  "doGetHistory J c request args =
     bindR (vec_at request 0) (\<lambda>nm.
     bindR (since_arg args) (\<lambda>since.
     case map_of (c_ressources c) nm of
       None \<Rightarrow> Inr (setResponse404 ''No such Metric'')
     | Some r \<Rightarrow> bindR (getHistory J r since) (\<lambda>s. Inr (setResponseJson s))))"

section \<open>Collecting: an operation on one named measure\<close>

text \<open>
  A subclass's \<^verbatim>\<open>collect\<close> dereferences \<^verbatim>\<open>ressources[k]\<close>: a missing key gives a null pointer, which is
  undefined to use.
\<close>

definition on_ressource ::
  "string \<Rightarrow> ('j ressource \<times> counters \<Rightarrow> ('j ressource \<times> counters) res) \<Rightarrow> 'j collector \<times> counters
     \<Rightarrow> ('j collector \<times> counters) res" where
  "on_ressource k f = (\<lambda>(c, cs).
     case map_of (c_ressources c) k of
       None \<Rightarrow> Inl Undefined
     | Some r \<Rightarrow> bindR (f (r, cs)) (\<lambda>(r', cs'). Inr (c\<lparr>c_ressources := mput k r' (c_ressources c)\<rparr>, cs')))"

definition res_next :: "'j jsonlib \<Rightarrow> double \<Rightarrow> 'j ressource \<times> counters \<Rightarrow> ('j ressource \<times> counters) res" where
  "res_next J now s = Inr (nextValue J now s)"

definition res_set :: "'j jsonlib \<Rightarrow> string \<Rightarrow> 'j \<Rightarrow> 'j ressource \<times> counters \<Rightarrow> ('j ressource \<times> counters) res" where
  "res_set J k x = (\<lambda>(r, cs). bindR (setProperty J k x r) (\<lambda>r'. Inr (r', cs)))"

definition res_tick :: "'j jsonlib \<Rightarrow> string \<Rightarrow> u32 \<Rightarrow> 'j ressource \<times> counters \<Rightarrow> ('j ressource \<times> counters) res" where
  "res_tick J k x = (\<lambda>(r, cs). bindR (setTickValue J k x r) (\<lambda>r'. Inr (r', cs)))"

definition res_prop :: "string \<Rightarrow> string \<Rightarrow> string \<Rightarrow> 'j ressource \<times> counters \<Rightarrow> ('j ressource \<times> counters) res" where
  "res_prop k ds ty = (\<lambda>(r, cs). Inr (addProperty k ds ty r, cs))"

definition res_pid :: "'j jsonlib \<Rightarrow> string \<Rightarrow> u64 \<Rightarrow> u64 \<Rightarrow> 'j ressource \<times> counters \<Rightarrow> ('j ressource \<times> counters) res" where
  "res_pid J k i x = (\<lambda>(r, cs). bindR (setPidValue J k i x r) (\<lambda>r'. Inr (r', cs)))"

definition with_route :: "'j collector \<times> counters \<Rightarrow> ('j collector \<times> counters) res" where
  "with_route = (\<lambda>(c, cs). Inr (addGetMetricRoute c, cs))"

definition cfg_history :: "'j jsonlib \<Rightarrow> 'j collector \<Rightarrow> u32 res" where
  "cfg_history J c = j_asUInt J (j_get J (c_cfg c) ''history'')"

definition cfg_poll :: "'j jsonlib \<Rightarrow> 'j collector \<Rightarrow> u32 res" where
  "cfg_poll J c = j_asUInt J (j_get J (c_cfg c) ''poll-frequency'')"

text \<open>\<^verbatim>\<open>ressources[k] = std::make_shared<...>(...); desc[k] = ...\<close>\<close>

definition put_ressource :: "string \<Rightarrow> 'j ressource \<Rightarrow> string \<Rightarrow> 'j collector \<times> counters \<Rightarrow> 'j collector \<times> counters" where
  "put_ressource k r ds = (\<lambda>(c, cs).
     (c\<lparr>c_ressources := mput k r (c_ressources c), c_desc := mput k ds (c_desc c)\<rparr>,
      case map_of (c_ressources c) k of None \<Rightarrow> cs | Some old \<Rightarrow> drop_ressource old cs))"

text \<open>The same with a new tick measure, and with a measure of given properties.\<close>

definition props :: "(string \<times> string \<times> string) list \<Rightarrow> 'j ressource \<Rightarrow> 'j ressource" where
  "props ps r = fold (\<lambda>(k, ds, ty). addProperty k ds ty) ps r"

definition new_tick ::
  "'j jsonlib \<Rightarrow> string \<Rightarrow> string \<Rightarrow> string \<Rightarrow> (string \<times> string \<times> string) list \<Rightarrow> 'j collector \<times> counters
     \<Rightarrow> ('j collector \<times> counters) res" where
  "new_tick J k ds ty ps = (\<lambda>(c, cs).
     bindR (cfg_history J c) (\<lambda>h.
     bindR (cfg_poll J c) (\<lambda>f.
     let (r, cs') = new_ressource (RTick [] f) h ty cs in Inr (put_ressource k (props ps r) ds (c, cs')))))"

section \<open>The agent's own collector\<close>

definition new_SelfCollector ::
  "'j jsonlib \<Rightarrow> 'j \<Rightarrow> string \<Rightarrow> counters \<Rightarrow> ('j collector \<times> counters) res" where
  "new_SelfCollector J p_cfg serv_id cs0 =
     (let (c, cs1) = new_collector J ''self'' p_cfg 150 10 (Some serv_id) cs0 in
      bindR (j_asUInt J (j_get J (c_cfg c) ''history'')) (\<lambda>h.
      bindR (j_asUInt J (j_get J (c_cfg c) ''poll-frequency'')) (\<lambda>f.
      let (r, cs2) = new_ressource (RTick [] f) h ''watched_agent_count'' cs1 in
      bindR (addRessource J ''values'' ''Current objects count'' ''watched_agent_values''
               (put_ressource ''changes'' r ''Internal changes'' (c, cs2))) (\<lambda>(c3, cs3).
      foldR (\<lambda>n s.
        bindR (on_ressource ''values'' (res_prop n (n @ '' current count'') ''number'') s) (\<lambda>s1.
        bindR (on_ressource ''changes'' (res_prop (n @ ''_del'') (n @ '' deleted'') ''number'') s1) (\<lambda>s2.
        on_ressource ''changes'' (res_prop (n @ ''_add'') (n @ '' added'') ''number'') s2))) (map fst cs3) (c3, cs3)))))"

definition Self_collect :: "'j jsonlib \<Rightarrow> double \<Rightarrow> double \<Rightarrow> 'j collector \<times> counters \<Rightarrow> ('j collector \<times> counters) res" where
  "Self_collect J now1 now2 s0 =
     bindR (on_ressource ''values'' (res_next J now1) s0) (\<lambda>s1.
     bindR (on_ressource ''changes'' (res_next J now2) s1) (\<lambda>s2.
     foldR (\<lambda>(n, k) s.
       bindR (on_ressource ''values'' (res_set J n (j_uint J (unat (cadd k - cdel k)))) s) (\<lambda>s3.
       bindR (on_ressource ''changes'' (res_tick J (n @ ''_del'') (cdel k)) s3) (\<lambda>s4.
       on_ressource ''changes'' (res_tick J (n @ ''_add'') (cadd k)) s4))) (snd s2) s2))"

section \<open>The system's collectors\<close>

type_synonym 'j collectors = "(string, 'j collector) smap"

definition mgr_getJson :: "'j jsonlib \<Rightarrow> os \<Rightarrow> 'j collectors \<Rightarrow> 'j \<Rightarrow> ('j collectors \<times> 'j) res" where
  "mgr_getJson J w cols p_defs =
     foldR (\<lambda>(k, c) (m, p).
       bindR (getDefinitions J c (j_get J p ''definitions'')) (\<lambda>d.
       let p1 = j_set J p ''definitions'' d in
       bindR (getPaths J w None c (j_get J p1 ''paths'')) (\<lambda>(c', ps).
       Inr (mput k c' m, j_set J p1 ''paths'' ps)))) cols (cols, p_defs)"

definition getSystemJson :: "'j jsonlib \<Rightarrow> 'j collectors \<Rightarrow> double \<Rightarrow> 'j \<Rightarrow> 'j res" where
  "getSystemJson J cols since ref =
     foldR (\<lambda>(k, c) r. bindR (getJsonHistory J c since (j_object J)) (\<lambda>h. Inr (j_set J r k h))) cols ref"

definition mgr_startThreads :: "'j jsonlib \<Rightarrow> 'j collectors \<Rightarrow> 'j collectors res" where
  "mgr_startThreads J cols =
     foldR (\<lambda>(k, c) m. bindR (col_startThread J c) (\<lambda>c'. Inr (mput k c' m))) cols cols"

section \<open>What a collection keeps\<close>

text \<open>Every measure of a collector is well formed.\<close>

definition cstate_ok :: "'j jsonlib \<Rightarrow> 'j collector \<times> counters \<Rightarrow> bool" where
  "cstate_ok J s \<longleftrightarrow> (\<forall>k r. map_of (c_ressources (fst s)) k = Some r \<longrightarrow> res_ok J r)"

text \<open>A statement on a collector, and one on a measure, that keeps this.\<close>

definition keeps :: "'j jsonlib \<Rightarrow> ('j collector \<times> counters \<Rightarrow> ('j collector \<times> counters) res) \<Rightarrow> bool" where
  "keeps J f \<longleftrightarrow> (\<forall>s s'. cstate_ok J s \<longrightarrow> f s = Inr s' \<longrightarrow> cstate_ok J s')"

definition rkeeps :: "'j jsonlib \<Rightarrow> ('j ressource \<times> counters \<Rightarrow> ('j ressource \<times> counters) res) \<Rightarrow> bool" where
  "rkeeps J f \<longleftrightarrow> (\<forall>r cs r' cs'. res_ok J r \<longrightarrow> f (r, cs) = Inr (r', cs') \<longrightarrow> res_ok J r')"

lemma keepsI: "(\<And>s s'. cstate_ok J s \<Longrightarrow> f s = Inr s' \<Longrightarrow> cstate_ok J s') \<Longrightarrow> keeps J f"
  unfolding keeps_def by blast

lemma keepsD: "keeps J f \<Longrightarrow> cstate_ok J s \<Longrightarrow> f s = Inr s' \<Longrightarrow> cstate_ok J s'"
  unfolding keeps_def by blast

lemma rkeepsI: "(\<And>r cs r' cs'. res_ok J r \<Longrightarrow> f (r, cs) = Inr (r', cs') \<Longrightarrow> res_ok J r') \<Longrightarrow> rkeeps J f"
  unfolding rkeeps_def by blast

lemma rkeepsD: "rkeeps J f \<Longrightarrow> res_ok J r \<Longrightarrow> f (r, cs) = Inr s' \<Longrightarrow> res_ok J (fst s')"
  unfolding rkeeps_def by (metis prod.collapse)

lemma keeps_Inr [inv_intros]: "keeps J Inr"
  by (rule keepsI) simp

lemma keeps_Inl [inv_intros]: "keeps J (\<lambda>s. Inl e)"
  by (rule keepsI) simp

lemma keeps_if [inv_intros]: "keeps J f \<Longrightarrow> keeps J g \<Longrightarrow> keeps J (\<lambda>s. if P s then f s else g s)"
  by (rule keepsI) (metis keepsD)

lemma keeps_bind [inv_intros]:
  assumes "\<And>x. keeps J (f x)"
  shows "keeps J (\<lambda>s. bindR (m s) (\<lambda>x. f x s))"
proof (rule keepsI)
  fix s s'
  assume s: "cstate_ok J s" "bindR (m s) (\<lambda>x. f x s) = Inr s'"
  then obtain x where "f x s = Inr s'" unfolding bindR_Inr_iff by blast
  then show "cstate_ok J s'" by (rule keepsD[OF assms s(1)])
qed

lemma keeps_option [inv_intros]: "keeps J f \<Longrightarrow> (\<And>x. keeps J (g x)) \<Longrightarrow> keeps J (\<lambda>s. case m of None \<Rightarrow> f s | Some x \<Rightarrow> g x s)"
  by (cases m) simp_all

lemma keeps_comp:
  assumes "keeps J f" "keeps J g"
  shows "keeps J (\<lambda>s. bindR (f s) g)"
proof (rule keepsI)
  fix s s'
  assume s: "cstate_ok J s" "bindR (f s) g = Inr s'"
  then obtain t where t: "f s = Inr t" "g t = Inr s'" unfolding bindR_Inr_iff by blast
  show "cstate_ok J s'" by (rule keepsD[OF assms(2) keepsD[OF assms(1) s(1) t(1)] t(2)])
qed

lemma keeps_foldR [inv_intros]: "(\<And>x. keeps J (f x)) \<Longrightarrow> keeps J (foldR f xs)"
proof (induction xs)
  case (Cons x xs)
  then show ?case using keeps_comp[of J "f x" "foldR f xs"] by simp
qed (simp add: keeps_Inr)

lemma keeps_seq_Nil [inv_intros]: "keeps J (seqR [])"
  by (simp add: keeps_def)

lemma keeps_seq_Cons [inv_intros]: "keeps J f \<Longrightarrow> keeps J (seqR fs) \<Longrightarrow> keeps J (seqR (f # fs))"
proof -
  have "seqR (f # fs) = (\<lambda>s. bindR (f s) (seqR fs))" by (simp add: fun_eq_iff)
  then show "keeps J f \<Longrightarrow> keeps J (seqR fs) \<Longrightarrow> keeps J (seqR (f # fs))" using keeps_comp by metis
qed

lemma cstate_ok_mput:
  "cstate_ok J (c, cs) \<Longrightarrow> res_ok J r \<Longrightarrow> cstate_ok J (c\<lparr>c_ressources := mput k r (c_ressources c)\<rparr>, cs')"
  by (simp add: cstate_ok_def)

lemma keeps_on_ressource [inv_intros]:
  assumes "rkeeps J f"
  shows "keeps J (on_ressource k f)"
proof (rule keepsI)
  fix s s'
  assume s: "cstate_ok J s" "on_ressource k f s = Inr s'"
  obtain c cs where c: "s = (c, cs)" by (cases s)
  show "cstate_ok J s'"
  proof (cases "map_of (c_ressources c) k")
    case None
    then show ?thesis using s(2) by (simp add: on_ressource_def c)
  next
    case (Some r)
    then obtain t where t: "f (r, cs) = Inr t"
        and s': "s' = (c\<lparr>c_ressources := mput k (fst t) (c_ressources c)\<rparr>, snd t)"
      using s(2) by (cases "f (r, cs)") (simp_all add: on_ressource_def c case_prod_unfold)
    have "res_ok J r" using s(1) Some by (simp add: cstate_ok_def c)
    then show ?thesis using cstate_ok_mput[OF s(1)[unfolded c] rkeepsD[OF assms _ t]] s' by simp
  qed
qed

lemma res_ok_new: "res_ok J (fst (new_ressource kd h ty cs))"
  by (simp add: res_ok_def new_ressource_def)

lemma res_ok_addProperty [simp]: "res_ok J (addProperty k ds ty r) = res_ok J r"
  by (simp add: res_ok_def addProperty_def)

lemma res_ok_props [simp]: "res_ok J (props ps r) = res_ok J r"
proof (induction ps arbitrary: r)
  case (Cons p ps)
  then have "res_ok J (props ps (addProperty (fst p) (fst (snd p)) (snd (snd p)) r)) = res_ok J r" by simp
  then show ?case by (simp add: props_def case_prod_unfold)
qed (simp add: props_def)

lemma cstate_ok_counters: "cstate_ok J (c, cs) = cstate_ok J (c, cs')"
  by (simp add: cstate_ok_def)

lemma cstate_ok_put: "cstate_ok J s \<Longrightarrow> res_ok J r \<Longrightarrow> cstate_ok J (put_ressource k r ds s)"
  by (cases s) (simp add: cstate_ok_def put_ressource_def)

lemma keeps_put_new [inv_intros]:
  "keeps J (\<lambda>s. let (r, cs') = new_ressource kd h ty (snd s) in Inr (put_ressource k (props ps r) ds (fst s, cs')))"
proof (rule keepsI)
  fix s s'
  assume s: "cstate_ok J s"
    "(let (r, cs') = new_ressource kd h ty (snd s) in Inr (put_ressource k (props ps r) ds (fst s, cs'))) = Inr s'"
  obtain r :: "'a ressource" and cs' where n: "new_ressource kd h ty (snd s) = (r, cs')" by fastforce
  have "cstate_ok J (fst s, cs')" using s(1) cstate_ok_counters[of J "fst s" "snd s"] by simp
  moreover have "res_ok J (props ps r)" using res_ok_new[of J kd h ty "snd s"] n by simp
  ultimately have "cstate_ok J (put_ressource k (props ps r) ds (fst s, cs'))" by (rule cstate_ok_put)
  then show "cstate_ok J s'" using s(2) n by simp
qed

lemma keeps_new_tick [inv_intros]: "keeps J (new_tick J k ds ty ps)"
proof -
  have "keeps J (\<lambda>s. bindR (cfg_history J (fst s)) (\<lambda>h. bindR (cfg_poll J (fst s)) (\<lambda>f.
      let (r, cs') = new_ressource (RTick [] f) h ty (snd s) in Inr (put_ressource k (props ps r) ds (fst s, cs')))))"
    by (intro inv_intros)
  then show ?thesis by (simp add: new_tick_def case_prod_unfold)
qed

lemma addRessource_put:
  "addRessource J k ds ty (c, cs) =
     (if mhas (c_ressources c) k then Inr (c, cs)
      else bindR (cfg_history J c) (\<lambda>h.
        let (r, cs') = new_ressource RPlain h ty cs in Inr (put_ressource k (props [] r) ds (c, cs'))))"
  by (auto simp: addRessource_def cfg_history_def put_ressource_def props_def intro!: bindR_cong split: prod.split option.split)

lemma keeps_addRessource [inv_intros]: "keeps J (addRessource J k ds ty)"
proof -
  have "keeps J (\<lambda>s. if mhas (c_ressources (fst s)) k then Inr s else bindR (cfg_history J (fst s)) (\<lambda>h.
      let (r, cs') = new_ressource RPlain h ty (snd s) in Inr (put_ressource k (props [] r) ds (fst s, cs'))))"
    by (intro inv_intros)
  moreover have "addRessource J k ds ty s = (if mhas (c_ressources (fst s)) k then Inr s else bindR (cfg_history J (fst s)) (\<lambda>h.
      let (r, cs') = new_ressource RPlain h ty (snd s) in Inr (put_ressource k (props [] r) ds (fst s, cs'))))" for s
    using addRessource_put[of J k ds ty "fst s" "snd s"] by simp
  ultimately show ?thesis by (simp add: keeps_def)
qed

lemma keeps_with_route [inv_intros]: "keeps J with_route"
  by (rule keepsI) (auto simp: with_route_def addGetMetricRoute_def cstate_ok_def)

lemma rkeeps_prop [inv_intros]: "rkeeps J (res_prop k ds ty)"
  by (rule rkeepsI) (auto simp: res_prop_def)

lemma rkeeps_seq_Nil [inv_intros]: "rkeeps J (seqR [])"
  by (simp add: rkeeps_def)

lemma rkeeps_seq_Cons [inv_intros]:
  assumes "rkeeps J f" "rkeeps J (seqR fs)"
  shows "rkeeps J (seqR (f # fs))"
proof (rule rkeepsI)
  fix r cs r' cs'
  assume r: "res_ok J r" "seqR (f # fs) (r, cs) = Inr (r', cs')"
  then obtain t where t: "f (r, cs) = Inr t" "seqR fs t = Inr (r', cs')" unfolding seqR_simps bindR_Inr_iff by blast
  show "res_ok J r'"
    using rkeepsD[OF assms(2) rkeepsD[OF assms(1) r(1) t(1)], of "snd t" "(r', cs')"] t(2) by simp
qed

context json_laws
begin

lemma rkeeps_next [inv_intros]: "rkeeps J (res_next J now)"
proof (rule rkeepsI)
  fix r cs r' cs'
  assume "res_ok J r" "res_next J now (r, cs) = Inr (r', cs')"
  then show "res_ok J r'" using nextValue_ok[of r now cs] by (simp add: res_next_def)
qed

lemma rkeeps_set [inv_intros]: "k \<noteq> ''timestamp'' \<Longrightarrow> rkeeps J (res_set J k x)"
  by (rule rkeepsI) (auto simp: res_set_def bindR_Inr_iff intro: setProperty_ok)

lemma setProperty_double_ok:
  assumes "res_ok J r" "setProperty J k (j_double J d) r = Inr r'"
  shows "res_ok J r'"
proof (cases "k = ''timestamp''")
  case True
  then show ?thesis
    using assms by (cases "rv r") (auto simp: setProperty_def res_ok_def stamped_def obj_set member_set get_set as_double)
qed (rule setProperty_ok[OF assms(1) _ assms(2)])

lemma rkeeps_set_double [inv_intros]: "rkeeps J (res_set J k (j_double J d))"
  by (rule rkeepsI) (auto simp: res_set_def bindR_Inr_iff intro: setProperty_double_ok)

lemma res_ok_rkind [simp]: "res_ok J (r\<lparr>rkind := kd\<rparr>) = res_ok J r"
  by (simp add: res_ok_def)

lemma setTickValue_ok:
  assumes "res_ok J r" "k \<noteq> ''timestamp''" "setTickValue J k x r = Inr r'"
  shows "res_ok J r'"
proof -
  obtain y t kd where "setProperty J k y r = Inr t" "r' = t\<lparr>rkind := kd\<rparr>"
    using assms(3) by (auto simp: setTickValue_def bindR_Inr_iff split: rkind.splits option.splits if_splits)
  then show ?thesis using setProperty_ok[OF assms(1,2)] by auto
qed

lemma rkeeps_tick [inv_intros]: "k \<noteq> ''timestamp'' \<Longrightarrow> rkeeps J (res_tick J k x)"
  by (rule rkeepsI) (auto simp: res_tick_def bindR_Inr_iff intro: setTickValue_ok)

end

end
