(* ===== verification/LogParser.thy ===== *)
theory LogParser
  imports History Processes Ressources
begin

text \<open>
  The \<^verbatim>\<open>logParser\<close> class of src/services.cpp: it polls a log file, keeps the events it finds in a
  bounded history and remembers where it stopped reading. How a line is judged (\<^verbatim>\<open>getLevel\<close>, \<^verbatim>\<open>getDate\<close>)
  is virtual and left to Lua scripts: both are parameters, as is the clock. An operation that can
  throw in the middle returns the state it leaves behind with the exception.
\<close>

section \<open>State and operations\<close>

datatype level = Lvl_ok | Lvl_info | Lvl_notice | Lvl_warning | Lvl_error | Lvl_critical

record 'j logParser =
  lp_cfg :: 'j
  lp_v :: "'j list"
  lp_filename :: string
  lp_pos :: int
  lp_lineNo :: u64
  lp_active :: bool

definition new_logParser :: "'j jsonlib \<Rightarrow> string \<Rightarrow> 'j \<Rightarrow> u32 \<Rightarrow> u32 \<Rightarrow> counters \<Rightarrow> 'j logParser \<times> counters" where
  "new_logParser J p_logfile c p_history p_freq_pool cs =
     (\<lparr>lp_cfg = plugin_defaults J p_history p_freq_pool c, lp_v = [], lp_filename = p_logfile, lp_pos = 0,
       lp_lineNo = 0, lp_active = False\<rparr>, count_add ''logParser'' 1 cs)"

fun level_name :: "level \<Rightarrow> string" where
  "level_name Lvl_notice = ''notice''"
| "level_name Lvl_warning = ''warning''"
| "level_name Lvl_error = ''error''"
| "level_name Lvl_critical = ''critical''"
| "level_name _ = ''info''"

record event =
  ev_now :: double
  ev_date :: string
  ev_line :: u64
  ev_text :: string
  ev_level :: level

definition lp_entry :: "'j jsonlib \<Rightarrow> event \<Rightarrow> 'j list \<Rightarrow> 'j" where
  "lp_entry J ev v =
     j_set J (j_set J (j_set J (j_set J (j_set J (case v of [] \<Rightarrow> j_object J | e # _ \<Rightarrow> e)
       ''timestamp'' (j_double J (ev_now ev)))
       ''date_mark'' (j_string J (ev_date ev)))
       ''line_no'' (j_uint J (unat (ev_line ev))))
       ''text'' (j_string J (ev_text ev)))
       ''level'' (j_string J (level_name (ev_level ev)))"

definition lp_insert :: "'j jsonlib \<Rightarrow> nat \<Rightarrow> event \<Rightarrow> 'j logParser \<Rightarrow> 'j logParser" where
  "lp_insert J history ev s =
     (let v = lp_entry J ev (lp_v s) # lp_v s in
      s\<lparr>lp_v := if history < length v then take history v else v\<rparr>)"

definition parse_line ::
  "'j jsonlib \<Rightarrow> (string \<Rightarrow> level) \<Rightarrow> (string \<Rightarrow> string) \<Rightarrow> (u64 \<Rightarrow> double) \<Rightarrow> string \<Rightarrow> 'j logParser
     \<Rightarrow> 'j logParser \<times> cpp_error option" where
  "parse_line J getLevel getDate clk line s =
     (let n = lp_lineNo s + 1; s1 = s\<lparr>lp_lineNo := n\<rparr> in
      if getLevel line = Lvl_ok then (s1, None)
      else if getDate line = [] then (s1, None)
      else
        let ev = \<lparr>ev_now = clk n, ev_date = getDate line, ev_line = n, ev_text = line, ev_level = getLevel line\<rparr> in
        case j_asUInt J (j_get J (lp_cfg s1) ''history'') of
          Inl e \<Rightarrow> (s1\<lparr>lp_v := lp_entry J ev (lp_v s1) # lp_v s1\<rparr>, Some e)
        | Inr history \<Rightarrow> (lp_insert J (unat history) ev s1, None))"

fun parse_lines ::
  "'j jsonlib \<Rightarrow> (string \<Rightarrow> level) \<Rightarrow> (string \<Rightarrow> string) \<Rightarrow> (u64 \<Rightarrow> double) \<Rightarrow> string list \<Rightarrow> 'j logParser
     \<Rightarrow> 'j logParser \<times> cpp_error option" where
  "parse_lines J getLevel getDate clk [] s = (s, None)"
| "parse_lines J getLevel getDate clk (l # ls) s =
     (case parse_line J getLevel getDate clk l s of
        (s', None) \<Rightarrow> parse_lines J getLevel getDate clk ls s'
      | (s', Some e) \<Rightarrow> (s', Some e))"

text \<open>
  The position of a file stream is an integer, and \<open>-1\<close> is the failure value. Seeking there fails
  and so does every read after it. The loop that reads lines ends when a read fails, and after a
  failed read \<^verbatim>\<open>tellg\<close> returns \<open>-1\<close>.
\<close>

definition lines_from :: "string \<Rightarrow> int \<Rightarrow> string list" where
  "lines_from content p = (if p < 0 then [] else getlines (drop (nat p) content))"

definition tellg_after_loop :: int where
  "tellg_after_loop = - 1"

definition parseLog ::
  "'j jsonlib \<Rightarrow> os \<Rightarrow> (string \<Rightarrow> level) \<Rightarrow> (string \<Rightarrow> string) \<Rightarrow> (u64 \<Rightarrow> double) \<Rightarrow> 'j logParser
     \<Rightarrow> 'j logParser \<times> cpp_error option" where
  "parseLog J w getLevel getDate clk s =
     (case os_file w (lp_filename s) of
        None \<Rightarrow> (s, None)
      | Some content \<Rightarrow>
          let newSize = int (length content) in
          if newSize = lp_pos s then (s, None)
          else
            let s1 = (if newSize < lp_pos s then s\<lparr>lp_pos := 0, lp_lineNo := 0\<rparr> else s) in
            case parse_lines J getLevel getDate clk (lines_from content (lp_pos s1)) s1 of
              (s2, Some e) \<Rightarrow> (s2, Some e)
            | (s2, None) \<Rightarrow> (s2\<lparr>lp_pos := tellg_after_loop\<rparr>, None))"

definition lp_getHistory :: "'j jsonlib \<Rightarrow> 'j logParser \<Rightarrow> double \<Rightarrow> string res" where
  "lp_getHistory J s since = history_text J since (lp_v s)"

definition lp_startThread :: "'j jsonlib \<Rightarrow> 'j logParser \<Rightarrow> 'j logParser res" where
  "lp_startThread J s =
     (if lp_active s then Inr s
      else bindR (j_asBool J (j_get J (lp_cfg s) ''enable'')) (\<lambda>en.
        Inr (if en then s\<lparr>lp_active := True\<rparr> else s)))"

section \<open>The history of events\<close>

interpretation lp: bounded_history lp_v "\<lambda>_. h" "lp_insert J h" "lp_entry J"
  for J :: "'j jsonlib" and h
  by unfold_locales (auto simp: lp_insert_def Let_def)

text \<open>The event that a line gives rise to, if any.\<close>

definition event_of ::
  "(string \<Rightarrow> level) \<Rightarrow> (string \<Rightarrow> string) \<Rightarrow> (u64 \<Rightarrow> double) \<Rightarrow> u64 \<Rightarrow> string \<Rightarrow> event option" where
  "event_of getLevel getDate clk n line =
     (if getLevel line = Lvl_ok \<or> getDate line = [] then None
      else Some \<lparr>ev_now = clk n, ev_date = getDate line, ev_line = n, ev_text = line, ev_level = getLevel line\<rparr>)"

fun events ::
  "(string \<Rightarrow> level) \<Rightarrow> (string \<Rightarrow> string) \<Rightarrow> (u64 \<Rightarrow> double) \<Rightarrow> u64 \<Rightarrow> string list \<Rightarrow> event list" where
  "events getLevel getDate clk n [] = []"
| "events getLevel getDate clk n (l # ls) =
     (case event_of getLevel getDate clk (n + 1) l of None \<Rightarrow> [] | Some ev \<Rightarrow> [ev])
       @ events getLevel getDate clk (n + 1) ls"

lemma lp_insert_keeps [simp]:
  "lp_cfg (lp_insert J h ev s) = lp_cfg s" "lp_lineNo (lp_insert J h ev s) = lp_lineNo s"
  "lp_pos (lp_insert J h ev s) = lp_pos s" "lp_filename (lp_insert J h ev s) = lp_filename s"
  "lp_insert J h ev (s\<lparr>lp_lineNo := n\<rparr>) = (lp_insert J h ev s)\<lparr>lp_lineNo := n\<rparr>"
  "lp_insert J h ev (s\<lparr>lp_pos := i\<rparr>) = (lp_insert J h ev s)\<lparr>lp_pos := i\<rparr>"
  by (simp_all add: lp_insert_def Let_def)

lemma lp_inserts_lineNo:
  "fold (lp_insert J h) evs (s\<lparr>lp_lineNo := n\<rparr>) = (fold (lp_insert J h) evs s)\<lparr>lp_lineNo := n\<rparr>"
  by (induction evs arbitrary: s) simp_all

lemma lp_inserts_keep [simp]:
  "lp_filename (fold (lp_insert J h) evs s) = lp_filename s" "lp_cfg (fold (lp_insert J h) evs s) = lp_cfg s"
  by (induction evs arbitrary: s) simp_all

lemma parse_line_eq:
  assumes "j_asUInt J (j_get J (lp_cfg s) ''history'') = Inr h"
  shows "parse_line J getLevel getDate clk l s =
    ((case event_of getLevel getDate clk (lp_lineNo s + 1) l of
        None \<Rightarrow> s | Some ev \<Rightarrow> lp_insert J (unat h) ev s)\<lparr>lp_lineNo := lp_lineNo s + 1\<rparr>, None)"
  using assms by (simp add: parse_line_def event_of_def Let_def)

text \<open>The loop over the lines inserts the events of the lines, in order, and counts the lines.\<close>

lemma parse_lines_eq:
  assumes "j_asUInt J (j_get J (lp_cfg s) ''history'') = Inr h"
  shows "parse_lines J getLevel getDate clk ls s =
    ((fold (lp_insert J (unat h)) (events getLevel getDate clk (lp_lineNo s) ls) s)
       \<lparr>lp_lineNo := lp_lineNo s + of_nat (length ls)\<rparr>, None)"
  using assms
proof (induction ls arbitrary: s)
  case (Cons l ls)
  let ?ev = "event_of getLevel getDate clk (lp_lineNo s + 1) l"
  let ?s = "(case ?ev of None \<Rightarrow> s | Some ev \<Rightarrow> lp_insert J (unat h) ev s)\<lparr>lp_lineNo := lp_lineNo s + 1\<rparr>"
  have "lp_cfg ?s = lp_cfg s" by (simp split: option.split)
  with Cons.IH[of ?s] Cons.prems show ?case
    by (auto simp: parse_line_eq[OF Cons.prems] lp_inserts_lineNo add.assoc split: option.split)
qed simp

context json_laws
begin

lemma lp_entry_text:
  assumes "\<forall>e \<in> set v. stamped J e"
  shows "stamped J (lp_entry J ev v)" "j_get J (lp_entry J ev v) ''text'' = j_string J (ev_text ev)"
    "j_get J (lp_entry J ev v) ''line_no'' = j_uint J (unat (ev_line ev))"
    "j_get J (lp_entry J ev v) ''level'' = j_string J (level_name (ev_level ev))"
proof -
  have "j_isObject J (case v of [] \<Rightarrow> j_object J | e # _ \<Rightarrow> e)"
    using assms obj_object by (cases v) (simp_all add: stamped_def)
  then show "stamped J (lp_entry J ev v)" "j_get J (lp_entry J ev v) ''text'' = j_string J (ev_text ev)"
    "j_get J (lp_entry J ev v) ''line_no'' = j_uint J (unat (ev_line ev))"
    "j_get J (lp_entry J ev v) ''level'' = j_string J (level_name (ev_level ev))"
    by (simp_all add: lp_entry_def stamped_def obj_set member_set get_set as_double)
qed

end

lemma parse_first_lines:
  assumes "lp_pos s = 0" "lp_lineNo s = 0" "j_asUInt J (j_get J (lp_cfg s) ''history'') = Inr h"
  shows "parse_lines J getLevel getDate clk (lines_from content (lp_pos s)) s =
    ((fold (lp_insert J (unat h)) (events getLevel getDate clk 0 (getlines content)) s)
       \<lparr>lp_lineNo := of_nat (length (getlines content))\<rparr>, None)"
  using parse_lines_eq[OF assms(3)] assms(1,2) by (simp add: lines_from_def)

text \<open>
  C11: one pass over a log that was not read yet keeps one entry per event of its lines, newest first,
  cut to the configured history, each with the text, the line number and the level of its line; it
  counts every line of the file.
\<close>

theorem parseLog_first_pass:
  assumes "json_laws J" "os_file w (lp_filename s) = Some content" "content \<noteq> []"
    and "lp_pos s = 0" "lp_lineNo s = 0" "lp_v s = []" "j_asUInt J (j_get J (lp_cfg s) ''history'') = Inr h"
  shows "\<exists>s'. parseLog J w getLevel getDate clk s = (s', None) \<and>
    map (\<lambda>e. (j_get J e ''text'', j_get J e ''line_no'', j_get J e ''level'')) (lp_v s') =
      take (unat h) (rev (map (\<lambda>ev. (j_string J (ev_text ev), j_uint J (unat (ev_line ev)), j_string J (level_name (ev_level ev))))
        (events getLevel getDate clk 0 (getlines content)))) \<and>
    lp_lineNo s' = of_nat (length (getlines content))"
proof -
  let ?f = "\<lambda>e. (j_get J e ''text'', j_get J e ''line_no'', j_get J e ''level'')"
  have e: "stamped J (lp_entry J ev v) \<and> ?f (lp_entry J ev v) =
      (j_string J (ev_text ev), j_uint J (unat (ev_line ev)), j_string J (level_name (ev_level ev)))"
    if "\<forall>x \<in> set v. stamped J x" for ev v
    using json_laws.lp_entry_text[OF assms(1) that] by simp
  have ok: "\<forall>x \<in> set (lp_v s). stamped J x" "length (lp_v s) \<le> unat h" using assms(6) by simp_all
  from lp.map_run[where P = "stamped J" and f = ?f and J = J and ?is = "events getLevel getDate clk 0 (getlines content)", OF e ok]
  show ?thesis using parse_first_lines[OF assms(4,5,7)] assms(2-4,6) by (simp add: parseLog_def Let_def)
qed

theorem parseLog_first_pass_witness:
  "let s = fst (new_logParser ref_json ''/var/log/a'' (JObj []) 25 60 []);
       s' = fst (parseLog ref_json (bare_os\<lparr>os_file := \<lambda>_. Some (''fail'' @ [newline] @ ''fine'' @ [newline])\<rparr>)
              (\<lambda>l. if l = ''fail'' then Lvl_error else Lvl_ok) (\<lambda>_. ''today'') (\<lambda>_. Fin 1) s)
   in map (\<lambda>e. jv_get e ''text'') (lp_v s') = [JStr ''fail''] \<and> lp_lineNo s' = 2"
proof -
  let ?w = "bare_os\<lparr>os_file := \<lambda>_. Some (''fail'' @ [newline] @ ''fine'' @ [newline])\<rparr>"
  let ?lv = "\<lambda>l. if l = ''fail'' then Lvl_error else Lvl_ok"
  let ?s = "fst (new_logParser ref_json ''/var/log/a'' (JObj []) 25 60 [])"
  have "getlines (''fail'' @ [newline] @ ''fine'' @ [newline]) = [''fail'', ''fine'']" by (simp add: getlines.simps)
  moreover have "j_asUInt ref_json (j_get ref_json (lp_cfg ?s) ''history'') = Inr 25"
    using ref.plugin_defaults_history[of "JObj []" 25 60] by (simp add: new_logParser_def mhas_def)
  ultimately show ?thesis
    using parseLog_first_pass[OF ref.json_laws_axioms, of ?w ?s "''fail'' @ [newline] @ ''fine'' @ [newline]" 25 ?lv "\<lambda>_. ''today''" "\<lambda>_. Fin 1"]
    by (auto simp: new_logParser_def event_of_def Let_def map_eq_Cons_conv)
qed

text \<open>
  C7: a log is read once. After a pass that read the file the stream position kept is the failure
  value, and from then on no pass changes anything, whatever the file contains.
\<close>

theorem parseLog_reads_once:
  assumes "parseLog J w getLevel getDate clk s = (s', None)"
    and "os_file w (lp_filename s) = Some content" "int (length content) \<noteq> lp_pos s"
    and "j_asUInt J (j_get J (lp_cfg s) ''history'') = Inr h"
  shows "lp_pos s' = - 1 \<and> (\<forall>w' clk'. lp_v (fst (parseLog J w' getLevel getDate clk' s')) = lp_v s' \<and>
                                 lp_pos (fst (parseLog J w' getLevel getDate clk' s')) = - 1)"
proof -
  have p: "lp_pos s' = - 1"
    using assms by (auto simp: parseLog_def Let_def tellg_after_loop_def split: prod.splits option.splits)
  then have "lines_from c (lp_pos s') = []" "\<not> int (length c) < lp_pos s'" for c :: string
    by (simp_all add: lines_from_def)
  then have "parseLog J w' getLevel getDate clk' s' = (s', None)" for w' clk'
    using p by (simp add: parseLog_def Let_def tellg_after_loop_def split: option.split)
  with p show ?thesis by simp
qed

theorem parseLog_reads_once_witness:
  "lp_pos (fst (parseLog ref_json (bare_os\<lparr>os_file := \<lambda>_. Some ''fine''\<rparr>) (\<lambda>_. Lvl_ok) (\<lambda>_. []) (\<lambda>_. Fin 1)
     \<lparr>lp_cfg = JObj [(''history'', JInt 3)], lp_v = [], lp_filename = ''a'', lp_pos = 0, lp_lineNo = 0, lp_active = True\<rparr>)) = - 1"
proof -
  let ?s = "\<lparr>lp_cfg = JObj [(''history'', JInt 3)], lp_v = [], lp_filename = ''a'', lp_pos = 0, lp_lineNo = 0, lp_active = True\<rparr>"
  let ?w = "bare_os\<lparr>os_file := \<lambda>_. Some ''fine''\<rparr>"
  have "snd (parseLog ref_json ?w (\<lambda>_. Lvl_ok) (\<lambda>_. []) (\<lambda>_. Fin 1) ?s) = None"
    by (simp add: parseLog_def lines_from_def getlines.simps parse_line_def)
  then show ?thesis
    using parseLog_reads_once[of ref_json ?w "\<lambda>_. Lvl_ok" "\<lambda>_. []" "\<lambda>_. Fin 1" ?s
        "fst (parseLog ref_json ?w (\<lambda>_. Lvl_ok) (\<lambda>_. []) (\<lambda>_. Fin 1) ?s)" "''fine''" 3]
    by (simp add: prod_eq_iff)
qed

end
