(* ===== verification/Sockets.thy ===== *)
theory Sockets
  imports CppString
begin

text \<open>
  The \<^verbatim>\<open>socket\<close> class of src/services.cpp and its \<^verbatim>\<open>sock_addr\<close> struct (src/include/services.h):
  a socket is built from a line of /proc/net/\{tcp,udp,tcp6,udp6\} or from the textual source that
  \<open>getSource\<close> prints into a configuration template. C++ leaves the members that a constructor does
  not assign uninitialised; the constructors therefore take the previous contents \<open>mem\<close> of the
  object's memory. The theorems are the round trip between \<open>getSource\<close> and the second
  constructor, and the decoding of the kernel's hexadecimal address format.
\<close>

section \<open>Data\<close>

record sock_addr =
  port :: u32
  ip1 :: u16
  ip2 :: u16
  ip3 :: u16
  ip4 :: u16
  ip5 :: u16
  ip6 :: u16
  ip7 :: u16
  ip8 :: u16

record socket =
  sock_id :: u32
  sock_type :: string
  sock_source :: sock_addr
  sock_dest :: sock_addr

abbreviation is_v4 :: "string \<Rightarrow> bool" where
  "is_v4 ty \<equiv> ty = ''tcp'' \<or> ty = ''udp''"

text \<open>An object whose memory is all zero, for concrete examples.\<close>

definition zeroed_addr :: sock_addr where
  "zeroed_addr = \<lparr>port = 0, ip1 = 0, ip2 = 0, ip3 = 0, ip4 = 0, ip5 = 0, ip6 = 0, ip7 = 0, ip8 = 0\<rparr>"

definition zeroed_socket :: socket where
  "zeroed_socket = \<lparr>sock_id = 0, sock_type = [], sock_source = zeroed_addr, sock_dest = zeroed_addr\<rparr>"

section \<open>Decoding /proc/net addresses\<close>

definition hex16 :: "string \<Rightarrow> u16" where
  "hex16 s = of_nat (strtoul 16 s)"

definition setSockFrom :: "string \<Rightarrow> sock_addr \<Rightarrow> sock_addr res" where
  "setSockFrom src sa =
     bindR (substr src (sz_add (str_find src '':'' 0) 1) (length src)) (\<lambda>prt.
     bindR (substr src 0 2) (\<lambda>a.
     bindR (substr src 2 2) (\<lambda>b.
     bindR (substr src 4 2) (\<lambda>c.
     bindR (substr src 6 2) (\<lambda>d.
     Inr (sa\<lparr>port := of_nat (strtoul 16 prt), ip4 := hex16 a, ip3 := hex16 b, ip2 := hex16 c, ip1 := hex16 d\<rparr>))))))"

text \<open>\<^verbatim>\<open>buf = src.substr(i,2)+src.substr(j,2); strtoul(buf.c_str(), NULL, 16)\<close>\<close>

definition hex_swapped :: "string \<Rightarrow> nat \<Rightarrow> nat \<Rightarrow> u16 res" where
  "hex_swapped src i j =
     bindR (substr src i 2) (\<lambda>x. bindR (substr src j 2) (\<lambda>y. Inr (hex16 (x @ y))))"

definition setSockFrom6 :: "string \<Rightarrow> sock_addr \<Rightarrow> sock_addr res" where
  "setSockFrom6 src sa =
     bindR (substr src (sz_add (str_find src '':'' 0) 1) (length src)) (\<lambda>prt.
     bindR (hex_swapped src 2 0) (\<lambda>b2.
     bindR (hex_swapped src 6 4) (\<lambda>b1.
     bindR (hex_swapped src 10 8) (\<lambda>b4.
     bindR (hex_swapped src 14 12) (\<lambda>b3.
     bindR (hex_swapped src 18 16) (\<lambda>b6.
     bindR (hex_swapped src 22 20) (\<lambda>b5.
     bindR (hex_swapped src 26 24) (\<lambda>b8.
     bindR (hex_swapped src 30 28) (\<lambda>b7.
     Inr (sa\<lparr>port := of_nat (strtoul 16 prt), ip1 := b1, ip2 := b2, ip3 := b3, ip4 := b4,
            ip5 := b5, ip6 := b6, ip7 := b7, ip8 := b8\<rparr>))))))))))"

section \<open>The two constructors\<close>

definition socket_of_line :: "socket \<Rightarrow> string \<Rightarrow> string \<Rightarrow> socket res" where
  "socket_of_line mem line ty =
     (let toks = tokens line;
          setS = (if is_v4 ty then setSockFrom else setSockFrom6) in
      bindR (vec_at toks 1) (\<lambda>t1.
      bindR (setS t1 (sock_source mem)) (\<lambda>src.
      bindR (vec_at toks 2) (\<lambda>t2.
      bindR (setS t2 (sock_dest mem)) (\<lambda>dst.
      bindR (vec_at toks 9) (\<lambda>t9.
      Inr \<lparr>sock_id = atoi t9, sock_type = ty, sock_source = src, sock_dest = dst\<rparr>))))))"

text \<open>
  One step of the IPv6 branch: the group after the colon at \<open>pos\<close>, and the position of the next
  colon. The second argument of \<^verbatim>\<open>substr\<close> is a length, and the source passes a position.
\<close>

definition next_group :: "string \<Rightarrow> size_t \<Rightarrow> (u16 \<times> size_t) res" where
  "next_group ip pos =
     (let nxt = str_find ip '':'' (sz_add pos 1) in
      bindR (substr ip (sz_add pos 1) nxt) (\<lambda>g. Inr (hex16 g, nxt)))"

definition parse_v4 :: "string \<Rightarrow> sock_addr \<Rightarrow> sock_addr" where
  "parse_v4 ip sa =
     (let (st1, a) = get_u16 (False, ip) (ip1 sa);
          (st2, b) = get_u16 (get_char st1) (ip2 sa);
          (st3, c) = get_u16 (get_char st2) (ip3 sa);
          (st4, d) = get_u16 (get_char st3) (ip4 sa)
      in sa\<lparr>ip1 := a, ip2 := b, ip3 := c, ip4 := d\<rparr>)"

definition parse_v6 :: "string \<Rightarrow> sock_addr \<Rightarrow> sock_addr res" where
  "parse_v6 ip sa =
     (let pos = str_find ip '':'' 0 in
      bindR (substr ip 0 pos) (\<lambda>g1.
      bindR (next_group ip pos) (\<lambda>(b2, pos2).
      bindR (next_group ip pos2) (\<lambda>(b3, pos3).
      bindR (next_group ip pos3) (\<lambda>(b4, pos4).
      bindR (next_group ip pos4) (\<lambda>(b5, pos5).
      bindR (next_group ip pos5) (\<lambda>(b6, pos6).
      bindR (next_group ip pos6) (\<lambda>(b7, pos7).
      bindR (substr_from ip (sz_add pos7 1)) (\<lambda>g8.
      Inr (sa\<lparr>ip1 := hex16 g1, ip2 := b2, ip3 := b3, ip4 := b4,
             ip5 := b5, ip6 := b6, ip7 := b7, ip8 := hex16 g8\<rparr>))))))))))"

definition socket_of_source :: "socket \<Rightarrow> string \<Rightarrow> socket res" where
  "socket_of_source mem p_source =
     bindR (substr p_source 0 (str_find p_source '':'' 0)) (\<lambda>ty.
     let pos = sz_add (str_find p_source '':'' 0) 3; last = str_rfind p_source (CHR '':'') in
     bindR (substr_from p_source (sz_add last 1)) (\<lambda>prt.
     let sa = (sock_source mem)\<lparr>port := of_nat (strtoul 10 prt)\<rparr> in
     bindR (substr p_source pos (sz_sub last pos)) (\<lambda>ip.
     bindR (if is_v4 ty then Inr (parse_v4 ip sa) else parse_v6 ip sa) (\<lambda>src.
     Inr (mem\<lparr>sock_type := ty, sock_source := src\<rparr>)))))"

section \<open>Observers\<close>

definition isLoopBack :: "socket \<Rightarrow> bool" where
  "isLoopBack s =
     (let a = sock_source s in
      if is_v4 (sock_type s) then ip1 a = 127 \<and> ip2 a = 0 \<and> ip3 a = 0
      else ip1 a = 0 \<and> ip2 a = 0 \<and> ip3 a = 0 \<and> ip4 a = 0 \<and> ip5 a = 0 \<and> ip6 a = 0 \<and> ip7 a = 0 \<and> ip8 a = 1)"

definition addr_text :: "string \<Rightarrow> sock_addr \<Rightarrow> string" where
  "addr_text ty a =
     (if is_v4 ty
      then to_string (unat (ip1 a)) @ ''.'' @ to_string (unat (ip2 a)) @ ''.'' @
           to_string (unat (ip3 a)) @ ''.'' @ to_string (unat (ip4 a))
      else to_hex (unat (ip1 a)) @ '':'' @ to_hex (unat (ip2 a)) @ '':'' @ to_hex (unat (ip3 a)) @ '':'' @
           to_hex (unat (ip4 a)) @ '':'' @ to_hex (unat (ip5 a)) @ '':'' @ to_hex (unat (ip6 a)) @ '':'' @
           to_hex (unat (ip7 a)) @ '':'' @ to_hex (unat (ip8 a)))"

definition getSource :: "socket \<Rightarrow> string" where
  "getSource s = sock_type s @ ''://'' @ addr_text (sock_type s) (sock_source s) @ '':'' @
     to_string (unat (port (sock_source s)))"

section \<open>The printed source is read back\<close>

lemma show_nat_no_sep [simp]:
  assumes "2 \<le> b" "b \<le> 36"
  shows "CHR '':'' \<notin> set (show_nat b n)"
proof
  assume "CHR '':'' \<in> set (show_nat b n)"
  then have "digit_val b (CHR '':'') \<noteq> None" using assms by (rule show_nat_all_digits[rotated 2])
  then show False by (simp add: digit_val_def digit_of_def)
qed

lemma no_digit_first_sep [simp]:
  "no_digit_first b []" "no_digit_first b (CHR '':'' # s)" "no_digit_first b (CHR ''.'' # s)"
  by (simp_all add: no_digit_first_def digit_val_def digit_of_def)

lemma hex16_to_hex:
  assumes "rest = [] \<or> hd rest = CHR '':''"
  shows "hex16 (to_hex (unat x) @ rest) = x"
proof -
  have "unat x < 2 ^ 64" using u16_bound[of x] by simp
  moreover have "no_digit_first 16 rest" "\<forall>c \<in> set (take 1 rest). c \<noteq> CHR ''x'' \<and> c \<noteq> CHR ''X''"
    using assms by (cases rest; auto)+
  ultimately show ?thesis by (simp add: hex16_def strtoul_show_nat)
qed

lemma parse_v4_text:
  "parse_v4 (to_string (unat a) @ ''.'' @ to_string (unat b) @ ''.'' @ to_string (unat c) @ ''.'' @
     to_string (unat d)) sa = sa\<lparr>ip1 := a, ip2 := b, ip3 := c, ip4 := d\<rparr>"
proof -
  have lt: "unat x < 2 ^ 16" for x :: u16 using u16_bound[of x] by simp
  have "get_u16 (False, to_string (unat x) @ rest) old = ((False, rest), x)"
    if "no_digit_first 10 rest" for x :: u16 and rest old
    using get_u16_show_nat[OF that lt] by simp
  from this this[of "[]"] show ?thesis by (simp add: parse_v4_def)
qed

lemma next_group_text:
  assumes ip: "ip = pre @ CHR '':'' # to_hex (unat x) @ CHR '':'' # rest" and fit: "fits ip"
  shows "next_group ip (length pre) = Inr (x, length pre + 1 + length (to_hex (unat x)))"
proof -
  let ?h = "to_hex (unat x)"
  have pos: "sz_add (length pre) 1 = Suc (length pre)" using fit ip by simp
  have nxt: "str_find ip '':'' (Suc (length pre)) = length pre + 1 + length ?h"
    using str_find_char_from[of "CHR '':''" ?h "Suc (length pre)" "pre @ '':''" rest] ip by simp
  have at: "Suc (length pre) \<le> length ip" "drop (Suc (length pre)) ip = ?h @ CHR '':'' # rest"
    using ip by simp_all
  have "take (length pre + 1 + length ?h) (?h @ CHR '':'' # rest) = ?h @ take (length pre + 1) (CHR '':'' # rest)"
    by simp
  moreover have "hex16 (?h @ take (length pre + 1) (CHR '':'' # rest)) = x"
    by (rule hex16_to_hex) simp
  ultimately show ?thesis
    unfolding next_group_def Let_def pos nxt using at by simp
qed

lemma parse_v6_text:
  "parse_v6 (addr_text ty a) sa = Inr (sa\<lparr>ip1 := ip1 a, ip2 := ip2 a, ip3 := ip3 a, ip4 := ip4 a,
     ip5 := ip5 a, ip6 := ip6 a, ip7 := ip7 a, ip8 := ip8 a\<rparr>)" if "\<not> is_v4 ty"
proof -
  let ?h = "\<lambda>f. to_hex (unat (f a))" and ?ip = "addr_text ty a"
  have len: "length (to_hex (unat (x :: u16))) \<le> 4" for x
    using length_show_nat[of 16 "unat x" 3] u16_bound[of x] by simp
  have ip: "?ip = ?h ip1 @ '':'' @ ?h ip2 @ '':'' @ ?h ip3 @ '':'' @ ?h ip4 @ '':'' @ ?h ip5 @ '':'' @
      ?h ip6 @ '':'' @ ?h ip7 @ '':'' @ ?h ip8" using that by (auto simp: addr_text_def)
  have "length ?ip \<le> 39"
    using len[of "ip1 a"] len[of "ip2 a"] len[of "ip3 a"] len[of "ip4 a"]
      len[of "ip5 a"] len[of "ip6 a"] len[of "ip7 a"] len[of "ip8 a"] by (simp add: ip)
  then have fit: "fits ?ip" by simp
  define p1 where "p1 = ?h ip1"
  define p2 where "p2 = p1 @ '':'' @ ?h ip2"
  define p3 where "p3 = p2 @ '':'' @ ?h ip3"
  define p4 where "p4 = p3 @ '':'' @ ?h ip4"
  define p5 where "p5 = p4 @ '':'' @ ?h ip5"
  define p6 where "p6 = p5 @ '':'' @ ?h ip6"
  define p7 where "p7 = p6 @ '':'' @ ?h ip7"
  note pd = p1_def p2_def p3_def p4_def p5_def p6_def p7_def
  have g: "next_group ?ip (length p1) = Inr (ip2 a, length p2)"
    "next_group ?ip (length p2) = Inr (ip3 a, length p3)"
    "next_group ?ip (length p3) = Inr (ip4 a, length p4)"
    "next_group ?ip (length p4) = Inr (ip5 a, length p5)"
    "next_group ?ip (length p5) = Inr (ip6 a, length p6)"
    "next_group ?ip (length p6) = Inr (ip7 a, length p7)"
    by (subst next_group_text[OF _ fit], simp add: ip pd, simp add: pd)+
  have "str_find ?ip '':'' 0 = length p1" by (simp add: ip p1_def)
  moreover have "substr ?ip 0 (length p1) = Inr (?h ip1)" by (simp add: ip p1_def)
  moreover have "substr_from ?ip (sz_add (length p7) 1) = Inr (?h ip8)"
    by (rule substr_after[OF _ fit]) (simp add: ip pd)
  moreover have "hex16 (?h f) = f a" for f :: "sock_addr \<Rightarrow> u16"
    using hex16_to_hex[of "[]" "f a"] by simp
  ultimately show ?thesis using g by (simp add: parse_v6_def Let_def)
qed

lemma socket_of_source_parts:
  assumes "CHR '':'' \<notin> set ty" "CHR '':'' \<notin> set prt" "fits (ty @ ''://'' @ body @ '':'' @ prt)"
  shows "socket_of_source mem (ty @ ''://'' @ body @ '':'' @ prt) =
     (let sa = (sock_source mem)\<lparr>port := of_nat (strtoul 10 prt)\<rparr> in
      bindR (if is_v4 ty then Inr (parse_v4 body sa) else parse_v6 body sa)
        (\<lambda>src. Inr (mem\<lparr>sock_type := ty, sock_source := src\<rparr>)))"
proof -
  let ?s = "ty @ ''://'' @ body @ '':'' @ prt"
  have "str_find ?s '':'' 0 = length ty"
    using str_find_char[OF assms(1), of "''//'' @ body @ '':'' @ prt"] by simp
  moreover have "str_rfind ?s (CHR '':'') = length ty + 3 + length body"
    using str_rfind_split[OF assms(2), of "ty @ ''://'' @ body"] by simp
  moreover have "substr_from ?s (sz_add (length ty + 3 + length body) 1) = Inr prt"
    using substr_after[of ?s "ty @ ''://'' @ body" "CHR '':''" prt] assms(3) by (simp add: add.assoc)
  ultimately show ?thesis
    using assms(3) by (simp add: socket_of_source_def)
qed

text \<open>
  C34: a socket printed by \<open>getSource\<close> into a service template is read back by the constructor
  that the service configuration uses, for IPv4 and IPv6: type, port and address are the ones
  printed, whatever the memory of the new object held before.
\<close>

theorem socket_source_roundtrip:
  assumes "CHR '':'' \<notin> set (sock_type s)" "length (sock_type s) \<le> 1000"
  shows "\<exists>s'. socket_of_source mem (getSource s) = Inr s' \<and> sock_type s' = sock_type s
           \<and> getSource s' = getSource s \<and> isLoopBack s' = isLoopBack s
           \<and> port (sock_source s') = port (sock_source s)
           \<and> sock_id s' = sock_id mem"
proof -
  let ?a = "sock_source s" and ?ty = "sock_type s"
  have n10: "length (to_string (unat (x :: u16))) \<le> 5" for x
    using length_show_nat[of 10 "unat x" 4] u16_bound[of x] by simp
  have h4: "length (to_hex (unat (x :: u16))) \<le> 4" for x
    using length_show_nat[of 16 "unat x" 3] u16_bound[of x] by simp
  have p10: "length (to_string (unat (port ?a))) \<le> 10"
    using length_show_nat[of 10 "unat (port ?a)" 9] u32_bound[of "port ?a"] by simp
  have "length (addr_text ?ty ?a) \<le> 39"
    using n10[of "ip1 ?a"] n10[of "ip2 ?a"] n10[of "ip3 ?a"] n10[of "ip4 ?a"]
      h4[of "ip1 ?a"] h4[of "ip2 ?a"] h4[of "ip3 ?a"] h4[of "ip4 ?a"]
      h4[of "ip5 ?a"] h4[of "ip6 ?a"] h4[of "ip7 ?a"] h4[of "ip8 ?a"]
    by (auto simp: addr_text_def)
  with assms(2) p10 have fit: "fits (getSource s)" by (simp add: getSource_def)
  have "unat (port ?a) < 2 ^ 64" using u32_bound[of "port ?a"] by simp
  then have prt: "of_nat (strtoul 10 (to_string (unat (port ?a)))) = port ?a" by simp
  have parts: "socket_of_source mem (getSource s) =
     (let sa = (sock_source mem)\<lparr>port := port ?a\<rparr> in
      bindR (if is_v4 ?ty then Inr (parse_v4 (addr_text ?ty ?a) sa) else parse_v6 (addr_text ?ty ?a) sa)
        (\<lambda>src. Inr (mem\<lparr>sock_type := ?ty, sock_source := src\<rparr>)))"
    unfolding getSource_def using assms(1) fit prt
    by (subst socket_of_source_parts) (simp_all add: getSource_def)
  show ?thesis
  proof (cases "is_v4 ?ty")
    case True
    with parts parse_v4_text[of "ip1 ?a" "ip2 ?a" "ip3 ?a" "ip4 ?a"] show ?thesis
      by (auto simp: Let_def isLoopBack_def addr_text_def getSource_def)
  next
    case False
    with parts parse_v6_text[OF False] show ?thesis
      by (auto simp: Let_def isLoopBack_def addr_text_def getSource_def)
  qed
qed

theorem socket_source_roundtrip_witness:
  "\<exists>s'. socket_of_source zeroed_socket (getSource (zeroed_socket\<lparr>sock_type := ''tcp6'', sock_source := zeroed_addr\<lparr>port := 9080, ip8 := 1\<rparr>\<rparr>)) = Inr s'
     \<and> sock_type s' = ''tcp6'' \<and> isLoopBack s' \<and> port (sock_source s') = 9080"
proof -
  let ?s = "zeroed_socket\<lparr>sock_type := ''tcp6'', sock_source := zeroed_addr\<lparr>port := 9080, ip8 := 1\<rparr>\<rparr>"
  have "CHR '':'' \<notin> set (sock_type ?s)" "length (sock_type ?s) \<le> 1000" "isLoopBack ?s"
    by (simp_all add: isLoopBack_def zeroed_addr_def)
  then show ?thesis
    using socket_source_roundtrip[of ?s zeroed_socket] by auto
qed

section \<open>The kernel's address format\<close>

text \<open>
  /proc/net/tcp prints an IPv4 address as the hexadecimal of the 32-bit word that holds the four
  octets in memory order, and an IPv6 address as four such words; on the little-endian machines
  the code supports the octets of each word come out reversed.
\<close>

definition proc_net_v4 :: "nat \<Rightarrow> nat \<Rightarrow> nat \<Rightarrow> nat \<Rightarrow> nat \<Rightarrow> string" where
  "proc_net_v4 a b c d prt = hexU 2 d @ hexU 2 c @ hexU 2 b @ hexU 2 a @ '':'' @ hexU 4 prt"

definition swapped_word :: "u16 \<Rightarrow> u16 \<Rightarrow> string" where
  "swapped_word g h = hexU 2 (unat h) @ hexU 2 (unat h div 256) @ hexU 2 (unat g) @ hexU 2 (unat g div 256)"

definition proc_net_v6 :: "sock_addr \<Rightarrow> nat \<Rightarrow> string" where
  "proc_net_v6 a prt = swapped_word (ip1 a) (ip2 a) @ swapped_word (ip3 a) (ip4 a) @
     swapped_word (ip5 a) (ip6 a) @ swapped_word (ip7 a) (ip8 a) @ '':'' @ hexU 4 prt"

lemma hex16_hexU: "n < 16 ^ w \<Longrightarrow> 0 < w \<Longrightarrow> w \<le> 15 \<Longrightarrow> hex16 (hexU w n) = of_nat n"
  by (simp add: hex16_def strtoul_hexU)

lemma hex16_hexU_pair: "hex16 (hexU 2 (unat g div 256) @ hexU 2 (unat g)) = g"
proof -
  have "hexU 2 (unat g div 256) @ hexU 2 (unat g) = hexU 4 (unat g)"
    using hexU_append[of 2 "unat g" 2] by simp
  then show ?thesis using u16_bound[of g] by (simp add: hex16_hexU)
qed

lemma substr_mid: "length pre = i \<Longrightarrow> length x = n \<Longrightarrow> substr (pre @ x @ suf) i n = Inr x"
  by simp

text \<open>
  An address as /proc/net/tcp prints it is decoded to its octets and its port.
\<close>

theorem setSockFrom_decodes:
  assumes "a < 256" "b < 256" "c < 256" "d < 256" "prt < 65536"
  shows "setSockFrom (proc_net_v4 a b c d prt) sa =
    Inr (sa\<lparr>port := of_nat prt, ip1 := of_nat a, ip2 := of_nat b, ip3 := of_nat c, ip4 := of_nat d\<rparr>)"
proof -
  let ?s = "proc_net_v4 a b c d prt"
  have s: "?s = (hexU 2 d @ hexU 2 c @ hexU 2 b @ hexU 2 a) @ CHR '':'' # hexU 4 prt"
    by (simp add: proc_net_v4_def)
  have colon: "str_find ?s '':'' 0 = 8"
    using str_find_char[of "CHR '':''" "hexU 2 d @ hexU 2 c @ hexU 2 b @ hexU 2 a" "hexU 4 prt"]
    unfolding s by (simp add: hexU_no_colon)
  have "substr ?s 9 (length ?s) = Inr (hexU 4 prt)"
    unfolding s by simp
  moreover have "substr ?s 0 2 = Inr (hexU 2 d)" "substr ?s 2 2 = Inr (hexU 2 c)"
    "substr ?s 4 2 = Inr (hexU 2 b)" "substr ?s 6 2 = Inr (hexU 2 a)"
    unfolding s by simp_all
  ultimately show ?thesis
    using assms by (simp add: setSockFrom_def colon hex16_hexU strtoul_hexU del: substr_Inr)
qed

theorem setSockFrom_decodes_witness:
  "setSockFrom ''0100007F:1F90'' zeroed_addr =
     Inr (zeroed_addr\<lparr>port := 8080, ip1 := 127, ip2 := 0, ip3 := 0, ip4 := 1\<rparr>)"
proof -
  have "proc_net_v4 127 0 0 1 8080 = ''0100007F:1F90''"
    by (simp add: proc_net_v4_def hexU_4 hexU_2 upper_digit_def)
  with setSockFrom_decodes[of 127 0 0 1 8080 zeroed_addr] show ?thesis by simp
qed

text \<open>
  An IPv6 address as /proc/net/tcp6 prints it is decoded to its eight groups and its port.
\<close>

theorem setSockFrom6_decodes:
  assumes "prt < 65536"
  shows "setSockFrom6 (proc_net_v6 a prt) sa =
    Inr (sa\<lparr>port := of_nat prt, ip1 := ip1 a, ip2 := ip2 a, ip3 := ip3 a, ip4 := ip4 a,
           ip5 := ip5 a, ip6 := ip6 a, ip7 := ip7 a, ip8 := ip8 a\<rparr>)"
proof -
  let ?s = "proc_net_v6 a prt" and ?w = "\<lambda>i j. swapped_word (i a) (j a)"
  have len: "length (swapped_word g h) = 8" for g h by (simp add: swapped_word_def)
  have s: "?s = (?w ip1 ip2 @ ?w ip3 ip4 @ ?w ip5 ip6 @ ?w ip7 ip8) @ CHR '':'' # hexU 4 prt"
    by (simp add: proc_net_v6_def)
  have "CHR '':'' \<notin> set (?w ip1 ip2 @ ?w ip3 ip4 @ ?w ip5 ip6 @ ?w ip7 ip8)"
    by (simp add: swapped_word_def hexU_no_colon)
  then have colon: "str_find ?s '':'' 0 = 32"
    unfolding s by (subst str_find_char) (simp_all add: len)
  have port: "substr ?s 33 (length ?s) = Inr (hexU 4 prt)"
    unfolding s by (simp add: len)
  have g: "hex_swapped ?s 2 0 = Inr (ip2 a)" "hex_swapped ?s 6 4 = Inr (ip1 a)"
    "hex_swapped ?s 10 8 = Inr (ip4 a)" "hex_swapped ?s 14 12 = Inr (ip3 a)"
    "hex_swapped ?s 18 16 = Inr (ip6 a)" "hex_swapped ?s 22 20 = Inr (ip5 a)"
    "hex_swapped ?s 26 24 = Inr (ip8 a)" "hex_swapped ?s 30 28 = Inr (ip7 a)"
    unfolding s hex_swapped_def swapped_word_def by (simp_all add: hex16_hexU_pair)
  show ?thesis
    using assms by (simp add: setSockFrom6_def colon port g strtoul_hexU del: substr_Inr)
qed

theorem setSockFrom6_decodes_witness:
  "setSockFrom6 ''00000000000000000000000001000000:0050'' zeroed_addr = Inr (zeroed_addr\<lparr>port := 80, ip8 := 1\<rparr>)"
proof -
  have "proc_net_v6 (zeroed_addr\<lparr>ip8 := 1\<rparr>) 80 = ''00000000000000000000000001000000:0050''"
    by (simp add: proc_net_v6_def swapped_word_def zeroed_addr_def hexU_4 hexU_2 upper_digit_def)
  with setSockFrom6_decodes[of 80 "zeroed_addr\<lparr>ip8 := 1\<rparr>" zeroed_addr] show ?thesis
    by (simp add: zeroed_addr_def)
qed

end
