(* ===== verification/Services.thy ===== *)
theory Services
  imports Collectors LogParser Sockets
begin

text \<open>
  The \<^verbatim>\<open>service\<close> class of src/services.cpp: a monitored service with its sockets, its main processes,
  their children, its collectors and its log parsers. Processes, collectors and parsers are shared
  pointers in the code and values here: a service is their only lasting owner. Plugins (the
  factories of service collectors, log parsers and handlers) are a parameter, since they come from
  shared libraries and Lua scripts. Calls that only write the agent's log are left out.
\<close>

section \<open>State\<close>

text \<open>
  A factory maps a plugin's name to its maker, a function pointer that is null in an entry created
  by a lookup of a missing name, and the file the plugin was read from.
\<close>

type_synonym 'm factory = "(string, 'm option \<times> string) smap"

type_synonym 'j collector_maker = "'j \<Rightarrow> string \<Rightarrow> string \<Rightarrow> counters \<Rightarrow> ('j collector \<times> counters) res"
type_synonym 'j parser_maker = "string \<Rightarrow> 'j \<Rightarrow> string \<Rightarrow> counters \<Rightarrow> ('j logParser \<times> counters) res"

record 'j factories =
  f_collector :: "'j collector_maker factory"
  f_parser :: "'j parser_maker factory"
  f_handler :: "unit factory"

record handler_obj =
  h_plugin :: string
  h_file :: string

record 'j service =
  s_name :: string
  s_host :: string
  s_type :: string
  s_subType :: string
  s_uniqName :: string
  s_cfg :: 'j
  s_handler :: "handler_obj option"
  s_cfgFile :: string
  s_sockets :: "socket list"
  s_main :: "process list"
  s_sub :: "process list"
  s_collectors :: "'j collectors"
  s_parsers :: "(string, 'j logParser) smap"

definition getID :: "'j service \<Rightarrow> string" where
  "getID s = s_name s @ ''-'' @ s_uniqName s"

section \<open>Sockets and processes of a service\<close>

text \<open>\<^verbatim>\<open>std::string::replace(pos, len, r)\<close>\<close>

definition str_replace :: "string \<Rightarrow> size_t \<Rightarrow> size_t \<Rightarrow> string \<Rightarrow> string res" where
  "str_replace s pos len r = (if length s < pos then Inl OutOfRange else Inr (take pos s @ r @ drop (pos + len) s))"

definition socket_key :: "socket \<Rightarrow> string res" where
  "socket_key k =
     (let u = getSource k in
      bindR (str_replace u (str_find u '':'' 0) 3 ''_'') (\<lambda>u1.
      str_replace u1 (str_rfind u1 (CHR '':'')) 1 ''_''))"

definition setSocket :: "socket \<Rightarrow> 'j service \<Rightarrow> 'j service res" where
  "setSocket p_sock s =
     bindR (if s_sockets s = [] \<and> s_uniqName s = [] then socket_key p_sock else Inr (s_uniqName s)) (\<lambda>u.
     let s1 = s\<lparr>s_uniqName := u\<rparr> in
     Inr (if list_ex (\<lambda>k. getSource k = getSource p_sock) (s_sockets s1) then s1
          else s1\<lparr>s_sockets := s_sockets s1 @ [p_sock]\<rparr>))"

definition addSubProcess :: "process \<Rightarrow> 'j service \<Rightarrow> 'j service" where
  "addSubProcess p s =
     (if list_ex (\<lambda>q. pid q = pid p) (s_sub s) then s else s\<lparr>s_sub := s_sub s @ [p]\<rparr>)"

text \<open>One main process, when a new process is checked for being its parent.\<close>

definition demote :: "os \<Rightarrow> u32 \<Rightarrow> process \<Rightarrow> 'j service \<Rightarrow> 'j service res" where
  "demote w newpid q s =
     bindR (getPPID w q) (\<lambda>pp.
     Inr (if pp = newpid then addSubProcess q s else s\<lparr>s_main := s_main s @ [q]\<rparr>))"

definition addMainProcess :: "os \<Rightarrow> process \<Rightarrow> 'j service \<Rightarrow> 'j service res" where
  "addMainProcess w p s0 =
     (let s = (if s_main s0 = [] \<and> s_name s0 = [] then s0\<lparr>s_name := base_name p\<rparr> else s0) in
      if pid p \<noteq> 0 then
        bindR (getPPID w p) (\<lambda>ppid.
        if list_ex (\<lambda>q. pid q = ppid) (s_main s) then Inr (addSubProcess p s)
        else
          bindR (foldR (demote w (pid p)) (s_main s) (s\<lparr>s_main := []\<rparr>)) (\<lambda>s1.
          Inr (s1\<lparr>s_main := s_main s1 @ [p]\<rparr>)))
      else Inr (s\<lparr>s_main := s_main s @ [p]\<rparr>))"

definition serv_haveSocket :: "os \<Rightarrow> 'j service \<Rightarrow> u32 \<Rightarrow> bool" where
  "serv_haveSocket w s i = list_ex (\<lambda>q. proc_getStatus w q \<and> proc_haveSocket q i) (s_main s)"

definition havePID :: "'j service \<Rightarrow> u32 \<Rightarrow> bool" where
  "havePID s i = (list_ex (\<lambda>q. pid q = i) (s_main s) \<or> list_ex (\<lambda>q. pid q = i) (s_sub s))"

definition getProcess :: "'j service \<Rightarrow> u32 \<Rightarrow> process option" where
  "getProcess s i = List.find (\<lambda>q. pid q = i) (s_main s @ s_sub s)"

definition getMainProcess :: "'j service \<Rightarrow> process option" where
  "getMainProcess s = (case s_main s of [] \<Rightarrow> None | p # _ \<Rightarrow> Some p)"

definition getPIDs :: "os \<Rightarrow> 'j service \<Rightarrow> 'j service \<times> u32 list" where
  "getPIDs w s =
     (let alive = filter (proc_getStatus w) (s_sub s)
      in (s\<lparr>s_sub := alive\<rparr>, map pid (s_main s) @ map pid alive))"

definition haveSource :: "'j service \<Rightarrow> string \<Rightarrow> bool" where
  "haveSource s src = list_ex (\<lambda>k. getSource k = src) (s_sockets s)"

definition needSocketFrom :: "os \<Rightarrow> 'j service \<Rightarrow> 'j service \<Rightarrow> bool" where
  "needSocketFrom w s other =
     list_ex (\<lambda>k. \<not> serv_haveSocket w s (sock_id k) \<and>
        list_ex (\<lambda>j. getSource j = getSource k) (s_sockets other)) (s_sockets s)"

definition service_eq :: "'j service \<Rightarrow> 'j service \<Rightarrow> bool" where
  "service_eq s rhs =
     (if s_name s \<noteq> s_name rhs then False
      else if s_type s \<noteq> s_type rhs then False
      else list_all (\<lambda>k. haveSource rhs (getSource k)) (s_sockets s))"

definition service_is :: "'j service \<Rightarrow> string \<Rightarrow> bool" where
  "service_is s rhs = (rhs = s_name s @ ''-'' @ s_uniqName s)"

definition updateMainProcess :: "os \<Rightarrow> process \<Rightarrow> 'j service \<Rightarrow> 'j service res" where
  "updateMainProcess w p s =
     addMainProcess w p
       (s\<lparr>s_main := erase_first (\<lambda>q. \<not> proc_getStatus w q \<and> full_path q = full_path p) (s_main s)\<rparr>)"

definition copy_socket :: "socket \<Rightarrow> 'j service \<Rightarrow> 'j service res" where
  "copy_socket k s =
     setSocket k (s\<lparr>s_sockets := erase_first (\<lambda>j. getSource j = getSource k) (s_sockets s)\<rparr>)"

definition copy_collectors_cfg :: "'j jsonlib \<Rightarrow> 'j \<Rightarrow> 'j \<Rightarrow> 'j" where
  "copy_collectors_cfg J src c =
     fold (\<lambda>k. j_put J [Key ''collectors'', Key k] (j_get J (j_get J src ''collectors'') k))
       (j_keys J (j_get J src ''collectors'')) c"

text \<open>
  The children of \<open>src\<close> are not copied, as a remark in the source says. Reading the collectors of \<open>src\<close> leaves a null member in its
  configuration when it has none; \<open>src\<close> is dropped by the caller, and this is not followed.
\<close>

definition updateFrom :: "'j jsonlib \<Rightarrow> os \<Rightarrow> 'j service \<Rightarrow> 'j service \<Rightarrow> 'j service res" where
  "updateFrom J w src s =
     bindR (foldR (updateMainProcess w) (s_main src) s) (\<lambda>s1.
     bindR (foldR copy_socket (s_sockets src) s1) (\<lambda>s2.
     Inr (s2\<lparr>s_cfg := copy_collectors_cfg J (s_cfg src) (s_cfg s2)\<rparr>)))"

definition isSelf :: "os \<Rightarrow> 'j service \<Rightarrow> bool" where
  "isSelf w s = havePID s (os_getpid w)"

section \<open>Construction\<close>

definition setDefaultHost :: "os \<Rightarrow> 'j service \<Rightarrow> 'j service" where
  "setDefaultHost w s =
     (if s_host s \<noteq> [] then s
      else case os_canonname w of None \<Rightarrow> s | Some nm \<Rightarrow> s\<lparr>s_host := nm\<rparr>)"

definition blank_service :: "'j jsonlib \<Rightarrow> string \<Rightarrow> 'j service" where
  "blank_service J file = \<lparr>s_name = [], s_host = [], s_type = ''unknown'', s_subType = [], s_uniqName = [],
     s_cfg = j_object J, s_handler = None, s_cfgFile = file, s_sockets = [], s_main = [], s_sub = [],
     s_collectors = [], s_parsers = []\<rparr>"

definition new_service :: "'j jsonlib \<Rightarrow> os \<Rightarrow> counters \<Rightarrow> 'j service \<times> counters" where
  "new_service J w cs = (setDefaultHost w (blank_service J []), count_add ''service'' 1 cs)"

text \<open>
  A service read from its configuration file. The argument \<open>mem\<close> is what the memory of each new
  socket held, since the constructor from text leaves some members unset.
\<close>

definition service_of_file :: "'j jsonlib \<Rightarrow> os \<Rightarrow> socket \<Rightarrow> string \<Rightarrow> counters \<Rightarrow> ('j service \<times> counters) res" where
  "service_of_file J w mem file cs =
     bindR (case os_file w file of None \<Rightarrow> Inr (j_object J) | Some c \<Rightarrow> j_read J c) (\<lambda>cfg.
     bindR (if j_member J cfg ''sockets''
            then foldR (\<lambda>l s. bindR (j_asString J l) (\<lambda>t. bindR (socket_of_source mem t) (\<lambda>k. setSocket k s)))
                   (j_elems J (j_get J cfg ''sockets'')) ((blank_service J file)\<lparr>s_cfg := cfg\<rparr>)
            else Inr ((blank_service J file)\<lparr>s_cfg := cfg\<rparr>)) (\<lambda>s1.
     bindR (if j_member J cfg ''uniqName'' then j_asString J (j_get J cfg ''uniqName'') else Inr (s_uniqName s1)) (\<lambda>u.
     bindR (if j_member J cfg ''host'' then j_asString J (j_get J cfg ''host'') else Inr (s_host s1)) (\<lambda>h.
     let s2 = s1\<lparr>s_uniqName := u, s_host := h\<rparr> in
     bindR (if j_member J cfg ''process''
            then foldR (\<lambda>l s. bindR (j_asString J l) (\<lambda>t. bindR (process_of_path t) (\<lambda>p. addMainProcess w p s)))
                   (j_elems J (j_get J cfg ''process'')) s2
            else Inr s2) (\<lambda>s3.
     Inr (setDefaultHost w s3, count_add ''service'' 1 cs))))))"

section \<open>Configuration\<close>

definition set_array :: "'j jsonlib \<Rightarrow> string \<Rightarrow> string list \<Rightarrow> 'j \<Rightarrow> 'j" where
  "set_array J k xs c =
     (let c1 = (if j_member J c k then j_set J c k (j_clear J (j_get J c k)) else j_set J c k (j_array J))
      in fold (\<lambda>x c. j_set J c k (j_append J (j_get J c k) (j_string J x))) xs c1)"

definition setDefaultConfig :: "'j jsonlib \<Rightarrow> 'j service \<Rightarrow> 'j service" where
  "setDefaultConfig J s =
     s\<lparr>s_cfg :=
        j_set J (j_set J
          (set_array J ''process'' (map full_path (s_main s))
            (set_array J ''sockets'' (map getSource (s_sockets s)) (s_cfg s)))
          ''uniqName'' (j_string J (s_uniqName s)))
          ''host'' (j_string J (s_host s))\<rparr>"

definition plugin_cfg :: "'j jsonlib \<Rightarrow> string \<Rightarrow> string \<Rightarrow> string \<Rightarrow> 'j \<Rightarrow> 'j" where
  "plugin_cfg J grp comment p_name c =
     (if \<not> j_member J c grp
      then let c1 = j_put J [Key grp, Key p_name] (j_object J) c
           in j_set J c1 grp (j_setComment J (j_get J c1 grp) comment commentBefore)
      else if \<not> j_member J (j_get J c grp) p_name then j_put J [Key grp, Key p_name] (j_object J) c
      else c)"

definition getCollectorCfg :: "'j jsonlib \<Rightarrow> string \<Rightarrow> 'j service \<Rightarrow> 'j service \<times> 'j" where
  "getCollectorCfg J p_name s =
     (let c = plugin_cfg J ''collectors'' (''/*'' @ [CHR 0x09] @ ''Configure the collectors plugins */'') p_name (s_cfg s)
      in (s\<lparr>s_cfg := c\<rparr>, j_get J (j_get J c ''collectors'') p_name))"

definition getParserCfg :: "'j jsonlib \<Rightarrow> string \<Rightarrow> 'j service \<Rightarrow> 'j service \<times> 'j" where
  "getParserCfg J p_name s =
     (let c = plugin_cfg J ''parsers'' (''/*'' @ [CHR 0x09] @ ''Configure the parsers plugins */'') p_name (s_cfg s)
      in (s\<lparr>s_cfg := c\<rparr>, j_get J (j_get J c ''parsers'') p_name))"

text \<open>The template is the file's name and content; whether it can be written is up to the system.\<close>

definition template_file :: "'j jsonlib \<Rightarrow> string \<Rightarrow> 'j service \<Rightarrow> string \<times> string" where
  "template_file J dir s = (dir @ ''/'' @ s_name s @ ''-'' @ s_uniqName s @ ''.json.template'', j_write J (s_cfg s))"

definition saveConfigTemplate :: "'j jsonlib \<Rightarrow> string \<Rightarrow> 'j service \<Rightarrow> 'j service \<times> (string \<times> string)" where
  "saveConfigTemplate J dir s0 = (let s = setDefaultConfig J s0 in (s, template_file J dir s))"

section \<open>What a service tracks\<close>

definition tracked :: "'j service \<Rightarrow> u32 set" where
  "tracked s = pid ` set (s_main s) \<union> pid ` set (s_sub s)"

definition sources :: "'j service \<Rightarrow> string set" where
  "sources s = getSource ` set (s_sockets s)"

definition serv_ok :: "'j service \<Rightarrow> bool" where
  "serv_ok s \<longleftrightarrow> distinct (map pid (s_sub s)) \<and> distinct (map getSource (s_sockets s))"

lemma havePID_tracked: "havePID s i \<longleftrightarrow> i \<in> tracked s"
  by (auto simp: havePID_def tracked_def list_ex_iff)

lemma haveSource_sources: "haveSource s src \<longleftrightarrow> src \<in> sources s"
  by (auto simp: haveSource_def sources_def list_ex_iff)

lemma tracked_addSub [simp]: "tracked (addSubProcess p s) = insert (pid p) (tracked s)"
proof (cases "list_ex (\<lambda>q. pid q = pid p) (s_sub s)")
  case True
  then have "pid p \<in> pid ` set (s_sub s)" by (simp add: list_ex_image)
  with True show ?thesis by (auto simp: addSubProcess_def tracked_def)
qed (auto simp: addSubProcess_def tracked_def)

lemma addSub_keeps [simp]:
  "s_main (addSubProcess p s) = s_main s" "s_sockets (addSubProcess p s) = s_sockets s"
  "s_name (addSubProcess p s) = s_name s" "s_type (addSubProcess p s) = s_type s"
  "s_uniqName (addSubProcess p s) = s_uniqName s" "s_cfg (addSubProcess p s) = s_cfg s"
  by (simp_all add: addSubProcess_def)

lemma serv_ok_addSub [inv_intros]: "serv_ok s \<Longrightarrow> serv_ok (addSubProcess p s)"
  by (auto simp: serv_ok_def addSubProcess_def list_ex_iff)

lemma serv_ok_main [simp]: "serv_ok (s\<lparr>s_main := m\<rparr>) = serv_ok s" "serv_ok (s\<lparr>s_name := n\<rparr>) = serv_ok s"
  "serv_ok (s\<lparr>s_cfg := c\<rparr>) = serv_ok s" "serv_ok (s\<lparr>s_uniqName := n\<rparr>) = serv_ok s"
  by (simp_all add: serv_ok_def)

text \<open>What one step of an operation keeps: the fields that identify the service and its sockets.\<close>

definition same_ident :: "'j service \<Rightarrow> 'j service \<Rightarrow> bool" where
  "same_ident s s' \<longleftrightarrow> s_sockets s' = s_sockets s \<and> s_type s' = s_type s \<and> s_uniqName s' = s_uniqName s \<and>
     s_cfg s' = s_cfg s \<and> (serv_ok s \<longrightarrow> serv_ok s')"

lemma same_ident_trans: "same_ident s t \<Longrightarrow> same_ident t u \<Longrightarrow> same_ident s u"
  by (simp add: same_ident_def)

lemma demote_step:
  assumes "demote w n q s = Inr s'"
  shows "tracked s' = insert (pid q) (tracked s) \<and> same_ident s s' \<and> s_name s' = s_name s"
proof -
  obtain pp where "s' = (if pp = n then addSubProcess q s else s\<lparr>s_main := s_main s @ [q]\<rparr>)"
    using assms by (auto simp: demote_def bindR_Inr_iff)
  then consider "s' = addSubProcess q s" | "s' = s\<lparr>s_main := s_main s @ [q]\<rparr>" by (metis (full_types))
  then show ?thesis
  proof cases
    case 1
    then show ?thesis by (simp add: same_ident_def serv_ok_addSub)
  next
    case 2
    then show ?thesis by (auto simp: tracked_def same_ident_def)
  qed
qed

lemma demote_all:
  assumes "foldR (demote w n) qs s = Inr s'"
  shows "tracked s' = pid ` set qs \<union> tracked s \<and> same_ident s s' \<and> s_name s' = s_name s"
  using assms
proof (induction qs arbitrary: s)
  case Nil
  then show ?case by (simp add: same_ident_def)
next
  case (Cons q qs)
  then obtain t where t: "demote w n q s = Inr t" "foldR (demote w n) qs t = Inr s'"
    by (auto simp: bindR_Inr_iff)
  from Cons.IH[OF t(2)] demote_step[OF t(1)] show ?case by (auto intro: same_ident_trans)
qed

lemma addMain_known:
  assumes "getPPID w p = Inr pp" "pid p \<noteq> 0"
  shows "addMainProcess w p s =
    (let s1 = (if s_main s = [] \<and> s_name s = [] then s\<lparr>s_name := base_name p\<rparr> else s) in
     if list_ex (\<lambda>q. pid q = pp) (s_main s1) then Inr (addSubProcess p s1)
     else bindR (foldR (demote w (pid p)) (s_main s1) (s1\<lparr>s_main := []\<rparr>)) (\<lambda>s2. Inr (s2\<lparr>s_main := s_main s2 @ [p]\<rparr>)))"
  using assms by (simp add: addMainProcess_def Let_def)

lemma addMainProcess_step:
  assumes "addMainProcess w p s = Inr s'"
  shows "tracked s' = insert (pid p) (tracked s)" "same_ident s s'"
    "s_name s \<noteq> [] \<Longrightarrow> s_name s' = s_name s"
proof -
  define s1 where "s1 = (if s_main s = [] \<and> s_name s = [] then s\<lparr>s_name := base_name p\<rparr> else s)"
  have s1: "tracked s1 = tracked s" "same_ident s s1" "s_name s \<noteq> [] \<longrightarrow> s_name s1 = s_name s"
    by (auto simp: s1_def tracked_def same_ident_def)
  have push: "tracked (u\<lparr>s_main := s_main u @ [p]\<rparr>) = insert (pid p) (tracked u) \<and>
      same_ident u (u\<lparr>s_main := s_main u @ [p]\<rparr>)" for u :: "'a service"
    by (auto simp: tracked_def same_ident_def)
  have "tracked s' = insert (pid p) (tracked s) \<and> same_ident s s' \<and> (s_name s \<noteq> [] \<longrightarrow> s_name s' = s_name s)"
  proof (cases "pid p = 0")
    case True
    then have "s' = s1\<lparr>s_main := s_main s1 @ [p]\<rparr>" using assms by (simp add: addMainProcess_def s1_def Let_def)
    with s1 push[of s1] show ?thesis by (auto intro: same_ident_trans)
  next
    case False
    then obtain pp where pp: "getPPID w p = Inr pp"
      using assms by (auto simp: addMainProcess_def Let_def bindR_Inr_iff)
    show ?thesis
    proof (cases "list_ex (\<lambda>q. pid q = pp) (s_main s1)")
      case True
      then have "s' = addSubProcess p s1" using assms addMain_known[OF pp False, of s] by (simp add: s1_def Let_def)
      with s1 show ?thesis by (auto simp: same_ident_def intro: serv_ok_addSub)
    next
      case nopar: False
      then obtain u where u: "foldR (demote w (pid p)) (s_main s1) (s1\<lparr>s_main := []\<rparr>) = Inr u"
          "s' = u\<lparr>s_main := s_main u @ [p]\<rparr>"
        using assms addMain_known[OF pp False, of s] by (auto simp: s1_def Let_def bindR_Inr_iff)
      from demote_all[OF u(1)] have "tracked u = tracked s1" "same_ident s1 u" "s_name u = s_name s1"
        by (auto simp: tracked_def same_ident_def)
      with s1 push[of u] u(2) show ?thesis by (auto intro: same_ident_trans)
    qed
  qed
  then show "tracked s' = insert (pid p) (tracked s)" "same_ident s s'" "s_name s \<noteq> [] \<Longrightarrow> s_name s' = s_name s"
    by simp_all
qed

section \<open>Sockets\<close>

text \<open>
  The identifier of a service is made of its first socket: type, address and port joined by
  underscores.
\<close>

theorem socket_key_form:
  assumes "CHR '':'' \<notin> set (sock_type k)"
  shows "socket_key k = Inr (sock_type k @ ''_'' @ addr_text (sock_type k) (sock_source k) @ ''_'' @
    to_string (unat (port (sock_source k))))"
proof -
  let ?ty = "sock_type k" and ?a = "addr_text (sock_type k) (sock_source k)"
    and ?p = "to_string (unat (port (sock_source k)))"
  have "str_find (getSource k) '':'' 0 = length ?ty"
    using str_find_char[OF assms, of "''//'' @ ?a @ '':'' @ ?p"] by (simp add: getSource_def)
  moreover have "getSource k = ?ty @ ''://'' @ ?a @ '':'' @ ?p" by (simp add: getSource_def)
  ultimately have "str_replace (getSource k) (str_find (getSource k) '':'' 0) 3 ''_'' = Inr (?ty @ ''_'' @ ?a @ '':'' @ ?p)"
    by (simp add: str_replace_def)
  moreover have "str_rfind (?ty @ ''_'' @ ?a @ '':'' @ ?p) (CHR '':'') = length (?ty @ ''_'' @ ?a)"
    using str_rfind_split[of "CHR '':''" ?p "?ty @ ''_'' @ ?a"] by simp
  ultimately show ?thesis by (simp add: socket_key_def Let_def str_replace_def)
qed

theorem socket_key_form_witness:
  "socket_key (zeroed_socket\<lparr>sock_type := ''tcp'', sock_source := zeroed_addr\<lparr>port := 80, ip1 := 127, ip4 := 1\<rparr>\<rparr>)
     = Inr ''tcp_127.0.0.1_80''"
  using socket_key_form[of "zeroed_socket\<lparr>sock_type := ''tcp'', sock_source := zeroed_addr\<lparr>port := 80, ip1 := 127, ip4 := 1\<rparr>\<rparr>"]
  by (simp add: addr_text_def zeroed_addr_def show_nat.simps digit_char_def)

lemma setSocket_step:
  assumes "setSocket k s = Inr s'"
  shows "sources s' = insert (getSource k) (sources s)" "tracked s' = tracked s" "s_main s' = s_main s"
    "s_name s' = s_name s" "s_type s' = s_type s" "s_cfg s' = s_cfg s" "serv_ok s \<Longrightarrow> serv_ok s'"
proof -
  obtain u where u: "s' = (let s1 = s\<lparr>s_uniqName := u\<rparr> in
      if list_ex (\<lambda>j. getSource j = getSource k) (s_sockets s1) then s1 else s1\<lparr>s_sockets := s_sockets s1 @ [k]\<rparr>)"
    using assms unfolding setSocket_def bindR_Inr_iff Let_def by blast
  have s': "s' = (if getSource k \<in> sources s then s\<lparr>s_uniqName := u\<rparr>
      else s\<lparr>s_uniqName := u, s_sockets := s_sockets s @ [k]\<rparr>)"
    unfolding u Let_def by (simp add: list_ex_image sources_def)
  then show "sources s' = insert (getSource k) (sources s)" "tracked s' = tracked s" "s_main s' = s_main s"
    "s_name s' = s_name s" "s_type s' = s_type s" "s_cfg s' = s_cfg s"
    by (auto simp: sources_def tracked_def)
  show "serv_ok s \<Longrightarrow> serv_ok s'" using s' by (auto simp: serv_ok_def sources_def)
qed

lemma copy_socket_step:
  assumes "copy_socket k s = Inr s'"
  shows "sources s' = insert (getSource k) (sources s)" "tracked s' = tracked s" "s_main s' = s_main s"
    "s_name s' = s_name s" "s_type s' = s_type s" "s_cfg s' = s_cfg s" "serv_ok s \<Longrightarrow> serv_ok s'"
proof -
  let ?s = "s\<lparr>s_sockets := erase_first (\<lambda>j. getSource j = getSource k) (s_sockets s)\<rparr>"
  note st = setSocket_step[OF assms[unfolded copy_socket_def]]
  have "insert (getSource k) (sources ?s) = insert (getSource k) (sources s)"
    using set_erase_first_subset[of _ "s_sockets s"] in_erase_first[of _ "s_sockets s" "\<lambda>j. getSource j = getSource k"]
    by (auto simp: sources_def image_iff)
  then show "sources s' = insert (getSource k) (sources s)" using st(1) by simp
  show "tracked s' = tracked s" "s_main s' = s_main s" "s_name s' = s_name s" "s_type s' = s_type s" "s_cfg s' = s_cfg s"
    using st by (simp_all add: tracked_def)
  show "serv_ok s \<Longrightarrow> serv_ok s'" using st(7) by (simp add: serv_ok_def distinct_map_erase_first)
qed

lemma copy_sockets:
  assumes "foldR copy_socket ks s = Inr s'"
  shows "sources s' = getSource ` set ks \<union> sources s \<and> tracked s' = tracked s \<and> s_name s' = s_name s \<and>
    s_type s' = s_type s \<and> s_cfg s' = s_cfg s \<and> (serv_ok s \<longrightarrow> serv_ok s')"
  using assms
proof (induction ks arbitrary: s)
  case (Cons k ks)
  then obtain t where t: "copy_socket k s = Inr t" "foldR copy_socket ks t = Inr s'"
    by (auto simp: bindR_Inr_iff)
  from Cons.IH[OF t(2)] copy_socket_step[OF t(1)] show ?case by auto
qed simp

section \<open>Merging what was detected into a known service\<close>

text \<open>Whether a process of this number runs.\<close>

definition alive :: "os \<Rightarrow> u32 \<Rightarrow> bool" where
  "alive w i \<longleftrightarrow> os_stat w (proc_path i []) \<noteq> None"

lemma getStatus_alive: "proc_getStatus w p \<longleftrightarrow> alive w (pid p)"
  by (simp add: proc_getStatus_def alive_def)

lemma tracked_erase:
  "i \<in> tracked s \<Longrightarrow> alive w i \<Longrightarrow>
   i \<in> tracked (s\<lparr>s_main := erase_first (\<lambda>q. \<not> proc_getStatus w q \<and> full_path q = x) (s_main s)\<rparr>)"
  using in_erase_first[of _ "s_main s" "\<lambda>q. \<not> proc_getStatus w q \<and> full_path q = x"]
  by (fastforce simp: tracked_def getStatus_alive)

lemma updateMainProcess_step:
  assumes "updateMainProcess w p s = Inr s'"
  shows "pid p \<in> tracked s'" "i \<in> tracked s \<Longrightarrow> alive w i \<Longrightarrow> i \<in> tracked s'"
    "tracked s' \<subseteq> insert (pid p) (tracked s)" "same_ident s s'" "s_name s \<noteq> [] \<Longrightarrow> s_name s' = s_name s"
proof -
  let ?s = "s\<lparr>s_main := erase_first (\<lambda>q. \<not> proc_getStatus w q \<and> full_path q = full_path p) (s_main s)\<rparr>"
  note st = addMainProcess_step[OF assms[unfolded updateMainProcess_def]]
  show "pid p \<in> tracked s'" using st(1) by simp
  show "i \<in> tracked s \<Longrightarrow> alive w i \<Longrightarrow> i \<in> tracked s'"
    using st(1) tracked_erase[of i s w "full_path p"] by simp
  have "tracked ?s \<subseteq> tracked s"
    using set_erase_first_subset[of _ "s_main s"] by (auto simp: tracked_def)
  then show "tracked s' \<subseteq> insert (pid p) (tracked s)" using st(1) by auto
  show "same_ident s s'" "s_name s \<noteq> [] \<Longrightarrow> s_name s' = s_name s"
    using st(2,3) by (simp_all add: same_ident_def)
qed

lemma updateMainProcesses:
  assumes "foldR (updateMainProcess w) ps s = Inr s'" "\<forall>p \<in> set ps. alive w (pid p)"
  shows "pid ` set ps \<subseteq> tracked s' \<and> {i \<in> tracked s. alive w i} \<subseteq> tracked s' \<and>
    tracked s' \<subseteq> pid ` set ps \<union> tracked s \<and> same_ident s s' \<and> (s_name s \<noteq> [] \<longrightarrow> s_name s' = s_name s)"
  using assms
proof (induction ps arbitrary: s)
  case Nil
  then show ?case by (simp add: same_ident_def)
next
  case (Cons p ps)
  then obtain t where t: "updateMainProcess w p s = Inr t" "foldR (updateMainProcess w) ps t = Inr s'"
    by (auto simp: bindR_Inr_iff)
  have IH: "pid ` set ps \<subseteq> tracked s'" "{i \<in> tracked t. alive w i} \<subseteq> tracked s'"
      "tracked s' \<subseteq> pid ` set ps \<union> tracked t" "same_ident t s'" "s_name t \<noteq> [] \<longrightarrow> s_name s' = s_name t"
    using Cons.IH[OF t(2)] Cons.prems(2) by auto
  note st = updateMainProcess_step[OF t(1)]
  have "pid p \<in> tracked s'" using IH(2) st(1) Cons.prems(2) by auto
  moreover have "{i \<in> tracked s. alive w i} \<subseteq> tracked s'" using IH(2) st(2) by auto
  ultimately show ?case using IH st(3-5) by (auto intro: same_ident_trans)
qed

lemma updateFrom_parts:
  assumes "updateFrom J w src s = Inr s'"
  obtains s1 s2 where "foldR (updateMainProcess w) (s_main src) s = Inr s1" "foldR copy_socket (s_sockets src) s1 = Inr s2"
    "s' = s2\<lparr>s_cfg := copy_collectors_cfg J (s_cfg src) (s_cfg s2)\<rparr>"
  using assms by (auto simp: updateFrom_def bindR_Inr_iff)

lemma updateFrom_step:
  assumes "updateFrom J w src s = Inr s'" "\<forall>p \<in> set (s_main src). alive w (pid p)"
  shows "pid ` set (s_main src) \<subseteq> tracked s'" "{i \<in> tracked s. alive w i} \<subseteq> tracked s'"
    "tracked s' \<subseteq> pid ` set (s_main src) \<union> tracked s" "sources s' = sources src \<union> sources s"
    "serv_ok s \<Longrightarrow> serv_ok s'" "s_name s \<noteq> [] \<Longrightarrow> s_name s' = s_name s" "s_type s' = s_type s"
proof -
  obtain s1 s2 where u: "foldR (updateMainProcess w) (s_main src) s = Inr s1" "foldR copy_socket (s_sockets src) s1 = Inr s2"
    "s' = s2\<lparr>s_cfg := copy_collectors_cfg J (s_cfg src) (s_cfg s2)\<rparr>"
    using updateFrom_parts[OF assms(1)] by blast
  note m = updateMainProcesses[OF u(1) assms(2)] and c = copy_sockets[OF u(2)]
  have t: "tracked s' = tracked s1" "sources s' = sources s2" "s_name s' = s_name s1" "s_type s' = s_type s1"
    using c u(3) by (simp_all add: tracked_def sources_def)
  show "pid ` set (s_main src) \<subseteq> tracked s'" "{i \<in> tracked s. alive w i} \<subseteq> tracked s'"
    "tracked s' \<subseteq> pid ` set (s_main src) \<union> tracked s" "s_name s \<noteq> [] \<Longrightarrow> s_name s' = s_name s" "s_type s' = s_type s"
    using m t by (simp_all add: same_ident_def)
  show "sources s' = sources src \<union> sources s"
    using c m t(2) by (simp add: same_ident_def) (simp add: sources_def)
  show "serv_ok s \<Longrightarrow> serv_ok s'" using c m u(3) by (simp add: same_ident_def)
qed

lemma service_eq_iff:
  "service_eq s t \<longleftrightarrow> s_name s = s_name t \<and> s_type s = s_type t \<and> sources s \<subseteq> sources t"
  by (auto simp: service_eq_def list_all_iff haveSource_sources sources_def)

text \<open>
  C2: merging a detected service into a known one, under whatever name the two go. The main processes
  of the detected service are tracked afterwards, and so is every running process the known one
  tracked; nothing else is, in particular a child of the detected service that the known one did not
  track is not taken over. The sockets are exactly those of both, the invariant and the type stay,
  and a name once given stays; then the detected service is equal to the result exactly when the two
  had the same name and type, which is when the next detection finds it again by equality.
\<close>

theorem updateFrom_merges:
  assumes "updateFrom J w src s = Inr s'" "\<forall>p \<in> set (s_main src). alive w (pid p)" "serv_ok s"
  shows "serv_ok s' \<and> (\<forall>p \<in> set (s_main src). havePID s' (pid p)) \<and>
    (\<forall>i. havePID s i \<and> alive w i \<longrightarrow> havePID s' i) \<and>
    (\<forall>i. havePID s' i \<longrightarrow> havePID s i \<or> i \<in> pid ` set (s_main src)) \<and>
    (\<forall>q \<in> set (s_sub src). pid q \<notin> pid ` set (s_main src) \<and> \<not> havePID s (pid q) \<longrightarrow> \<not> havePID s' (pid q)) \<and>
    (\<forall>k. haveSource s' k \<longleftrightarrow> haveSource s k \<or> haveSource src k) \<and> s_type s' = s_type s \<and>
    (s_name s \<noteq> [] \<longrightarrow> s_name s' = s_name s \<and>
      (service_eq src s' \<longleftrightarrow> s_name src = s_name s \<and> s_type src = s_type s))"
proof -
  note st = updateFrom_step[OF assms(1,2)]
  have "service_eq src s' \<longleftrightarrow> s_name src = s_name s \<and> s_type src = s_type s" if "s_name s \<noteq> []"
    using st(4,7) st(6)[OF that] by (auto simp: service_eq_iff)
  moreover have "\<not> havePID s' i" if "i \<notin> pid ` set (s_main src)" "\<not> havePID s i" for i
    using st(3) that by (auto simp: havePID_tracked)
  ultimately show ?thesis
    using st assms(3) by (simp add: havePID_tracked haveSource_sources image_subset_iff) blast
qed

text \<open>A pair of services for the witnesses: one known from its configuration, one detected.\<close>

definition demo_os :: os where
  "demo_os = bare_os\<lparr>os_stat := \<lambda>f. if f = ''/proc/42'' then Some True else None\<rparr>"

definition demo_process :: "u32 \<Rightarrow> process" where
  "demo_process i = \<lparr>pid = i, username = [], full_path = ''/usr/sbin/nginx'', base_name = ''nginx'', cwd = [], sockets = [7]\<rparr>"

definition demo_socket :: socket where
  "demo_socket = zeroed_socket\<lparr>sock_id := 7, sock_type := ''tcp'', sock_source := zeroed_addr\<lparr>port := 80\<rparr>\<rparr>"

definition demo_known :: "jv service" where
  "demo_known = (blank_service ref_json [])\<lparr>s_name := ''nginx'', s_uniqName := ''web'', s_main := [demo_process 0]\<rparr>"

definition demo_found :: "jv service" where
  "demo_found = (blank_service ref_json [])\<lparr>s_name := ''nginx'', s_uniqName := ''found'', s_main := [demo_process 42], s_sockets := [demo_socket]\<rparr>"

lemma demo_alive: "alive demo_os 42" "\<not> alive demo_os 0"
  using proc_path_42[of "[]"] by (simp_all add: alive_def demo_os_def proc_path_def show_nat.simps digit_char_def)

lemma demo_updateFrom:
  "updateFrom ref_json demo_os demo_found demo_known =
     Inr (demo_known\<lparr>s_main := [demo_process 42], s_sockets := [demo_socket]\<rparr>)"
proof -
  have "\<not> proc_getStatus demo_os (demo_process 0)" by (simp add: getStatus_alive demo_alive demo_process_def)
  moreover have "getPPID demo_os (demo_process 42) = Inr 0"
    by (simp add: getPPID_def file_lines_def demo_os_def bare_os_def)
  ultimately show ?thesis
    by (simp add: updateFrom_def updateMainProcess_def demo_found_def demo_known_def blank_service_def addMainProcess_def
        copy_socket_def setSocket_def copy_collectors_cfg_def demo_process_def)
qed

text \<open>
  The detected service has a child, process 43, and is merged into a service of its own name and
  into one of another name: process 42 is taken over in both, the child in neither, and only the
  first result is equal to it.
\<close>

definition demo_other :: "jv service" where
  "demo_other = demo_known\<lparr>s_name := ''proxy''\<rparr>"

lemma demo_updateFrom_other:
  "updateFrom ref_json demo_os (demo_found\<lparr>s_sub := [demo_process 43]\<rparr>) demo_other =
     Inr (demo_other\<lparr>s_main := [demo_process 42], s_sockets := [demo_socket]\<rparr>)"
proof -
  have "\<not> proc_getStatus demo_os (demo_process 0)" by (simp add: getStatus_alive demo_alive demo_process_def)
  moreover have "getPPID demo_os (demo_process 42) = Inr 0"
    by (simp add: getPPID_def file_lines_def demo_os_def bare_os_def)
  ultimately show ?thesis
    by (simp add: updateFrom_def updateMainProcess_def demo_found_def demo_known_def demo_other_def blank_service_def
        addMainProcess_def copy_socket_def setSocket_def copy_collectors_cfg_def demo_process_def)
qed

theorem updateFrom_merges_witness:
  "(\<exists>s'. updateFrom ref_json demo_os demo_found demo_known = Inr s' \<and> havePID s' 42 \<and> service_eq demo_found s') \<and>
   (\<exists>s'. updateFrom ref_json demo_os (demo_found\<lparr>s_sub := [demo_process 43]\<rparr>) demo_other = Inr s' \<and>
      havePID s' 42 \<and> \<not> havePID s' 43 \<and> haveSource s' (getSource demo_socket) \<and>
      \<not> service_eq (demo_found\<lparr>s_sub := [demo_process 43]\<rparr>) s')"
  using updateFrom_merges[OF demo_updateFrom] demo_updateFrom updateFrom_merges[OF demo_updateFrom_other] demo_updateFrom_other
  by (simp add: demo_alive demo_found_def demo_known_def demo_other_def demo_process_def blank_service_def serv_ok_def
      havePID_tracked tracked_def haveSource_sources sources_def)

text \<open>
  The processes a service reports for its collectors are its main processes and its running
  children; the children that ended are forgotten and nothing else changes.
\<close>

theorem getPIDs_live:
  assumes "getPIDs w s = (s', pids)"
  shows "pids = map pid (s_main s) @ map pid (s_sub s') \<and> (\<forall>q \<in> set (s_sub s'). alive w (pid q)) \<and>
    (\<forall>i. alive w i \<and> havePID s i \<longrightarrow> i \<in> set pids) \<and> s_main s' = s_main s \<and> (serv_ok s \<longrightarrow> serv_ok s')"
proof -
  have s': "s' = s\<lparr>s_sub := filter (proc_getStatus w) (s_sub s)\<rparr>"
      "pids = map pid (s_main s) @ map pid (filter (proc_getStatus w) (s_sub s))"
    using assms by (auto simp: getPIDs_def Let_def)
  have "i \<in> set pids" if "alive w i" "havePID s i" for i
    using that s'(2) by (auto simp: havePID_tracked tracked_def getStatus_alive)
  then show ?thesis using s' by (auto simp: getStatus_alive serv_ok_def distinct_map_filter)
qed

theorem getPIDs_live_witness:
  "snd (getPIDs demo_os (demo_found\<lparr>s_sub := [demo_process 0]\<rparr>)) = [42]"
proof -
  let ?s = "demo_found\<lparr>s_sub := [demo_process 0]\<rparr>"
  have "s_sub (fst (getPIDs demo_os ?s)) = []"
    by (simp add: getPIDs_def getStatus_alive demo_alive demo_process_def)
  with getPIDs_live[of demo_os ?s "fst (getPIDs demo_os ?s)" "snd (getPIDs demo_os ?s)"] show ?thesis
    by (simp add: demo_found_def demo_process_def)
qed

end
