(* ===== verification/ServicesManager.thy ===== *)
theory ServicesManager
  imports Services
begin

text \<open>
  The registry of services (src/servicesManager.cpp) and the detector that fills it from the
  listening sockets of the machine. The enhancers are Lua scripts, a parameter: each may replace a
  service by another. The state holds the services, the configuration templates written so far and
  the object counters.
\<close>

section \<open>The registry\<close>

record 'j manager =
  m_services :: "'j service list"
  m_templates :: "(string \<times> string) list"
  m_counters :: counters

type_synonym 'j enhancer = "'j service \<Rightarrow> 'j service option"

definition enhance_all :: "'j enhancer list \<Rightarrow> 'j service \<Rightarrow> 'j service" where
  "enhance_all es s = fold (\<lambda>e a. case e a of Some a' \<Rightarrow> a' | None \<Rightarrow> a) es s"

definition addService ::
  "'j jsonlib \<Rightarrow> os \<Rightarrow> 'j enhancer list \<Rightarrow> string \<Rightarrow> 'j service \<Rightarrow> 'j manager \<Rightarrow> 'j manager res" where
  "addService J w es dir p_serv m =
     (let add = enhance_all es p_serv in
      if list_ex (\<lambda>s. service_eq add s) (m_services m)
      then bindR (update_firstR (\<lambda>s. service_eq add s) (updateFrom J w add) (m_services m)) (\<lambda>ss.
           Inr (m\<lparr>m_services := ss\<rparr>))
      else if list_ex (\<lambda>s. needSocketFrom w s add) (m_services m)
      then bindR (update_firstR (\<lambda>s. needSocketFrom w s add) (updateFrom J w add) (m_services m)) (\<lambda>ss.
           Inr (m\<lparr>m_services := ss\<rparr>))
      else let (add', file) = saveConfigTemplate J dir add
           in Inr (m\<lparr>m_services := m_services m @ [add'], m_templates := m_templates m @ [file]\<rparr>))"

definition mgr_haveSocket :: "os \<Rightarrow> 'j manager \<Rightarrow> u32 \<Rightarrow> bool" where
  "mgr_haveSocket w m i = list_ex (\<lambda>s. serv_haveSocket w s i) (m_services m)"

definition mgr_havePID :: "'j manager \<Rightarrow> u32 \<Rightarrow> bool" where
  "mgr_havePID m i = list_ex (\<lambda>s. havePID s i) (m_services m)"

definition mgr_getService :: "'j manager \<Rightarrow> u32 \<Rightarrow> 'j service option" where
  "mgr_getService m i = List.find (\<lambda>s. havePID s i) (m_services m)"

definition handleSubProcess :: "os \<Rightarrow> process \<Rightarrow> 'j manager \<Rightarrow> 'j manager res" where
  "handleSubProcess w p m =
     bindR (getPPID w p) (\<lambda>ppid.
     Inr (m\<lparr>m_services := update_first (\<lambda>s. havePID s ppid) (addSubProcess p) (m_services m)\<rparr>))"

section \<open>The socket detector\<close>

fun matchList :: "'j jsonlib \<Rightarrow> process \<Rightarrow> 'j list \<Rightarrow> bool res" where
  "matchList J p [] = Inr False"
| "matchList J p (l # ls) =
     bindR (if j_member J l ''path''
            then bindR (j_asString J (j_get J l ''path'')) (\<lambda>x. Inr (full_path p = x)) else Inr False) (\<lambda>m1.
     bindR (if j_member J l ''name''
            then bindR (j_asString J (j_get J l ''name'')) (\<lambda>x. Inr (base_name p = x)) else Inr m1) (\<lambda>m2.
     if m2 then Inr True else matchList J p ls))"

definition ignoreLoopback :: "'j jsonlib \<Rightarrow> 'j \<Rightarrow> bool" where
  "ignoreLoopback J cfg =
     list_ex (\<lambda>l. j_member J l ''interface'' \<and> j_eq J (j_get J l ''interface'') (j_string J ''loopback''))
       (j_elems J (j_get J cfg ''blackList''))"

text \<open>One line of a socket table of /proc/net.\<close>

definition read_socket :: "socket \<Rightarrow> bool \<Rightarrow> string \<Rightarrow> string \<Rightarrow> socket list \<Rightarrow> socket list res" where
  "read_socket mem skipLo ty line acc =
     bindR (vec_at (tokens line) 3) (\<lambda>st.
     if st \<noteq> ''0A'' \<and> take 3 ty = ''tcp'' then Inr acc
     else if st \<noteq> ''07'' \<and> take 3 ty = ''udp'' then Inr acc
     else bindR (socket_of_line mem line ty) (\<lambda>s.
       if skipLo \<and> isLoopBack s then Inr acc else Inr (acc @ [s])))"

definition net_files :: "(string, string) smap" where
  "net_files = [(''tcp'', ''/proc/net/tcp''), (''tcp6'', ''/proc/net/tcp6''),
                (''udp'', ''/proc/net/udp''), (''udp6'', ''/proc/net/udp6'')]"

definition read_sockets :: "os \<Rightarrow> socket \<Rightarrow> bool \<Rightarrow> socket list res" where
  "read_sockets w mem skipLo =
     foldR (\<lambda>(ty, f). foldR (read_socket mem skipLo ty) (file_lines w f)) net_files []"

text \<open>The sockets a service listens on, among the ones found.\<close>

definition claim_sockets :: "os \<Rightarrow> socket list \<Rightarrow> 'j service \<Rightarrow> 'j service res" where
  "claim_sockets w ss s =
     foldR (\<lambda>k s. if serv_haveSocket w s (sock_id k) then setSocket k s else Inr s) ss s"

text \<open>A process that belongs to a service already: its sockets are read again.\<close>

definition refresh_process :: "os \<Rightarrow> u32 \<Rightarrow> 'j service \<Rightarrow> 'j service res" where
  "refresh_process w i s =
     (if list_ex (\<lambda>q. pid q = i) (s_main s)
      then bindR (update_firstR (\<lambda>q. pid q = i) (setSockets w) (s_main s)) (\<lambda>ps. Inr (s\<lparr>s_main := ps\<rparr>))
      else bindR (update_firstR (\<lambda>q. pid q = i) (setSockets w) (s_sub s)) (\<lambda>ps. Inr (s\<lparr>s_sub := ps\<rparr>)))"

definition refresh_service :: "'j jsonlib \<Rightarrow> os \<Rightarrow> socket list \<Rightarrow> u32 \<Rightarrow> 'j service \<Rightarrow> 'j service res" where
  "refresh_service J w ss i s =
     bindR (refresh_process w i s) (\<lambda>s1. bindR (claim_sockets w ss s1) (\<lambda>s2. Inr (setDefaultConfig J s2)))"

definition template_of :: "'j jsonlib \<Rightarrow> string \<Rightarrow> 'j service option \<Rightarrow> (string \<times> string) list" where
  "template_of J dir so = (case so of None \<Rightarrow> [] | Some s \<Rightarrow> [template_file J dir s])"

text \<open>A service made of one new process and the first socket found that it has open.\<close>

definition detect_service ::
  "'j jsonlib \<Rightarrow> os \<Rightarrow> 'j enhancer list \<Rightarrow> string \<Rightarrow> socket list \<Rightarrow> process \<Rightarrow> 'j manager \<Rightarrow> 'j manager res" where
  "detect_service J w es dir ss p m =
     (case List.find (\<lambda>k. proc_haveSocket p (sock_id k)) ss of
        None \<Rightarrow> Inr m
      | Some k \<Rightarrow>
          let (s0, cs) = new_service J w (m_counters m) in
          bindR (setSocket k s0) (\<lambda>s1.
          bindR (addMainProcess w p s1) (\<lambda>s2.
          bindR (claim_sockets w ss s2) (\<lambda>s3.
          addService J w es dir s3 (m\<lparr>m_counters := cs\<rparr>)))))"

definition detect_process ::
  "'j jsonlib \<Rightarrow> os \<Rightarrow> 'j enhancer list \<Rightarrow> string \<Rightarrow> 'j list \<Rightarrow> socket list \<Rightarrow> u32 \<Rightarrow> 'j manager \<Rightarrow> 'j manager res" where
  "detect_process J w es dir blackList ss i m =
     (if mgr_havePID m i
      then bindR (update_firstR (\<lambda>s. havePID s i) (refresh_service J w ss i) (m_services m)) (\<lambda>sv.
           Inr (m\<lparr>m_services := sv,
                 m_templates := m_templates m @ template_of J dir (List.find (\<lambda>s. havePID s i) sv)\<rparr>))
      else
        bindR (process_of_pid w i) (\<lambda>p.
        bindR (getPPID w p) (\<lambda>ppid.
        if mgr_havePID m ppid then handleSubProcess w p m
        else
          bindR (matchList J p blackList) (\<lambda>black.
          if black then Inr m
          else bindR (setSockets w p) (\<lambda>p'. detect_service J w es dir ss p' m)))))"

definition socket_find ::
  "'j jsonlib \<Rightarrow> os \<Rightarrow> socket \<Rightarrow> 'j enhancer list \<Rightarrow> string \<Rightarrow> 'j \<Rightarrow> 'j manager \<Rightarrow> 'j manager res" where
  "socket_find J w mem es dir cfg m =
     bindR (read_sockets w mem (ignoreLoopback J cfg)) (\<lambda>ss.
     if ss = [] then Inr m
     else case os_readdir w ''/proc/'' of
       None \<Rightarrow> Inr m
     | Some ents \<Rightarrow>
         foldR (\<lambda>ent. detect_process J w es dir (j_elems J (j_get J cfg ''blackList'')) ss (atoi ent))
           (filter (list_all is_digit) ents) m)"

section \<open>A registry of processes\<close>

definition owned :: "('s \<Rightarrow> u32 set) \<Rightarrow> 's list \<Rightarrow> u32 set" where
  "owned owns ss = (\<Union>s \<in> set ss. owns s)"

fun exclusive :: "('s \<Rightarrow> u32 set) \<Rightarrow> 's list \<Rightarrow> bool" where
  "exclusive owns [] = True"
| "exclusive owns (s # ss) = (owns s \<inter> owned owns ss \<subseteq> {0} \<and> exclusive owns ss)"

text \<open>
  What the registry relies on: adding a child to a service and merging a service into another keep
  the running processes of the service, add the processes they are given and no others, and keep
  the invariant of a service.
\<close>

locale registry =
  fixes owns :: "'s \<Rightarrow> u32 set"
    and inv :: "'s \<Rightarrow> bool"
    and live :: "u32 \<Rightarrow> bool"
    and adopt :: "process \<Rightarrow> 's \<Rightarrow> 's"
    and merge :: "'s \<Rightarrow> 's \<Rightarrow> 's res"
    and mains :: "'s \<Rightarrow> u32 set"
  assumes adopt_owns: "owns (adopt p s) = insert (pid p) (owns s)"
    and adopt_inv: "inv s \<Longrightarrow> inv (adopt p s)"
    and merge_owns: "merge a s = Inr s' \<Longrightarrow> \<forall>i \<in> mains a. live i \<Longrightarrow>
      mains a \<subseteq> owns s' \<and> {i \<in> owns s. live i} \<subseteq> owns s' \<and> owns s' \<subseteq> mains a \<union> owns s"
    and merge_inv: "merge a s = Inr s' \<Longrightarrow> \<forall>i \<in> mains a. live i \<Longrightarrow> inv s \<Longrightarrow> inv s'"
begin

lemma owned_split: "owned owns (us @ x # vs) = owned owns us \<union> owns x \<union> owned owns vs"
  by (auto simp: owned_def)

lemma exclusive_split:
  "exclusive owns (us @ x # vs) \<longleftrightarrow> exclusive owns us \<and> exclusive owns vs \<and>
     owns x \<inter> (owned owns us \<union> owned owns vs) \<subseteq> {0} \<and> owned owns us \<inter> owned owns vs \<subseteq> {0}"
  by (induction us) (auto simp: owned_def)

lemma exclusive_grow:
  assumes "exclusive owns (us @ x # vs)" "owns y \<subseteq> N \<union> owns x" "N \<inter> owned owns (us @ x # vs) \<subseteq> {0}"
  shows "exclusive owns (us @ y # vs)"
  using assms unfolding exclusive_split owned_split by blast

text \<open>The services are well formed and, when \<open>ex\<close> asks for it, no process number but 0 belongs to two of them.\<close>

definition reg_ok :: "bool \<Rightarrow> 's list \<Rightarrow> bool" where
  "reg_ok ex ss \<longleftrightarrow> (\<forall>s \<in> set ss. inv s) \<and> (ex \<longrightarrow> exclusive owns ss)"

lemma adopt_first:
  assumes "reg_ok ex ss" "i \<in> owned owns ss" "pid p \<notin> owned owns ss"
  shows "reg_ok ex (update_first (\<lambda>s. i \<in> owns s) (adopt p) ss) \<and>
    owned owns (update_first (\<lambda>s. i \<in> owns s) (adopt p) ss) = insert (pid p) (owned owns ss)"
proof -
  have "list_ex (\<lambda>s. i \<in> owns s) ss" using assms(2) by (auto simp: owned_def list_ex_iff)
  then obtain us x vs where ss: "ss = us @ x # vs"
      "update_first (\<lambda>s. i \<in> owns s) (adopt p) ss = us @ adopt p x # vs"
    using update_first_split[of "\<lambda>s. i \<in> owns s" ss] by metis
  have "ex \<longrightarrow> exclusive owns (us @ adopt p x # vs)"
    using assms exclusive_grow[of us x vs "adopt p x" "{pid p}"] ss(1) by (auto simp: reg_ok_def adopt_owns)
  then show ?thesis using assms(1) ss by (auto simp: reg_ok_def adopt_inv owned_split adopt_owns)
qed

lemma merge_first:
  assumes "reg_ok ex ss" "update_firstR P (merge a) ss = Inr ss'" "list_ex P ss"
    and "\<forall>i \<in> mains a. live i" "mains a \<inter> owned owns ss \<subseteq> {0}"
  shows "reg_ok ex ss' \<and> mains a \<subseteq> owned owns ss' \<and> {i \<in> owned owns ss. live i} \<subseteq> owned owns ss' \<and>
    length ss' = length ss"
proof -
  obtain us x vs y where s: "ss = us @ x # vs" "merge a x = Inr y" "ss' = us @ y # vs"
    using update_firstR_split[OF assms(2,3)] by metis
  note m = merge_owns[OF s(2) assms(4)] and inv = merge_inv[OF s(2) assms(4)]
  have "ex \<longrightarrow> exclusive owns ss'" using exclusive_grow[of us x vs y "mains a"] m assms(1,5) s by (simp add: reg_ok_def)
  moreover have "{i \<in> owned owns ss. live i} \<subseteq> owned owns ss'" "mains a \<subseteq> owned owns ss'"
    using m s by (auto simp: owned_split)
  ultimately show ?thesis using assms(1) inv s by (auto simp: reg_ok_def)
qed

lemma append_new:
  assumes "reg_ok ex ss" "inv a" "owns a \<inter> owned owns ss \<subseteq> {0}"
  shows "reg_ok ex (ss @ [a]) \<and> owned owns (ss @ [a]) = owned owns ss \<union> owns a"
  using assms exclusive_split[of ss a "[]"] by (auto simp: reg_ok_def owned_def)

lemma same_first:
  assumes "reg_ok ex ss" "update_firstR P f ss = Inr ss'"
    and "\<And>s s'. s \<in> set ss \<Longrightarrow> f s = Inr s' \<Longrightarrow> owns s' = owns s \<and> inv s'"
  shows "reg_ok ex ss' \<and> owned owns ss' = owned owns ss"
proof (cases "list_ex P ss")
  case True
  obtain us x vs y where s: "ss = us @ x # vs" "f x = Inr y" "ss' = us @ y # vs"
    using update_firstR_split[OF assms(2) True] by metis
  then have "owns y = owns x \<and> inv y" using assms(3)[of x y] by simp
  then show ?thesis using assms(1) s by (auto simp: reg_ok_def exclusive_split owned_split)
next
  case False
  then show ?thesis using assms(1,2) by (simp add: update_firstR_none)
qed

end

interpretation sr: registry tracked serv_ok "alive w" addSubProcess "updateFrom J w" "\<lambda>a. pid ` set (s_main a)"
  for J :: "'j jsonlib" and w
proof (unfold_locales, goal_cases)
  case (1 p s)
  then show ?case by simp
next
  case (2 s p)
  then show ?case by (rule serv_ok_addSub)
next
  case (3 a s s')
  then show ?case using updateFrom_step(1-3)[of J w a s s'] by auto
next
  case (4 a s s')
  then show ?case using updateFrom_step(5)[of J w a s s'] by auto
qed

section \<open>What detection keeps\<close>

definition mgr_ok :: "'j manager \<Rightarrow> bool" where
  "mgr_ok m \<longleftrightarrow> (\<forall>s \<in> set (m_services m). serv_ok s) \<and> exclusive tracked (m_services m)"

text \<open>The same with the second part only when \<open>ex\<close> asks for it: what the steps of a detector keep of it, they keep of each part alone.\<close>

definition mgr_inv :: "bool \<Rightarrow> 'j manager \<Rightarrow> bool" where
  "mgr_inv ex m \<longleftrightarrow> (\<forall>s \<in> set (m_services m). serv_ok s) \<and> (ex \<longrightarrow> exclusive tracked (m_services m))"

lemma mgr_inv_reg: "mgr_inv ex m \<longleftrightarrow> sr.reg_ok ex (m_services m)"
  by (simp add: mgr_inv_def sr.reg_ok_def)

lemma mgr_ok_inv: "mgr_ok m \<longleftrightarrow> mgr_inv True m"
  by (simp add: mgr_ok_def mgr_inv_def)

lemma mgr_havePID_owned: "mgr_havePID m i \<longleftrightarrow> i \<in> owned tracked (m_services m)"
  by (auto simp: mgr_havePID_def owned_def list_ex_iff havePID_tracked)

lemma setDefaultConfig_keeps [simp]:
  "tracked (setDefaultConfig J s) = tracked s" "serv_ok (setDefaultConfig J s) = serv_ok s"
  "s_main (setDefaultConfig J s) = s_main s" "s_sub (setDefaultConfig J s) = s_sub s"
  by (simp_all add: setDefaultConfig_def tracked_def)

lemma claim_sockets_step:
  assumes "claim_sockets w ks s = Inr s'"
  shows "tracked s' = tracked s \<and> s_main s' = s_main s \<and> (serv_ok s \<longrightarrow> serv_ok s')"
proof -
  have "tracked x = tracked s \<and> s_main x = s_main s \<and> (serv_ok s \<longrightarrow> serv_ok x)"
    if "foldR (\<lambda>k s. if serv_haveSocket w s (sock_id k) then setSocket k s else Inr s) ks s = Inr x" for x
  proof (rule foldR_invariant[where P = "\<lambda>x. tracked x = tracked s \<and> s_main x = s_main s \<and> (serv_ok s \<longrightarrow> serv_ok x)", OF _ _ that])
    fix k x x'
    assume "tracked x = tracked s \<and> s_main x = s_main s \<and> (serv_ok s \<longrightarrow> serv_ok x)"
      "(if serv_haveSocket w x (sock_id k) then setSocket k x else Inr x) = Inr x'"
    then show "tracked x' = tracked s \<and> s_main x' = s_main s \<and> (serv_ok s \<longrightarrow> serv_ok x')"
      using setSocket_step[of k x x'] by (auto split: if_splits)
  qed simp
  then show ?thesis using assms by (simp add: claim_sockets_def)
qed

lemma update_firstR_map:
  assumes "update_firstR P f xs = Inr ys" "\<And>x y. f x = Inr y \<Longrightarrow> g y = g x"
  shows "map g ys = map g xs"
proof (cases "list_ex P xs")
  case True
  then obtain us x vs y where "xs = us @ x # vs" "f x = Inr y" "ys = us @ y # vs"
    using update_firstR_split[OF assms(1)] by metis
  with assms(2) show ?thesis by simp
qed (use assms(1) in \<open>simp add: update_firstR_none\<close>)

lemma pids_update:
  assumes "update_firstR (\<lambda>q. pid q = i) (setSockets w) qs = Inr ps"
  shows "map pid ps = map pid qs" "pid ` set ps = pid ` set qs"
proof -
  show "map pid ps = map pid qs" using update_firstR_map[OF assms] setSockets_pid by blast
  then show "pid ` set ps = pid ` set qs" by (metis list.set_map)
qed

lemma refresh_process_step:
  assumes "refresh_process w i s = Inr s'"
  shows "tracked s' = tracked s \<and> serv_ok s' = serv_ok s"
proof (cases "list_ex (\<lambda>q. pid q = i) (s_main s)")
  case True
  then obtain ps where "update_firstR (\<lambda>q. pid q = i) (setSockets w) (s_main s) = Inr ps" "s' = s\<lparr>s_main := ps\<rparr>"
    using assms by (auto simp: refresh_process_def bindR_Inr_iff)
  with pids_update show ?thesis by (simp add: tracked_def)
next
  case False
  then obtain ps where "update_firstR (\<lambda>q. pid q = i) (setSockets w) (s_sub s) = Inr ps" "s' = s\<lparr>s_sub := ps\<rparr>"
    using assms by (auto simp: refresh_process_def bindR_Inr_iff)
  with pids_update show ?thesis by (simp add: tracked_def serv_ok_def)
qed

lemma refresh_service_step:
  assumes "refresh_service J w ks i s = Inr s'"
  shows "tracked s' = tracked s \<and> (serv_ok s \<longrightarrow> serv_ok s')"
proof -
  obtain s1 s2 where "refresh_process w i s = Inr s1" "claim_sockets w ks s1 = Inr s2" "s' = setDefaultConfig J s2"
    using assms by (auto simp: refresh_service_def bindR_Inr_iff)
  then show ?thesis using refresh_process_step claim_sockets_step by (metis setDefaultConfig_keeps(1,2))
qed

text \<open>
  What is assumed of the Lua scripts that enhance a service: they may rename it or set its type, but
  leave its processes alone and keep it well formed.
\<close>

definition enhancer_ok :: "'j enhancer \<Rightarrow> bool" where
  "enhancer_ok e \<longleftrightarrow>
     (\<forall>a a'. e a = Some a' \<longrightarrow> s_main a' = s_main a \<and> s_sub a' = s_sub a \<and> (serv_ok a \<longrightarrow> serv_ok a'))"

lemma enhance_all_keeps:
  assumes "list_all enhancer_ok es"
  shows "s_main (enhance_all es a) = s_main a \<and> s_sub (enhance_all es a) = s_sub a \<and>
    (serv_ok a \<longrightarrow> serv_ok (enhance_all es a))"
  using assms
proof (induction es arbitrary: a)
  case (Cons e es)
  then show ?case by (cases "e a") (auto simp: enhance_all_def enhancer_ok_def)
qed (simp add: enhance_all_def)

lemma addService_step:
  assumes "addService J w es dir a m = Inr m'" "mgr_inv ex m" "list_all enhancer_ok es" "serv_ok a" "s_sub a = []"
    and "\<forall>p \<in> set (s_main a). alive w (pid p)" "pid ` set (s_main a) \<inter> owned tracked (m_services m) \<subseteq> {0}"
  shows "mgr_inv ex m' \<and> pid ` set (s_main a) \<subseteq> owned tracked (m_services m') \<and>
    {i \<in> owned tracked (m_services m). alive w i} \<subseteq> owned tracked (m_services m') \<and>
    length (m_services m') \<le> Suc (length (m_services m))"
proof -
  let ?a = "enhance_all es a"
  have a: "s_main ?a = s_main a" "tracked ?a = pid ` set (s_main a)" "serv_ok ?a"
    using enhance_all_keeps[OF assms(3), of a] assms(4,5) by (simp_all add: tracked_def)
  have live: "\<forall>i \<in> pid ` set (s_main ?a). alive w i" using assms(6) a(1) by simp
  have merge: "sr.reg_ok ex ss' \<and> pid ` set (s_main a) \<subseteq> owned tracked ss' \<and>
      {i \<in> owned tracked (m_services m). alive w i} \<subseteq> owned tracked ss' \<and> length ss' = length (m_services m)"
    if "update_firstR P (updateFrom J w ?a) (m_services m) = Inr ss'" "list_ex P (m_services m)" for P ss'
    using sr.merge_first[OF _ that live] assms(2,7) a(1) by (simp add: mgr_inv_reg)
  have new: "sr.reg_ok ex (m_services m @ [setDefaultConfig J ?a]) \<and>
      owned tracked (m_services m @ [setDefaultConfig J ?a]) = owned tracked (m_services m) \<union> pid ` set (s_main a)"
    using sr.append_new[of ex "m_services m" "setDefaultConfig J ?a"] assms(2,7) a by (simp add: mgr_inv_reg)
  show ?thesis
  proof (cases "list_ex (\<lambda>s. service_eq ?a s) (m_services m) \<or> list_ex (\<lambda>s. needSocketFrom w s ?a) (m_services m)")
    case True
    then obtain P ss' where "list_ex P (m_services m)" "update_firstR P (updateFrom J w ?a) (m_services m) = Inr ss'"
        "m' = m\<lparr>m_services := ss'\<rparr>"
      using assms(1) by (auto simp: addService_def Let_def bindR_Inr_iff split: if_splits)
    with merge[of P ss'] show ?thesis by (simp add: mgr_inv_reg)
  next
    case False
    then have "m_services m' = m_services m @ [setDefaultConfig J ?a]"
      using assms(1) by (auto simp: addService_def saveConfigTemplate_def Let_def)
    with new show ?thesis by (auto simp: mgr_inv_reg)
  qed
qed

lemma process_of_pid_pid: "process_of_pid w i = Inr p \<Longrightarrow> pid p = i"
  by (auto simp: process_of_pid_def Let_def bindR_Inr_iff split: option.splits)

lemma addMain_empty:
  assumes "addMainProcess w p s = Inr s'" "s_main s = []"
  shows "s_main s' = [p] \<and> s_sub s' = s_sub s"
  using assms by (auto simp: addMainProcess_def Let_def bindR_Inr_iff split: if_splits)

text \<open>What one step of the detection leaves of the registry, and what it adds for process \<open>i\<close>.\<close>

definition keeps_live :: "os \<Rightarrow> 'j manager \<Rightarrow> 'j manager \<Rightarrow> bool" where
  "keeps_live w m m' \<longleftrightarrow> (\<forall>i. mgr_havePID m i \<and> alive w i \<longrightarrow> mgr_havePID m' i)"

lemma keeps_live_owned:
  "keeps_live w m m' \<longleftrightarrow> {i \<in> owned tracked (m_services m). alive w i} \<subseteq> owned tracked (m_services m')"
  by (auto simp: keeps_live_def mgr_havePID_owned)

lemma keeps_live_trans: "keeps_live w a b \<Longrightarrow> keeps_live w b c \<Longrightarrow> keeps_live w a c"
  by (auto simp: keeps_live_def)

lemma new_service_parts:
  assumes "new_service J w cs = (s0, cs')" "setSocket k s0 = Inr s1" "addMainProcess w p s1 = Inr s2" "claim_sockets w ks s2 = Inr s3"
  shows "s_main s3 = [p]" "s_sub s3 = []" "serv_ok s3"
proof -
  have s0: "s_main s0 = []" "s_sub s0 = []" "serv_ok s0"
    using assms(1) by (auto simp: new_service_def setDefaultHost_def blank_service_def serv_ok_def split: option.splits)
  have s1: "s_main s1 = []" "s_sub s1 = []" "serv_ok s1"
    using setSocket_step[OF assms(2)] s0 by (auto simp: tracked_def)
  have s2: "s_main s2 = [p]" "s_sub s2 = []" "serv_ok s2"
    using addMain_empty[OF assms(3)] addMainProcess_step(2)[OF assms(3)] s1 by (simp_all add: same_ident_def)
  have "foldR (\<lambda>k s. if serv_haveSocket w s (sock_id k) then setSocket k s else Inr s) ks s2 = Inr s3"
    using assms(4) by (simp add: claim_sockets_def)
  then have "s_sub s3 = s_sub s2"
    by (rule foldR_invariant[where P = "\<lambda>x. s_sub x = s_sub s2", rotated 2])
       (auto simp: setSocket_def bindR_Inr_iff Let_def split: if_splits)
  then show "s_main s3 = [p]" "s_sub s3 = []" "serv_ok s3" using claim_sockets_step[OF assms(4)] s2 by auto
qed

lemma detect_service_step:
  assumes "detect_service J w es dir ks p m = Inr m'" "mgr_inv ex m" "list_all enhancer_ok es"
    and "alive w (pid p)" "\<not> mgr_havePID m (pid p)"
  shows "mgr_inv ex m' \<and> keeps_live w m m' \<and>
    (list_ex (\<lambda>k. proc_haveSocket p (sock_id k)) ks \<longrightarrow> mgr_havePID m' (pid p))"
proof (cases "List.find (\<lambda>k. proc_haveSocket p (sock_id k)) ks")
  case None
  then have "m' = m" using assms(1) by (simp add: detect_service_def)
  moreover have "\<not> list_ex (\<lambda>k. proc_haveSocket p (sock_id k)) ks"
    using None by (simp add: find_None_iff list_ex_iff)
  ultimately show ?thesis using assms(2) by (simp add: keeps_live_def)
next
  case (Some k)
  obtain s0 cs where n: "new_service J w (m_counters m) = (s0, cs)" by fastforce
  obtain s1 s2 s3 where s: "setSocket k s0 = Inr s1" "addMainProcess w p s1 = Inr s2" "claim_sockets w ks s2 = Inr s3"
      "addService J w es dir s3 (m\<lparr>m_counters := cs\<rparr>) = Inr m'"
    using assms(1) Some n by (auto simp: detect_service_def bindR_Inr_iff)
  note s3 = new_service_parts[OF n s(1-3)]
  have "mgr_inv ex (m\<lparr>m_counters := cs\<rparr>)" using assms(2) by (simp add: mgr_inv_def)
  moreover have "pid p \<notin> owned tracked (m_services m)" using assms(5) by (simp add: mgr_havePID_owned)
  ultimately show ?thesis
    using addService_step[OF s(4) _ assms(3) s3(3,2)] assms(4) s3(1) by (simp add: keeps_live_owned mgr_havePID_owned)
qed

lemma handleSubProcess_step:
  assumes "handleSubProcess w p m = Inr m'" "mgr_inv ex m" "getPPID w p = Inr pp" "mgr_havePID m pp" "\<not> mgr_havePID m (pid p)"
  shows "mgr_inv ex m' \<and> keeps_live w m m' \<and> mgr_havePID m' (pid p)"
proof -
  have "m_services m' = update_first (\<lambda>s. pp \<in> tracked s) (addSubProcess p) (m_services m)"
    using assms(1,3) by (auto simp: handleSubProcess_def havePID_tracked)
  then show ?thesis
    using sr.adopt_first[of ex "m_services m" pp p] assms(2,4,5) by (auto simp: mgr_inv_reg keeps_live_owned mgr_havePID_owned)
qed

text \<open>Process \<open>i\<close> has one of the listening sockets open and is not on the black list.\<close>

definition serves :: "'j jsonlib \<Rightarrow> os \<Rightarrow> 'j list \<Rightarrow> socket list \<Rightarrow> u32 \<Rightarrow> bool" where
  "serves J w bl ks i \<longleftrightarrow>
     (\<exists>p p'. process_of_pid w i = Inr p \<and> matchList J p bl = Inr False \<and> setSockets w p = Inr p' \<and>
        list_ex (\<lambda>k. proc_haveSocket p' (sock_id k)) ks)"

lemma detect_known:
  assumes "detect_process J w es dir bl ks i m = Inr m'" "mgr_inv ex m" "mgr_havePID m i"
  shows "mgr_inv ex m' \<and> keeps_live w m m' \<and> mgr_havePID m' i"
proof -
  obtain sv where sv: "update_firstR (\<lambda>s. havePID s i) (refresh_service J w ks i) (m_services m) = Inr sv" "m_services m' = sv"
    using assms(1,3) by (auto simp: detect_process_def bindR_Inr_iff)
  have "tracked s' = tracked s \<and> serv_ok s'" if "s \<in> set (m_services m)" "refresh_service J w ks i s = Inr s'" for s s'
    using refresh_service_step[OF that(2)] that(1) assms(2) by (simp add: mgr_inv_def)
  then have "sr.reg_ok ex sv \<and> owned tracked sv = owned tracked (m_services m)"
    using sr.same_first[OF _ sv(1)] assms(2) by (simp add: mgr_inv_reg)
  then show ?thesis using sv(2) assms(3) by (simp add: mgr_inv_reg keeps_live_owned mgr_havePID_owned)
qed

lemma detect_process_step:
  assumes "detect_process J w es dir bl ks i m = Inr m'" "mgr_inv ex m" "list_all enhancer_ok es" "alive w i"
  shows "mgr_inv ex m' \<and> keeps_live w m m' \<and> (serves J w bl ks i \<longrightarrow> mgr_havePID m' i)"
proof (cases "mgr_havePID m i")
  case True
  then show ?thesis using detect_known[OF assms(1,2)] by simp
next
  case False
  then obtain p pp where p: "process_of_pid w i = Inr p" "getPPID w p = Inr pp" and pid: "pid p = i"
    using assms(1) process_of_pid_pid by (auto simp: detect_process_def bindR_Inr_iff)
  show ?thesis
  proof (cases "mgr_havePID m pp")
    case True
    then have "handleSubProcess w p m = Inr m'" using assms(1) p False by (simp add: detect_process_def)
    from handleSubProcess_step[OF this assms(2) p(2) True] False pid show ?thesis by simp
  next
    case noparent: False
    obtain black where b: "matchList J p bl = Inr black"
      using assms(1) p False noparent by (auto simp: detect_process_def bindR_Inr_iff)
    show ?thesis
    proof (cases black)
      case True
      then show ?thesis using assms(1,2) p False noparent b by (simp add: detect_process_def keeps_live_def serves_def)
    next
      case nb: False
      then obtain p' where p': "setSockets w p = Inr p'" "detect_service J w es dir ks p' m = Inr m'"
        using assms(1) p False noparent b by (auto simp: detect_process_def bindR_Inr_iff)
      have "pid p' = i" using setSockets_pid[OF p'(1)] pid by simp
      with detect_service_step[OF p'(2) assms(2,3)] assms(4) False show ?thesis
        using p p'(1) b nb by (auto simp: serves_def)
    qed
  qed
qed

lemma detect_all_step:
  assumes "foldR (\<lambda>ent. detect_process J w es dir bl ks (atoi ent)) ents m = Inr m'" "mgr_inv ex m" "list_all enhancer_ok es"
    and "\<forall>e \<in> set ents. alive w (atoi e)"
  shows "mgr_inv ex m' \<and> keeps_live w m m' \<and> (\<forall>e \<in> set ents. serves J w bl ks (atoi e) \<longrightarrow> mgr_havePID m' (atoi e))"
  using assms
proof (induction ents arbitrary: m)
  case (Cons e es')
  then obtain t where t: "detect_process J w es dir bl ks (atoi e) m = Inr t"
      "foldR (\<lambda>ent. detect_process J w es dir bl ks (atoi ent)) es' t = Inr m'"
    by (auto simp: bindR_Inr_iff)
  have st: "mgr_inv ex t \<and> keeps_live w m t \<and> (serves J w bl ks (atoi e) \<longrightarrow> mgr_havePID t (atoi e))"
    using detect_process_step[OF t(1)] Cons.prems by simp
  then have "mgr_inv ex m' \<and> keeps_live w t m' \<and> (\<forall>e \<in> set es'. serves J w bl ks (atoi e) \<longrightarrow> mgr_havePID m' (atoi e))"
    using Cons.IH[OF t(2)] Cons.prems by simp
  with st Cons.prems(4) show ?case by (auto intro: keeps_live_trans) (auto simp: keeps_live_def)
qed (simp add: keeps_live_def)

section \<open>The detector finds what listens\<close>

text \<open>
  C1: one run of the socket detector: every process that has a listening socket open and is not on
  the black list is tracked by a service afterwards; no running process that was tracked is lost;
  every service stays well formed and no process is tracked by two services.
\<close>

theorem socket_find_complete:
  assumes "socket_find J w mem es dir cfg m = Inr m'" "mgr_ok m" "list_all enhancer_ok es"
    and "os_readdir w ''/proc/'' = Some ents" "\<forall>e \<in> set ents. list_all is_digit e \<longrightarrow> alive w (atoi e)"
    and "read_sockets w mem (ignoreLoopback J cfg) = Inr ks"
  shows "mgr_ok m' \<and> (\<forall>i. mgr_havePID m i \<and> alive w i \<longrightarrow> mgr_havePID m' i) \<and>
    (\<forall>e \<in> set ents. list_all is_digit e \<and> serves J w (j_elems J (j_get J cfg ''blackList'')) ks (atoi e)
       \<longrightarrow> mgr_havePID m' (atoi e))"
proof (cases "ks = []")
  case True
  then have "m' = m" using assms(1,6) by (simp add: socket_find_def)
  then show ?thesis using True assms(2) by (simp add: serves_def)
next
  case False
  let ?bl = "j_elems J (j_get J cfg ''blackList'')"
  have "foldR (\<lambda>ent. detect_process J w es dir ?bl ks (atoi ent)) (filter (list_all is_digit) ents) m = Inr m'"
    using False assms(1,4,6) by (simp add: socket_find_def)
  from detect_all_step[OF this assms(2)[unfolded mgr_ok_inv] assms(3)] assms(5) show ?thesis by (auto simp: keeps_live_def mgr_ok_inv)
qed

text \<open>
  A process that is started by a tracked process and not tracked itself is added to the service of
  its parent, and to no other.
\<close>

theorem handleSubProcess_adopts:
  assumes "handleSubProcess w p m = Inr m'" "mgr_ok m" "getPPID w p = Inr pp" "mgr_havePID m pp"
    and "\<not> mgr_havePID m (pid p)"
  shows "mgr_ok m' \<and> length (m_services m') = length (m_services m) \<and>
    (\<exists>s s'. mgr_getService m pp = Some s \<and> mgr_getService m' pp = Some s' \<and> s' = addSubProcess p s \<and> havePID s' (pid p)) \<and>
    (\<forall>i. mgr_havePID m' i \<longleftrightarrow> mgr_havePID m i \<or> i = pid p)"
proof -
  have m': "m_services m' = update_first (\<lambda>s. pp \<in> tracked s) (addSubProcess p) (m_services m)"
    using assms(1,3) by (auto simp: handleSubProcess_def havePID_tracked)
  have "list_ex (\<lambda>s. pp \<in> tracked s) (m_services m)"
    using assms(4) by (simp add: mgr_havePID_def havePID_tracked)
  then obtain us x vs where s: "m_services m = us @ x # vs" "pp \<in> tracked x" "\<not> list_ex (\<lambda>s. pp \<in> tracked s) us"
      "m_services m' = us @ addSubProcess p x # vs"
    using update_first_split[of "\<lambda>s. pp \<in> tracked s" "m_services m"] m' by metis
  have "List.find (\<lambda>s. pp \<in> tracked s) us = None" using s(3) by (auto simp: find_None_iff list_ex_iff)
  then have find: "List.find (\<lambda>s. pp \<in> tracked s) (us @ y # vs) = Some y" if "pp \<in> tracked y" for y
    using that by (induction us) (auto split: if_splits)
  have "mgr_getService m pp = Some x" "mgr_getService m' pp = Some (addSubProcess p x)"
    using find[of x] find[of "addSubProcess p x"] s by (simp_all add: mgr_getService_def havePID_tracked)
  moreover have "mgr_ok m' \<and> owned tracked (m_services m') = insert (pid p) (owned tracked (m_services m))"
    using sr.adopt_first[of True "m_services m" pp p] assms(2,4,5) m' by (simp add: mgr_ok_inv mgr_inv_reg mgr_havePID_owned)
  ultimately show ?thesis using s by (auto simp: mgr_havePID_owned havePID_tracked)
qed

text \<open>
  C10: a service is registered once: adding a service makes the registry grow by at most one, every
  process of the service is tracked afterwards, and adding it grows the registry only when no
  known service equals it or lacks one of its sockets.
\<close>

theorem addService_registers:
  assumes "addService J w es dir a m = Inr m'" "mgr_ok m" "list_all enhancer_ok es" "serv_ok a" "s_sub a = []"
    and "\<forall>p \<in> set (s_main a). alive w (pid p) \<and> \<not> mgr_havePID m (pid p)"
  shows "mgr_ok m' \<and> (\<forall>p \<in> set (s_main a). mgr_havePID m' (pid p)) \<and>
    length (m_services m') = length (m_services m) +
      (if list_ex (\<lambda>s. service_eq (enhance_all es a) s \<or> needSocketFrom w s (enhance_all es a)) (m_services m) then 0 else 1)"
proof -
  have dis: "pid ` set (s_main a) \<inter> owned tracked (m_services m) \<subseteq> {0}"
    using assms(6) by (auto simp: mgr_havePID_owned)
  have len: "length ys = length xs" if "update_firstR P f xs = Inr ys" for P f and xs ys :: "'a service list"
    using that by (induction xs arbitrary: ys) (auto simp: bindR_Inr_iff split: if_splits)
  have ex: "list_ex (\<lambda>s. P s \<or> Q s) xs \<longleftrightarrow> list_ex P xs \<or> list_ex Q xs" for P Q and xs :: "'a service list"
    by (auto simp: list_ex_iff)
  have "length (m_services m') = length (m_services m) +
      (if list_ex (\<lambda>s. service_eq (enhance_all es a) s \<or> needSocketFrom w s (enhance_all es a)) (m_services m) then 0 else 1)"
    using assms(1) unfolding ex
    by (auto simp: addService_def Let_def bindR_Inr_iff saveConfigTemplate_def len split: if_splits)
  then show ?thesis using addService_step[OF assms(1) assms(2)[unfolded mgr_ok_inv] assms(3-5) _ dis] assms(6) by (auto simp: mgr_havePID_owned mgr_ok_inv)
qed

section \<open>A machine with one web server\<close>

definition net_line :: string where
  "net_line = ''0: 0100007F:1F90 00000000:0000 0A 1 2 3 0 0 7''"

definition web_os :: os where
  "web_os = bare_os\<lparr>os_file := \<lambda>f. if f = ''/proc/net/tcp'' then Some net_line else None,
     os_readdir := \<lambda>f. if f = ''/proc/'' then Some [''self'', ''42''] else Some [''3''],
     os_readlink := \<lambda>f. if f = ''/proc/42/exe'' then Some ''/usr/sbin/nginx'' else Some ''socket:[7]'',
     os_stat := \<lambda>f. if f = ''/proc/42'' then Some True else None\<rparr>"

definition web_socket :: socket where
  "web_socket = \<lparr>sock_id = 7, sock_type = ''tcp'', sock_source = zeroed_addr\<lparr>port := 8080, ip1 := 127, ip4 := 1\<rparr>,
     sock_dest = zeroed_addr\<rparr>"

definition web_process :: process where
  "web_process = \<lparr>pid = 42, username = [], full_path = ''/usr/sbin/nginx'', base_name = ''nginx'', cwd = [], sockets = []\<rparr>"

definition no_services :: "jv manager" where
  "no_services = \<lparr>m_services = [], m_templates = [], m_counters = []\<rparr>"

lemma web_os_sel:
  "os_file web_os f = (if f = ''/proc/net/tcp'' then Some net_line else None)"
  "os_readdir web_os f = (if f = ''/proc/'' then Some [''self'', ''42''] else Some [''3''])"
  "os_readlink web_os f = (if f = ''/proc/42/exe'' then Some ''/usr/sbin/nginx'' else Some ''socket:[7]'')"
  "os_stat web_os f = (if f = ''/proc/42'' then Some True else None)" "os_canonname web_os = None"
  by (simp_all add: web_os_def bare_os_def)

lemmas eval_number = strtoul_def scan_sign_def skip_0x_def is_space_def digit_val_def digit_of_def

lemma web_atoi: "atoi ''7'' = 7" "atoi ''7]'' = 7" "atoi ''42'' = 42"
  by (simp_all add: atoi_def strtol10_def eval_number)

lemma web_read: "read_sockets web_os zeroed_socket False = Inr [web_socket]"
proof -
  have "tokens net_line = [''0:'', ''0100007F:1F90'', ''00000000:0000'', ''0A'', ''1'', ''2'', ''3'', ''0'', ''0'', ''7'']"
    by (simp add: net_line_def tokens.simps is_space_def)
  moreover have "getlines net_line = [net_line]" by (simp add: net_line_def getlines.simps)
  moreover have "setSockFrom ''00000000:0000'' zeroed_addr = Inr zeroed_addr"
    "setSockFrom ''0100007F:1F90'' zeroed_addr = Inr (zeroed_addr\<lparr>port := 8080, ip1 := 127, ip4 := 1\<rparr>)"
    by (simp_all add: setSockFrom_def str_find_def npos_def hex16_def eval_number zeroed_addr_def)
  ultimately show ?thesis
    by (simp add: read_sockets_def net_files_def file_lines_def web_os_sel read_socket_def socket_of_line_def
        zeroed_socket_def web_atoi Let_def web_socket_def)
qed

lemma web_process_of_pid: "process_of_pid web_os 42 = Inr web_process"
  by (simp add: process_of_pid_def readlink_buf_def web_os_sel proc_path_42 strip_deleted_def path_base_def
      str_rfind_def npos_def web_process_def)

lemma web_getPPID: "getPPID web_os web_process = Inr 0" "getPPID web_os (web_process\<lparr>sockets := [7]\<rparr>) = Inr 0"
  by (simp_all add: getPPID_def file_lines_def web_os_sel proc_path_42 web_process_def)

lemma web_setSockets: "setSockets web_os web_process = Inr (web_process\<lparr>sockets := [7]\<rparr>)"
  by (simp add: setSockets_def web_os_sel proc_path_42 web_process_def clearSockets_def add_fd_socket_def
      readlink_buf_def is_socket_link_def web_atoi proc_haveSocket_def Let_def)

lemma web_detect:
  "socket_find ref_json web_os zeroed_socket [] ''/etc'' (JObj []) no_services =
   detect_service ref_json web_os [] ''/etc'' [web_socket] (web_process\<lparr>sockets := [7]\<rparr>) no_services"
proof -
  have "filter (list_all is_digit) [''self'', ''42''] = [''42'']" by (simp add: is_digit_def)
  then show ?thesis
    by (simp add: socket_find_def ignoreLoopback_def web_read web_os_sel detect_process_def web_process_of_pid
        web_getPPID web_setSockets mgr_havePID_def no_services_def web_atoi del: filter.simps)
qed

lemma web_found: "\<exists>m'. socket_find ref_json web_os zeroed_socket [] ''/etc'' (JObj []) no_services = Inr m'"
proof -
  have "socket_key web_socket = Inr ''tcp_127.0.0.1_8080''"
    by (simp add: web_socket_def socket_key_def getSource_def addr_text_def zeroed_addr_def show_nat.simps
        digit_char_def str_replace_def str_find_def str_rfind_def npos_def)
  moreover have "proc_haveSocket (web_process\<lparr>sockets := [7]\<rparr>) 7" by (simp add: proc_haveSocket_def)
  moreover have "sock_id web_socket = 7" by (simp add: web_socket_def)
  ultimately show ?thesis unfolding web_detect
    by (simp add: detect_service_def new_service_def setDefaultHost_def web_os_sel blank_service_def setSocket_def
        addMainProcess_def web_getPPID claim_sockets_def addService_def enhance_all_def saveConfigTemplate_def
        no_services_def Let_def)
qed

theorem socket_find_complete_witness:
  "\<exists>m'. socket_find ref_json web_os zeroed_socket [] ''/etc'' (JObj []) no_services = Inr m' \<and>
     mgr_ok m' \<and> mgr_havePID m' 42"
proof -
  obtain m' where m': "socket_find ref_json web_os zeroed_socket [] ''/etc'' (JObj []) no_services = Inr m'"
    using web_found by blast
  have "serves ref_json web_os [] [web_socket] 42"
    using web_process_of_pid web_setSockets by (auto simp: serves_def proc_haveSocket_def web_socket_def)
  moreover have "alive web_os 42" by (simp add: alive_def web_os_sel proc_path_42)
  moreover have "mgr_ok no_services" by (simp add: mgr_ok_def no_services_def)
  ultimately show ?thesis
    using socket_find_complete[OF m', of "[''self'', ''42'']" "[web_socket]"] m'
    by (simp add: web_os_sel web_read web_atoi ignoreLoopback_def is_digit_def)
qed

theorem addService_registers_witness:
  "\<exists>m'. addService ref_json demo_os [] ''/etc'' demo_found (no_services\<lparr>m_services := [demo_known]\<rparr>) = Inr m' \<and>
     mgr_havePID m' 42 \<and> length (m_services m') = 2"
proof -
  let ?m = "no_services\<lparr>m_services := [demo_known]\<rparr>"
  have eq: "\<not> service_eq demo_found demo_known" "\<not> needSocketFrom demo_os demo_known demo_found"
    by (simp_all add: service_eq_iff sources_def needSocketFrom_def demo_found_def demo_known_def blank_service_def)
  obtain m' where m': "addService ref_json demo_os [] ''/etc'' demo_found ?m = Inr m'"
    using eq by (simp add: addService_def enhance_all_def saveConfigTemplate_def Let_def)
  have "mgr_ok ?m" "serv_ok demo_found"
    by (simp_all add: mgr_ok_def serv_ok_def owned_def demo_known_def demo_found_def blank_service_def)
  with addService_registers[OF m'] m' eq show ?thesis
    by (simp add: demo_found_def demo_known_def blank_service_def demo_process_def demo_alive mgr_havePID_def havePID_def enhance_all_def no_services_def)
qed

theorem handleSubProcess_adopts_witness:
  "let w = bare_os\<lparr>os_file := \<lambda>_. Some ''9 (a) S 42 1''\<rparr>;
       m = no_services\<lparr>m_services := [demo_known, demo_found]\<rparr>
   in \<exists>m'. handleSubProcess w (demo_process 9) m = Inr m' \<and> mgr_havePID m' 9 \<and> mgr_ok m'"
proof -
  let ?w = "bare_os\<lparr>os_file := \<lambda>_. Some ''9 (a) S 42 1''\<rparr>" and ?m = "no_services\<lparr>m_services := [demo_known, demo_found]\<rparr>"
  have pp: "getPPID ?w (demo_process 9) = Inr 42"
    by (simp add: getPPID_def file_lines_def getlines.simps tokens.simps is_space_def web_atoi)
  then obtain m' where m': "handleSubProcess ?w (demo_process 9) ?m = Inr m'" by (simp add: handleSubProcess_def)
  have "mgr_ok ?m" by (simp add: mgr_ok_def serv_ok_def owned_def tracked_def demo_known_def demo_found_def
        blank_service_def demo_process_def)
  with handleSubProcess_adopts[OF m' _ pp] m' show ?thesis
    unfolding Let_def
    by (simp add: mgr_havePID_def havePID_def demo_known_def demo_found_def blank_service_def demo_process_def no_services_def)
qed

end
