(* ===== verification/Settings.thy ===== *)
theory Settings
  imports Services
begin

text \<open>
  The agent's configuration (src/config.cpp) and its log (src/log.cpp). The installation paths of the
  generated config.h are a parameter, and so are the text of the local time and which files can be
  opened for writing. The configuration is a value of the JSON library; the pointers into it that the
  accessors return are the paths of their members.
\<close>

section \<open>Configuration\<close>

record installed =
  WATCHED_WEB_ROOT :: string
  WATCHED_SSL_KEY :: string
  WATCHED_SSL_CERT :: string
  WATCHED_SSL_VRF :: string
  WATCHED_CFG_SRV :: string
  WATCHED_DLL_SRV :: string
  WATCHED_LUA_SRV :: string
  WATCHED_DLL_COLL :: string
  WATCHED_LUA_COLL :: string
  WATCHED_LOG_FILE :: string

abbreviation tabs2 :: string where
  "tabs2 \<equiv> [CHR 0x09, CHR 0x09]"

definition cm :: "string \<Rightarrow> string" where
  "cm t = ''/*'' @ tabs2 @ t"

text \<open>
  One default: whether the section itself may be missing, the section, the key that is tested, the key
  that is set, its value and its comment.
\<close>

type_synonym 'j setting = "bool \<times> string \<times> string \<times> string \<times> 'j \<times> string"

definition cfg_step :: "'j jsonlib \<Rightarrow> 'j setting \<Rightarrow> 'j \<Rightarrow> 'j" where
  "cfg_step J = (\<lambda>(first, sec, tested, k, x, txt) d.
     if (first \<and> \<not> j_member J d sec) \<or> \<not> j_member J (j_get J d sec) tested
     then j_put J [Key sec, Key k] (j_setComment J x txt commentAfterOnSameLine) d
     else d)"

definition server_settings :: "'j jsonlib \<Rightarrow> installed \<Rightarrow> 'j setting list" where
  "server_settings J i =
     [(True, ''server'', ''thread'', ''threads'', j_int J 8, cm ''Number of concurrent threads use to reply on network interface */''),
      (False, ''server'', ''host'', ''host'', j_string J [], cm ''Host string to listen on (default: all interfaces) */''),
      (False, ''server'', ''port'', ''port'', j_int J 9080, cm ''TCP port number */''),
      (False, ''server'', ''web_root'', ''web_root'', j_string J (WATCHED_WEB_ROOT i), cm ''Agent micro web service base directory*/''),
      (False, ''server'', ''useSSL'', ''useSSL'', j_bool J False, cm ''Enable SSL */''),
      (False, ''server'', ''SSL_key'', ''SSL_key'', j_string J (WATCHED_SSL_KEY i), cm ''SSL private key file */''),
      (False, ''server'', ''SSL_cert'', ''SSL_cert'', j_string J (WATCHED_SSL_CERT i), cm ''SSL certificate file for the agent */''),
      (False, ''server'', ''SSL_verify'', ''SSL_verify'', j_string J (WATCHED_SSL_VRF i), cm ''SSL certificate file containing the backend keychain */'')]"

definition services_settings :: "'j jsonlib \<Rightarrow> installed \<Rightarrow> 'j setting list" where
  "services_settings J i =
     [(True, ''services'', ''config_dir'', ''config_dir'', j_string J (WATCHED_CFG_SRV i),
         cm ''The directory where the *.json service configuration files are stored*/''),
      (False, ''services'', ''find_frequency'', ''find_frequency'', j_int J 120,
         ''/*'' @ tabs2 @ tabs2 @ ''The frequency (in sec)  to pool for new (or restarted) services*/'')]"

definition plugins_settings :: "'j jsonlib \<Rightarrow> installed \<Rightarrow> 'j setting list" where
  "plugins_settings J i =
     [(True, ''plugins'', ''services_cpp'', ''services_cpp'', j_string J (WATCHED_DLL_SRV i), cm ''The directory where the *.so services plugins are stored*/''),
      (False, ''plugins'', ''services_lua'', ''services_lua'', j_string J (WATCHED_LUA_SRV i), cm ''The directory where the *.lua services plugins are stored */''),
      (False, ''plugins'', ''collectors_cpp'', ''collectors_cpp'', j_string J (WATCHED_DLL_COLL i), cm ''The directory where the *.so collector plugins are stored*/''),
      (False, ''plugins'', ''collectors_lua'', ''collectors_lua'', j_string J (WATCHED_LUA_COLL i), cm ''The directory where the *.lua collector plugins are stored*/'')]"

definition cfg_defaults :: "'j jsonlib \<Rightarrow> installed \<Rightarrow> 'j \<Rightarrow> 'j" where
  "cfg_defaults J i d = fold (cfg_step J) (server_settings J i @ services_settings J i @ plugins_settings J i) d"

definition new_Config :: "'j jsonlib \<Rightarrow> installed \<Rightarrow> os \<Rightarrow> string \<Rightarrow> 'j res" where
  "new_Config J i w fname =
     bindR (case os_file w fname of None \<Rightarrow> Inr (j_null J) | Some c \<Rightarrow> j_read J c) (\<lambda>d. Inr (cfg_defaults J i d))"

text \<open>What \<^verbatim>\<open>save\<close> writes to the file, when it can be opened.\<close>

definition cfg_save :: "'j jsonlib \<Rightarrow> (string \<Rightarrow> bool) \<Rightarrow> string \<Rightarrow> 'j \<Rightarrow> (string \<times> string) option" where
  "cfg_save J can fname d = (if can fname then Some (fname, j_write J d) else None)"

definition cfg_getCollector :: "'j jsonlib \<Rightarrow> string \<Rightarrow> 'j \<Rightarrow> 'j" where
  "cfg_getCollector J p_name d = plugin_cfg J ''collectors'' (''/*'' @ [CHR 0x09] @ ''Configure the collectors plugins */'') p_name d"

definition cfg_getAgent :: "'j jsonlib \<Rightarrow> 'j \<Rightarrow> 'j" where
  "cfg_getAgent J d =
     j_default J ''agent'' (j_object J) (''/*'' @ [CHR 0x09] @ ''Remote agent specific configuration */'') commentBefore d"

definition cfg_getLog :: "'j jsonlib \<Rightarrow> 'j \<Rightarrow> 'j" where
  "cfg_getLog J d = j_default J ''log'' (j_object J) (''/*'' @ [CHR 0x09] @ ''The agent log configuration */'') commentBefore d"

section \<open>Log\<close>

definition levels :: "string list" where
  "levels = [''NONE'', ''ERROR'', ''WARN'', ''NOTICE'', ''INFO'', ''DEBUG'', ''ALL'']"

definition upper :: "char \<Rightarrow> char" where
  "upper c = (if 97 \<le> (of_char c :: nat) \<and> (of_char c :: nat) \<le> 122 then char_of ((of_char c :: nat) - 32) else c)"

text \<open>The loop over the level names: the last match counts, 3 without one.\<close>

definition level_index :: "string \<Rightarrow> nat" where
  "level_index lvl = fold (\<lambda>(i, l) found. if l = map upper lvl then i else found) (enumerate 0 levels) 3"

record 'j logger =
  lg_cfg :: 'j
  lg_level :: nat

definition new_log :: "'j jsonlib \<Rightarrow> installed \<Rightarrow> 'j \<Rightarrow> 'j logger res" where
  "new_log J i c =
     (let c1 = j_default J ''file'' (j_string J (WATCHED_LOG_FILE i)) (cm ''the log file*/'') commentAfterOnSameLine c in
      bindR (j_asString J (j_get J c1 ''file'')) (\<lambda>_.
      let c2 = j_default J ''level'' (j_string J ''NOTICE'') (cm ''level to log at (NONE,ERROR,WARN,NOTICE,INFO,DEBUG,ALL)*/'')
                 commentAfterOnSameLine c1 in
      bindR (j_asString J (j_get J c2 ''level'')) (\<lambda>lvl.
      let n = level_index lvl in
      Inr \<lparr>lg_cfg = j_set J c2 ''level'' (j_string J (levels ! n)), lg_level = n\<rparr>)))"

definition setw :: "nat \<Rightarrow> string \<Rightarrow> string" where
  "setw n s = replicate (n - length s) (CHR '' '') @ s"

definition log_line :: "string \<Rightarrow> nat \<Rightarrow> string \<Rightarrow> string \<Rightarrow> string" where
  "log_line now lvl src msg =
     ''[ '' @ now @ '' | '' @ setw 6 (levels ! lvl) @ '' ] '' @ setw 30 src @ '' - '' @ msg @ [newline]"

datatype log_out = ToFile string string | ToStderr string

definition log_write :: "'j jsonlib \<Rightarrow> (string \<Rightarrow> bool) \<Rightarrow> string \<Rightarrow> 'j logger \<Rightarrow> nat \<Rightarrow> string \<Rightarrow> string \<Rightarrow> log_out option" where
  "log_write J can now l p_lvl p_src p_message =
     (if lg_level l < p_lvl then None
      else let line = log_line now p_lvl p_src p_message in
        case j_asString J (j_get J (lg_cfg l) ''file'') of
          Inr f \<Rightarrow> Some (if can f then ToFile f line else ToStderr line)
        | Inl e \<Rightarrow> Some (ToStderr line))"

definition log_write_named :: "'j jsonlib \<Rightarrow> (string \<Rightarrow> bool) \<Rightarrow> string \<Rightarrow> 'j logger \<Rightarrow> string \<Rightarrow> string \<Rightarrow> string \<Rightarrow> log_out option" where
  "log_write_named J can now l p_lvl = log_write J can now l (level_index p_lvl)"

datatype log_method = Error | Warning | Notice | Info | Debug

fun call_level :: "log_method \<Rightarrow> nat" where
  "call_level Error = 1" | "call_level Warning = 2" | "call_level Notice = 3" | "call_level Info = 4" | "call_level Debug = 5"

definition log_at :: "'j jsonlib \<Rightarrow> (string \<Rightarrow> bool) \<Rightarrow> string \<Rightarrow> 'j logger \<Rightarrow> log_method \<Rightarrow> string \<Rightarrow> string \<Rightarrow> log_out option" where
  "log_at J can now l c = log_write J can now l (call_level c)"

section \<open>The configuration as a map\<close>

text \<open>
  What the library's documentation says of a null value: writing a member makes it an object, and it
  is what reading a missing member gives.
\<close>

locale json_null = json_laws +
  assumes set_null: "j_set J (j_null J) k x = j_set J (j_object J) k x"
    and member_null: "\<not> j_member J (j_null J) k"
    and get_null: "j_get J (j_null J) k = j_null J"
    and get_missing: "j_isObject J v \<Longrightarrow> \<not> j_member J v k \<Longrightarrow> j_get J v k = j_null J"
    and null_object: "\<not> j_isObject J (j_null J)"
begin

lemma obj_set_null: "j_isObject J (j_set J (j_null J) k x)"
  by (simp add: set_null obj_set obj_object)

lemma get_set_null: "j_get J (j_set J (j_null J) k x) k' = (if k' = k then x else j_null J)"
  using get_missing[OF obj_object member_object] by (simp add: set_null get_set[OF obj_object])

lemma member_set_null: "j_member J (j_set J (j_null J) k x) k' \<longleftrightarrow> k' = k"
  by (simp add: set_null member_set[OF obj_object] member_object)

end

interpretation ref_null: json_null ref_json
  by unfold_locales (auto split: jv.splits option.splits)

text \<open>A configuration as the values of its sections' keys, and the shape a configuration file has.\<close>

definition view :: "'j jsonlib \<Rightarrow> 'j \<Rightarrow> string \<times> string \<Rightarrow> 'j option" where
  "view J d = (\<lambda>(s, k).
     if j_member J d s \<and> j_member J (j_get J d s) k then Some (j_get J (j_get J d s) k) else None)"

definition node_ok :: "'j jsonlib \<Rightarrow> 'j \<Rightarrow> bool" where
  "node_ok J d \<longleftrightarrow> d = j_null J \<or> j_isObject J d"

definition cfg_ok :: "'j jsonlib \<Rightarrow> 'j \<Rightarrow> bool" where
  "cfg_ok J d \<longleftrightarrow> node_ok J d \<and> (\<forall>s \<in> {''server'', ''services'', ''plugins''}. node_ok J (j_get J d s))"

definition map_step :: "'j jsonlib \<Rightarrow> 'j setting \<Rightarrow> (string \<times> string \<Rightarrow> 'j option) \<Rightarrow> (string \<times> string \<Rightarrow> 'j option)" where
  "map_step J = (\<lambda>(first, sec, tested, k, x, txt) m.
     if m (sec, tested) = None then m((sec, k) \<mapsto> j_setComment J x txt commentAfterOnSameLine) else m)"

context json_null
begin

lemma node_set: "node_ok J d \<Longrightarrow> j_isObject J (j_set J d k x)"
  by (auto simp: node_ok_def obj_set_null obj_set)

lemma node_get_set: "node_ok J d \<Longrightarrow> j_get J (j_set J d k x) k' = (if k' = k then x else j_get J d k')"
  by (auto simp: node_ok_def get_set_null get_set get_null)

lemma node_member_set: "node_ok J d \<Longrightarrow> j_member J (j_set J d k x) k' \<longleftrightarrow> k' = k \<or> j_member J d k'"
  by (auto simp: node_ok_def member_set_null member_set member_null)

lemma view_put:
  assumes "node_ok J d" "node_ok J (j_get J d sec)"
  shows "view J (j_put J [Key sec, Key k] x d) = (view J d)((sec, k) \<mapsto> x)"
proof
  fix p :: "string \<times> string"
  obtain s k' where p: "p = (s, k')" by fastforce
  have "\<not> j_member J d sec \<Longrightarrow> j_get J d sec = j_null J"
    using assms(1) get_missing get_null by (auto simp: node_ok_def)
  then have "\<not> j_member J d sec \<Longrightarrow> \<not> j_member J (j_get J d sec) k'" using member_null by simp
  then show "view J (j_put J [Key sec, Key k] x d) p = ((view J d)((sec, k) \<mapsto> x)) p"
    using assms by (auto simp: view_def p node_get_set node_member_set)
qed

lemma cfg_step_view:
  assumes "cfg_ok J d" "sec \<in> {''server'', ''services'', ''plugins''}"
  shows "view J (cfg_step J (first, sec, tested, k, x, txt) d) = map_step J (first, sec, tested, k, x, txt) (view J d)"
    "cfg_ok J (cfg_step J (first, sec, tested, k, x, txt) d)"
proof -
  have n: "node_ok J d" "node_ok J (j_get J d sec)" using assms unfolding cfg_ok_def by blast+
  have "\<not> j_member J d sec \<Longrightarrow> j_get J d sec = j_null J"
    using n(1) get_missing get_null by (auto simp: node_ok_def)
  then have "((first \<and> \<not> j_member J d sec) \<or> \<not> j_member J (j_get J d sec) tested) \<longleftrightarrow> view J d (sec, tested) = None"
    using member_null by (auto simp: view_def)
  then show "view J (cfg_step J (first, sec, tested, k, x, txt) d) = map_step J (first, sec, tested, k, x, txt) (view J d)"
    using view_put[OF n] by (simp add: cfg_step_def map_step_def)
  have "node_ok J (j_get J (j_put J [Key sec, Key k] y d) s)" if "s \<in> {''server'', ''services'', ''plugins''}" for y s
    using n assms(1) that node_set[OF n(2)] unfolding cfg_ok_def by (auto simp: node_get_set node_ok_def[of J "j_set J _ _ _"])
  then show "cfg_ok J (cfg_step J (first, sec, tested, k, x, txt) d)"
    using assms(1) node_set[OF n(1)] by (auto simp: cfg_step_def cfg_ok_def node_ok_def[of J "j_set J _ _ _"])
qed

lemma fold_cfg_view:
  assumes "cfg_ok J d" "\<forall>p \<in> set ps. fst (snd p) \<in> {''server'', ''services'', ''plugins''}"
  shows "view J (fold (cfg_step J) ps d) = fold (map_step J) ps (view J d) \<and> cfg_ok J (fold (cfg_step J) ps d)"
  using assms
proof (induction ps arbitrary: d)
  case (Cons p ps)
  obtain f sec t k x c where p: "p = (f, sec, t, k, x, c)" by (metis surj_pair)
  have "sec \<in> {''server'', ''services'', ''plugins''}" using Cons.prems(2) p by simp
  from cfg_step_view[OF Cons.prems(1) this, of f t k x c] Cons p show ?case by simp
qed simp

lemma cfg_defaults_view:
  assumes "cfg_ok J d"
  shows "view J (cfg_defaults J i d) =
    fold (map_step J) (server_settings J i @ services_settings J i @ plugins_settings J i) (view J d)"
  using fold_cfg_view[OF assms, of "server_settings J i @ services_settings J i @ plugins_settings J i"]
  by (simp add: cfg_defaults_def server_settings_def services_settings_def plugins_settings_def)

end

definition all_settings :: "'j jsonlib \<Rightarrow> installed \<Rightarrow> 'j setting list" where
  "all_settings J i = server_settings J i @ services_settings J i @ plugins_settings J i"

fun target :: "'j setting \<Rightarrow> string \<times> string" where
  "target (f, sec, t, k, x, c) = (sec, k)"

lemma map_step_other: "q \<noteq> target p \<Longrightarrow> map_step J p m q = m q"
  by (cases p) (simp add: map_step_def)

lemma fold_map_other: "q \<notin> target ` set ps \<Longrightarrow> fold (map_step J) ps m q = m q"
  by (induction ps arbitrary: m) (simp_all add: map_step_other)

lemma fold_map_at:
  assumes "distinct (map target ps)" "(f, sec, k, k, x, c) \<in> set ps"
  shows "fold (map_step J) ps m (sec, k) =
    (case m (sec, k) of Some v \<Rightarrow> Some v | None \<Rightarrow> Some (j_setComment J x c commentAfterOnSameLine))"
  using assms
proof (induction ps arbitrary: m)
  case (Cons p ps)
  show ?case
  proof (cases "p = (f, sec, k, k, x, c)")
    case True
    then have "(sec, k) \<notin> target ` set ps" using Cons.prems(1) by auto
    then have "fold (map_step J) (p # ps) m (sec, k) = map_step J p m (sec, k)" by (simp add: fold_map_other)
    then show ?thesis by (simp add: True map_step_def split: option.split)
  next
    case False
    then have m: "(f, sec, k, k, x, c) \<in> set ps" using Cons.prems(2) by simp
    then have "(sec, k) \<in> target ` set ps" using image_eqI[of "(sec, k)" target "(f, sec, k, k, x, c)"] by simp
    then have "(sec, k) \<noteq> target p" using Cons.prems(1) by (metis distinct.simps(2) list.map(2) list.set_map)
    then show ?thesis using Cons.IH[OF _ m, of "map_step J p m"] Cons.prems(1) by (simp add: map_step_other)
  qed
qed simp

lemma settings_targets: "distinct (map target (all_settings J i))"
  by (simp add: all_settings_def server_settings_def services_settings_def plugins_settings_def)

lemma settings_tested: "(f, sec, t, k, x, c) \<in> set (all_settings J i) \<Longrightarrow> k \<noteq> ''threads'' \<Longrightarrow> t = k"
  by (auto simp: all_settings_def server_settings_def services_settings_def plugins_settings_def)

text \<open>
  C24: after a start every setting of the agent has a value: the one of the configuration file when the
  file has it, and the default otherwise; the number of threads is the only exception, and no other key
  of a section changes.
\<close>

theorem config_defaults:
  assumes "json_null J" "cfg_ok J d"
  shows "((f, sec, t, k, x, c) \<in> set (all_settings J i) \<longrightarrow> k \<noteq> ''threads'' \<longrightarrow> view J (cfg_defaults J i d) (sec, k) =
      (case view J d (sec, k) of Some v \<Rightarrow> Some v | None \<Rightarrow> Some (j_setComment J x c commentAfterOnSameLine))) \<and>
    (q \<notin> target ` set (all_settings J i) \<longrightarrow> view J (cfg_defaults J i d) q = view J d q)"
proof -
  have "view J (cfg_defaults J i d) = fold (map_step J) (all_settings J i) (view J d)"
    using json_null.cfg_defaults_view[OF assms] by (simp add: all_settings_def)
  then show ?thesis
    using fold_map_at[OF settings_targets, of f sec k x c J i J "view J d"] settings_tested[of f sec t k x c J i]
      fold_map_other[of q "all_settings J i" J "view J d"] by auto
qed

definition demo_paths :: installed where
  "demo_paths = \<lparr>WATCHED_WEB_ROOT = ''/www'', WATCHED_SSL_KEY = [], WATCHED_SSL_CERT = [], WATCHED_SSL_VRF = [], WATCHED_CFG_SRV = [],
     WATCHED_DLL_SRV = [], WATCHED_LUA_SRV = [], WATCHED_DLL_COLL = [], WATCHED_LUA_COLL = [], WATCHED_LOG_FILE = ''/var/log/w''\<rparr>"

theorem config_defaults_witness:
  "view ref_json (cfg_defaults ref_json demo_paths (JObj [(''server'', JObj [(''port'', JInt 80)])])) (''server'', ''port'') = Some (JInt 80)"
  using config_defaults[OF ref_null.json_null_axioms, of "JObj [(''server'', JObj [(''port'', JInt 80)])]" False "''server''" "''port''" "''port''"
      "JInt 9080" "cm ''TCP port number */''" demo_paths]
  by (simp add: cfg_ok_def node_ok_def all_settings_def server_settings_def view_def mhas_def)

text \<open>
  A number of threads set in the configuration file is replaced by 8 at every start, because the
  presence of the key \<^verbatim>\<open>thread\<close> is tested and the key \<^verbatim>\<open>threads\<close> is set.
\<close>

theorem config_threads_lost:
  assumes "json_null J" "cfg_ok J d" "view J d (''server'', ''thread'') = None"
  shows "\<exists>c. view J (cfg_defaults J i d) (''server'', ''threads'') = Some (j_setComment J (j_int J 8) c commentAfterOnSameLine)"
proof -
  let ?p = "(True, ''server'', ''thread'', ''threads'', j_int J 8, cm ''Number of concurrent threads use to reply on network interface */'')"
  have "fold (map_step J) (all_settings J i) m = fold (map_step J) (tl (all_settings J i)) (map_step J ?p m)" for m
    by (simp add: all_settings_def server_settings_def)
  then have "view J (cfg_defaults J i d) = fold (map_step J) (tl (all_settings J i)) (map_step J ?p (view J d))"
    using json_null.cfg_defaults_view[OF assms(1,2), of i] by (simp add: all_settings_def)
  moreover have "(''server'', ''threads'') \<notin> target ` set (tl (all_settings J i))"
    by (simp add: all_settings_def server_settings_def services_settings_def plugins_settings_def)
  ultimately have "view J (cfg_defaults J i d) (''server'', ''threads'') = map_step J ?p (view J d) (''server'', ''threads'')"
    by (simp add: fold_map_other)
  then show ?thesis using assms(3) by (auto simp: map_step_def)
qed

theorem config_threads_lost_witness:
  "view ref_json (cfg_defaults ref_json demo_paths (JObj [(''server'', JObj [(''threads'', JInt 2)])])) (''server'', ''threads'') = Some (JInt 8)"
  using config_threads_lost[OF ref_null.json_null_axioms, of "JObj [(''server'', JObj [(''threads'', JInt 2)])]" demo_paths]
  by (simp add: cfg_ok_def node_ok_def view_def mhas_def)

section \<open>The log level\<close>

lemma level_index_cases: "level_index lvl < length levels"
  by (simp add: level_index_def levels_def)

lemma level_index_names: "n < length levels \<Longrightarrow> level_index (levels ! n) = n"
proof -
  have "list_all (\<lambda>n. level_index (levels ! n) = n) [0..<length levels]"
    by (simp add: level_index_def levels_def upper_def upt_rec)
  then show "n < length levels \<Longrightarrow> level_index (levels ! n) = n" by (simp add: list_all_iff)
qed

text \<open>
  The log level is one of the seven, the name kept in the configuration is its canonical one, and
  starting again from the configuration it leaves gives the same level and the same configuration.
\<close>

theorem log_level_stable:
  assumes "json_laws J" "j_isObject J c" "new_log J i c = Inr l"
  shows "lg_level l < 7 \<and> j_asString J (j_get J (lg_cfg l) ''level'') = Inr (levels ! lg_level l) \<and>
    (\<exists>l'. new_log J i (lg_cfg l) = Inr l' \<and> lg_level l' = lg_level l)"
proof -
  let ?c1 = "j_default J ''file'' (j_string J (WATCHED_LOG_FILE i)) (cm ''the log file*/'') commentAfterOnSameLine c"
  let ?c2 = "j_default J ''level'' (j_string J ''NOTICE'') (cm ''level to log at (NONE,ERROR,WARN,NOTICE,INFO,DEBUG,ALL)*/'')
                 commentAfterOnSameLine ?c1"
  obtain f lvl where f: "j_asString J (j_get J ?c1 ''file'') = Inr f" and l: "j_asString J (j_get J ?c2 ''level'') = Inr lvl"
      "l = \<lparr>lg_cfg = j_set J ?c2 ''level'' (j_string J (levels ! level_index lvl)), lg_level = level_index lvl\<rparr>"
    using assms(3) unfolding new_log_def Let_def bindR_Inr_iff by auto
  have o: "j_isObject J ?c1" "j_isObject J ?c2" using json_laws.obj_default[OF assms(1)] assms(2) by simp_all
  have m: "j_member J (lg_cfg l) ''file''" "j_member J (lg_cfg l) ''level''"
    using l(2) o assms(1,2) by (simp_all add: json_laws.member_set json_laws.member_default)
  have "j_get J ?c2 ''file'' = j_get J ?c1 ''file''" using json_laws.get_default_other[OF assms(1) o(1)] by simp
  then have g: "j_asString J (j_get J (lg_cfg l) ''file'') = Inr f"
      "j_asString J (j_get J (lg_cfg l) ''level'') = Inr (levels ! level_index lvl)"
    using l(2) f o assms(1) by (simp_all add: json_laws.get_set json_laws.as_string)
  have "\<exists>l'. new_log J i (lg_cfg l) = Inr l' \<and> lg_level l' = level_index lvl"
    using m g level_index_names[OF level_index_cases, of lvl] by (simp add: new_log_def j_default_def Let_def)
  then show ?thesis using g(2) l(2) level_index_cases[of lvl] by (simp add: levels_def)
qed

theorem log_level_stable_witness:
  "\<exists>l. new_log ref_json demo_paths (JObj [(''level'', JStr ''debug'')]) = Inr l \<and> lg_level l = 5 \<and>
     jv_asString (jv_get (lg_cfg l) ''level'') = Inr ''DEBUG''"
proof -
  have "level_index ''debug'' = 5" by code_simp
  then obtain l where l: "new_log ref_json demo_paths (JObj [(''level'', JStr ''debug'')]) = Inr l" "lg_level l = 5"
    by (simp add: new_log_def j_default_def mhas_def Let_def)
  with log_level_stable[OF ref.json_laws_axioms _ l(1)] show ?thesis by (simp add: levels_def)
qed

text \<open>
  A message is written exactly when its level is not above the level of the log, to the log file
  or, when that cannot be opened, to the error output.
\<close>

lemma log_write_threshold:
  "(log_at J can now l m src msg \<noteq> None \<longleftrightarrow> call_level m \<le> lg_level l) \<and>
   (\<forall>out. log_at J can now l m src msg = Some out \<longrightarrow>
     out = ToStderr (log_line now (call_level m) src msg) \<or>
     (\<exists>f. j_asString J (j_get J (lg_cfg l) ''file'') = Inr f \<and> can f \<and> out = ToFile f (log_line now (call_level m) src msg)))"
  by (auto simp: log_at_def log_write_def Let_def split: sum.split)

end
