(* ===== verification/ServiceStatus.thy ===== *)
theory ServiceStatus
  imports Settings
begin

text \<open>
  The plugins of a service and what it reports: its collectors, log parsers and handler
  (src/services.cpp, from \<^verbatim>\<open>addCollector\<close> on), its status, its log entries and its part of the API
  description. The factories are a parameter of the operations that look a plugin up; \<open>ask\<close> is what asking the
  handler of a service for a blackout does to the service and what it answers.
\<close>

section \<open>Plugins\<close>

text \<open>
  A collector is given a pointer into the configuration of its service and fills in its defaults there.
\<close>

definition addCollector ::
  "'j jsonlib \<Rightarrow> 'j factories \<Rightarrow> string \<Rightarrow> 'j service \<times> counters \<Rightarrow> ('j service \<times> counters) res" where
  "addCollector J F p_name = (\<lambda>(s, cs).
     if mhas (s_collectors s) p_name then Inr (s, cs)
     else case map_of (f_collector F) p_name of
       None \<Rightarrow> Inr (s, cs)
     | Some (None, fname) \<Rightarrow> Inl Undefined
     | Some (Some maker, fname) \<Rightarrow>
         (let (s1, cfg) = getCollectorCfg J p_name s in
          bindR (maker cfg (getID s1) fname cs) (\<lambda>(c, cs1).
          bindR (col_startThread J c) (\<lambda>c'.
          Inr (s1\<lparr>s_collectors := mput p_name c' (s_collectors s1),
                  s_cfg := j_put J [Key ''collectors'', Key p_name] (c_cfg c') (s_cfg s1)\<rparr>, cs1)))))"

text \<open>
  \<^verbatim>\<open>setHandler\<close> tests the collectors for the name and takes the handler's file from the factory of
  collectors; looking a missing name up there creates an entry with a null function.
\<close>

definition setHandler :: "string \<Rightarrow> 'j factories \<times> 'j service \<Rightarrow> ('j factories \<times> 'j service) res" where
  "setHandler p_name = (\<lambda>(F, s).
     if mhas (s_collectors s) p_name then Inr (F, s)
     else case map_of (f_handler F) p_name of
       None \<Rightarrow> Inr (F, s)
     | Some (None, fname) \<Rightarrow> Inl Undefined
     | Some (Some maker, fname) \<Rightarrow>
         (case map_of (f_collector F) p_name of
            Some (colmaker, file) \<Rightarrow> Inr (F, s\<lparr>s_handler := Some \<lparr>h_plugin = p_name, h_file = file\<rparr>\<rparr>)
          | None \<Rightarrow> Inr (F\<lparr>f_collector := mput p_name (None, []) (f_collector F)\<rparr>,
                        s\<lparr>s_handler := Some \<lparr>h_plugin = p_name, h_file = []\<rparr>\<rparr>)))"

definition updateBasePaths :: "'j service \<Rightarrow> 'j service" where
  "updateBasePaths s = s\<lparr>s_collectors := map (\<lambda>(k, c). (k, setService (getID s) c)) (s_collectors s)\<rparr>"

definition getCollector :: "'j service \<Rightarrow> string \<Rightarrow> 'j collector option" where
  "getCollector s p_name = map_of (s_collectors s) p_name"

text \<open>
  The copy constructor: the sub-type, the handler and the log parsers are not copied. It ends with
  \<^verbatim>\<open>updateBasePaths\<close>, which for a service with a collector asks for a shared pointer to the object under
  construction; there is none yet.
\<close>

definition copy_service :: "'j jsonlib \<Rightarrow> os \<Rightarrow> 'j service \<Rightarrow> counters \<Rightarrow> ('j service \<times> counters) res" where
  "copy_service J w src cs =
     (if s_collectors src \<noteq> [] then Inl Undefined
      else Inr (setDefaultHost w ((blank_service J (s_cfgFile src))\<lparr>s_name := s_name src, s_uniqName := s_uniqName src,
             s_host := s_host src, s_type := s_type src, s_cfg := s_cfg src, s_sockets := s_sockets src,
             s_main := s_main src, s_sub := s_sub src\<rparr>), count_add ''service'' 1 cs))"

fun find_log :: "os \<Rightarrow> string \<Rightarrow> process list \<Rightarrow> string option res" where
  "find_log w filematch [] = Inr None"
| "find_log w filematch (p # ps) =
     bindR (getOpenLogs w p) (\<lambda>logs.
     case List.find (\<lambda>l. str_find l filematch 0 \<noteq> npos) logs of
       Some l \<Rightarrow> Inr (Some l)
     | None \<Rightarrow> find_log w filematch ps)"

definition monitored_file :: "os \<Rightarrow> string \<Rightarrow> string \<Rightarrow> 'j service \<Rightarrow> string option res" where
  "monitored_file w watched_log_file filematch s =
     bindR (if filematch = ''watched.agent'' then Inr (Some watched_log_file) else find_log w filematch (s_main s)) (\<lambda>found.
     Inr (case found of
            Some f \<Rightarrow> Some f
          | None \<Rightarrow> if os_stat w filematch = None then None else Some filematch))"

definition addLogMonitor ::
  "'j jsonlib \<Rightarrow> os \<Rightarrow> 'j factories \<Rightarrow> string \<Rightarrow> string \<Rightarrow> string \<Rightarrow> 'j service \<times> counters \<Rightarrow> ('j service \<times> counters) res" where
  "addLogMonitor J w F watched_log_file logmonName filematch = (\<lambda>(s, cs).
     if mhas (s_parsers s) filematch then Inr (s, cs)
     else case map_of (f_parser F) logmonName of
       None \<Rightarrow> Inr (s, cs)
     | Some (maker, luafile) \<Rightarrow>
         bindR (monitored_file w watched_log_file filematch s) (\<lambda>f.
         case (f, maker) of
           (None, _) \<Rightarrow> Inr (s, cs)
         | (Some logfile, None) \<Rightarrow> Inl Undefined
         | (Some logfile, Some mk) \<Rightarrow>
             (let (s1, cfg) = getParserCfg J logmonName s in
              bindR (mk logfile cfg luafile cs) (\<lambda>(p, cs1).
              bindR (lp_startThread J p) (\<lambda>p'.
              Inr (s1\<lparr>s_parsers := mput filematch p' (s_parsers s1),
                      s_cfg := j_put J [Key ''parsers'', Key logmonName] (lp_cfg p') (s_cfg s1)\<rparr>, cs1))))))"

section \<open>Status\<close>

text \<open>
  A report is a list of assignments to members of the JSON value. A process keeps its working directory
  and its user once they have been read.
\<close>

type_synonym 'j writes = "(sub list \<times> 'j) list"

definition run_writes :: "'j jsonlib \<Rightarrow> 'j writes \<Rightarrow> 'j \<Rightarrow> 'j" where
  "run_writes J ws ref = fold (\<lambda>(path, x). j_put J path x) ws ref"

definition has_failed :: "os \<Rightarrow> 'j service \<Rightarrow> bool" where
  "has_failed w s =
     (list_ex (\<lambda>k. \<not> serv_haveSocket w s (sock_id k)) (s_sockets s) \<or> list_ex (\<lambda>p. \<not> proc_getStatus w p) (s_main s))"

text \<open>What asking a handler for a blackout does to its service, and what it answers.\<close>

type_synonym 'j asks = "handler_obj \<Rightarrow> 'j service \<Rightarrow> ('j service \<times> bool) res"

text \<open>The handler is asked only when something of the service has failed.\<close>

definition is_blackout :: "os \<Rightarrow> 'j asks \<Rightarrow> 'j service \<Rightarrow> ('j service \<times> bool) res" where
  "is_blackout w ask s =
     (case s_handler s of None \<Rightarrow> Inr (s, False) | Some h \<Rightarrow> if has_failed w s then ask h s else Inr (s, False))"

definition stts :: "bool \<Rightarrow> bool \<Rightarrow> string" where
  "stts up blackout = (if up then ''ok'' else if blackout then ''ok (blackout)'' else ''failed'')"

definition socket_writes :: "'j jsonlib \<Rightarrow> os \<Rightarrow> 'j service \<Rightarrow> bool \<Rightarrow> nat \<times> socket \<Rightarrow> 'j writes" where
  "socket_writes J w s blackout = (\<lambda>(n, k).
     [([Key ''sockets'', Idx n, Key ''name''], j_string J (getSource k)),
      ([Key ''sockets'', Idx n, Key ''status''], j_string J (stts (serv_haveSocket w s (sock_id k)) blackout))])"

definition process_info :: "'j jsonlib \<Rightarrow> os \<Rightarrow> string \<Rightarrow> nat \<Rightarrow> process \<Rightarrow> (process \<times> 'j writes) res" where
  "process_info J w arr n p =
     bindR (getCWD w p) (\<lambda>(p1, c).
     bindR (getUsername w p1) (\<lambda>(p2, u).
     Inr (p2, [([Key arr, Idx n, Key ''pid''], j_uint J (unat (pid p))),
               ([Key arr, Idx n, Key ''cwd''], j_string J c),
               ([Key arr, Idx n, Key ''username''], j_string J u)])))"

definition main_writes :: "'j jsonlib \<Rightarrow> os \<Rightarrow> bool \<Rightarrow> nat \<times> process \<Rightarrow> (process \<times> 'j writes) res" where
  "main_writes J w blackout = (\<lambda>(n, p).
     bindR (if proc_getStatus w p then process_info J w ''process'' n p else Inr (p, [])) (\<lambda>(p', ws).
     Inr (p', [([Key ''process'', Idx n, Key ''name''], j_string J (base_name p)),
               ([Key ''process'', Idx n, Key ''full_path''], j_string J (full_path p)),
               ([Key ''process'', Idx n, Key ''status''], j_string J (stts (proc_getStatus w p) blackout))] @ ws)))"

definition sub_writes :: "'j jsonlib \<Rightarrow> os \<Rightarrow> nat \<times> process \<Rightarrow> (process \<times> 'j writes) res" where
  "sub_writes J w = (\<lambda>(n, p).
     if proc_getStatus w p then
       bindR (process_info J w ''subprocess'' n p) (\<lambda>(p', ws).
       Inr (p', [([Key ''subprocess'', Idx n, Key ''name''], j_string J (base_name p)),
                 ([Key ''subprocess'', Idx n, Key ''full_path''], j_string J (full_path p))] @ ws))
     else Inr (p, []))"

definition property_writes :: "'j jsonlib \<Rightarrow> 'j service \<Rightarrow> 'j writes" where
  "property_writes J s =
     [([Key ''host''], j_string J (s_host s)),
      ([Key ''properties'', Key ''host''], j_string J (s_host s)),
      ([Key ''properties'', Key ''name''], j_string J (s_name s)),
      ([Key ''properties'', Key ''type''], j_string J (s_type s)),
      ([Key ''properties'', Key ''subType''], j_string J (s_subType s)),
      ([Key ''properties'', Key ''uniqName''], j_string J (s_uniqName s))]"

definition getJsonStatus ::
  "'j jsonlib \<Rightarrow> os \<Rightarrow> 'j asks \<Rightarrow> 'j service \<Rightarrow> 'j \<Rightarrow> ('j service \<times> 'j) res" where
  "getJsonStatus J w ask s0 ref =
     bindR (is_blackout w ask s0) (\<lambda>(s, bl).
      bindR (mapR (main_writes J w bl) (enumerate 0 (s_main s))) (\<lambda>ms.
      bindR (mapR (sub_writes J w) (enumerate 0 (s_sub s))) (\<lambda>ss.
      Inr (s\<lparr>s_main := map fst ms, s_sub := map fst ss\<rparr>,
           run_writes J (concat (map (socket_writes J w s bl) (enumerate 0 (s_sockets s))) @
             concat (map snd ms) @ concat (map snd ss) @ property_writes J s) ref))))"

section \<open>Histories\<close>

definition getJsonCollectorHistory :: "'j jsonlib \<Rightarrow> 'j service \<Rightarrow> double \<Rightarrow> 'j \<Rightarrow> 'j res" where
  "getJsonCollectorHistory J s since ref =
     foldR (\<lambda>(k, c) r. bindR (getJsonHistory J c since (j_object J)) (\<lambda>h. Inr (j_set J r k h))) (s_collectors s) ref"

definition log_entry_add :: "'j jsonlib \<Rightarrow> double \<Rightarrow> string \<Rightarrow> 'j \<Rightarrow> 'j \<Rightarrow> 'j res" where
  "log_entry_add J since source e arr =
     bindR (recent J since e) (\<lambda>b.
     Inr (if b then j_append J arr (j_set J e ''source'' (j_string J source)) else arr))"

definition getJsonLogHistory :: "'j jsonlib \<Rightarrow> 'j service \<Rightarrow> double \<Rightarrow> 'j \<Rightarrow> 'j res" where
  "getJsonLogHistory J s since ref =
     bindR (foldR (\<lambda>(k, p). foldR (log_entry_add J since k) (rev (lp_v p))) (s_parsers s) (j_array J)) (\<lambda>arr.
     Inr (j_set J (j_set J (j_set J ref ''entries'' (j_array J)) ''host'' (j_string J (s_host s))) ''entries'' arr))"

definition api_writes :: "'j jsonlib \<Rightarrow> 'j service \<Rightarrow> 'j writes" where
  "api_writes J s =
     (let p = Key (''/service/'' @ getID s @ ''/status''); q = Key (''/service/'' @ getID s @ ''/log'');
          ok = [Key ''get'', Key ''responses'', Key ''200''] in
      [(Key ''paths'' # p # ok @ [Key ''schema'', Key ''$ref''], j_string J ''#/definitions/services''),
       (Key ''paths'' # p # ok @ [Key ''description''], j_string J (s_name s @ '' status'')),
       ([Key ''paths'', p, Key ''get'', Key ''summary''], j_string J (s_name s @ '' service status'')),
       (Key ''paths'' # q # ok @ [Key ''schema'', Key ''$ref''], j_string J ''#/definitions/serviceLog''),
       (Key ''paths'' # q # ok @ [Key ''description''], j_string J (s_name s @ '' Log history'')),
       ([Key ''paths'', q, Key ''get'', Key ''summary''], j_string J (s_name s @ '' service log history''))])"

definition serv_getJson :: "'j jsonlib \<Rightarrow> os \<Rightarrow> 'j service \<times> 'j \<Rightarrow> ('j service \<times> 'j) res" where
  "serv_getJson J w = (\<lambda>(s, p_defs).
     foldR (\<lambda>(k, c) (s', p).
       bindR (getDefinitions J c (j_get J p ''definitions'')) (\<lambda>d.
       let p1 = j_set J p ''definitions'' d in
       bindR (getPaths J w (Some (getID s)) c (j_get J p1 ''paths'')) (\<lambda>(c', ps).
       Inr (s'\<lparr>s_collectors := mput k c' (s_collectors s')\<rparr>, j_set J p1 ''paths'' ps))))
      (s_collectors s) (s, run_writes J (api_writes J s) p_defs))"

section \<open>Tables of a report\<close>

text \<open>
  What the library's documentation says of an array written by index: it grows as needed and the other
  elements stay; reading an element that is not there gives null.
\<close>

locale json_index = json_null +
  assumes at_null: "j_at J (j_null J) n = j_null J"
    and arr_set_at: "v = j_null J \<or> j_isArray J v \<Longrightarrow> j_isArray J (j_set_at J v n x)"
    and at_set_at: "v = j_null J \<or> j_isArray J v \<Longrightarrow> j_at J (j_set_at J v n x) n' = (if n' = n then x else j_at J v n')"

interpretation ref_index: json_index ref_json
  by unfold_locales (auto simp: jv_at_def jv_set_at_def Let_def nth_append nth_list_update split: jv.splits)

text \<open>The member \<open>k\<close> of row \<open>n\<close> of a table, and the shape a table has while it is written.\<close>

definition cell :: "'j jsonlib \<Rightarrow> 'j \<Rightarrow> string \<Rightarrow> nat \<Rightarrow> string \<Rightarrow> 'j" where
  "cell J ref arr n k = j_get J (j_at J (j_get J ref arr) n) k"

definition table_ok :: "'j jsonlib \<Rightarrow> string \<Rightarrow> 'j \<Rightarrow> bool" where
  "table_ok J arr ref \<longleftrightarrow> node_ok J ref \<and> (j_get J ref arr = j_null J \<or> j_isArray J (j_get J ref arr)) \<and>
     (\<forall>n. node_ok J (j_at J (j_get J ref arr) n))"

text \<open>An assignment that respects the table: to a cell of it, or to another member.\<close>

definition fits_table :: "string \<Rightarrow> sub list \<Rightarrow> bool" where
  "fits_table arr path \<longleftrightarrow> (\<exists>n k. path = [Key arr, Idx n, Key k]) \<or> (\<exists>a rest. path = Key a # rest \<and> a \<noteq> arr)"

context json_index
begin

lemma put_cell:
  assumes "table_ok J arr ref"
  shows "table_ok J arr (j_put J [Key arr, Idx n, Key k] x ref)"
    "cell J (j_put J [Key arr, Idx n, Key k] x ref) arr n' k' = (if n' = n \<and> k' = k then x else cell J ref arr n' k')"
proof -
  let ?t = "j_get J ref arr"
  have t: "node_ok J ref" "?t = j_null J \<or> j_isArray J ?t" "\<And>n. node_ok J (j_at J ?t n)" using assms by (auto simp: table_ok_def)
  show "table_ok J arr (j_put J [Key arr, Idx n, Key k] x ref)"
    using t(3) node_set[OF t(1)] node_set[OF t(3)[of n]]
    by (auto simp: table_ok_def node_get_set[OF t(1)] at_set_at[OF t(2)] arr_set_at[OF t(2)] node_ok_def[of J "j_set J _ _ _"])
  show "cell J (j_put J [Key arr, Idx n, Key k] x ref) arr n' k' = (if n' = n \<and> k' = k then x else cell J ref arr n' k')"
    by (auto simp: cell_def node_get_set[OF t(1)] at_set_at[OF t(2)] node_get_set[OF t(3)])
qed

lemma put_elsewhere:
  assumes "table_ok J arr ref" "a \<noteq> arr"
  shows "table_ok J arr (j_put J (Key a # rest) x ref)" "cell J (j_put J (Key a # rest) x ref) arr n k = cell J ref arr n k"
proof -
  have n: "node_ok J ref" using assms(1) by (simp add: table_ok_def)
  then have "j_get J (j_put J (Key a # rest) x ref) arr = j_get J ref arr" using assms(2) by (simp add: node_get_set)
  moreover have "node_ok J (j_put J (Key a # rest) x ref)" using node_set[OF n] by (simp add: node_ok_def)
  ultimately show "table_ok J arr (j_put J (Key a # rest) x ref)" "cell J (j_put J (Key a # rest) x ref) arr n k = cell J ref arr n k"
    using assms(1) by (simp_all add: table_ok_def cell_def del: j_put.simps)
qed

lemma put_fits:
  assumes "table_ok J arr ref" "fits_table arr path"
  shows "table_ok J arr (j_put J path x ref)"
    "path \<noteq> [Key arr, Idx n, Key k] \<Longrightarrow> cell J (j_put J path x ref) arr n k = cell J ref arr n k"
  using assms put_cell[OF assms(1)] put_elsewhere[OF assms(1)] by (auto simp: fits_table_def simp del: j_put.simps split: if_splits)

lemma run_writes_table:
  assumes "table_ok J arr ref" "\<forall>p \<in> fst ` set ws. fits_table arr p"
  shows "table_ok J arr (run_writes J ws ref)"
  using assms
proof (induction ws arbitrary: ref)
  case (Cons w ws)
  then show ?case using put_fits(1)[of arr ref "fst w" "snd w"] by (simp add: run_writes_def case_prod_unfold)
qed (simp add: run_writes_def)

lemma run_writes_untouched:
  assumes "table_ok J arr ref" "\<forall>p \<in> fst ` set ws. fits_table arr p" "[Key arr, Idx n, Key k] \<notin> fst ` set ws"
  shows "cell J (run_writes J ws ref) arr n k = cell J ref arr n k"
  using assms
proof (induction ws arbitrary: ref)
  case (Cons w ws)
  then have "table_ok J arr (j_put J (fst w) (snd w) ref)" "cell J (j_put J (fst w) (snd w) ref) arr n k = cell J ref arr n k"
    using put_fits[of arr ref "fst w"] by auto
  then show ?case using Cons by (simp add: run_writes_def case_prod_unfold)
qed (simp add: run_writes_def)

text \<open>A cell that is assigned one value only, at least once, has it in the end.\<close>

lemma run_writes_cell:
  assumes "table_ok J arr ref" "\<forall>p \<in> fst ` set ws. fits_table arr p"
    and "([Key arr, Idx n, Key k], x) \<in> set ws" "\<And>y. ([Key arr, Idx n, Key k], y) \<in> set ws \<Longrightarrow> y = x"
  shows "cell J (run_writes J ws ref) arr n k = x"
proof -
  let ?p = "[Key arr, Idx n, Key k]"
  have "\<exists>u \<in> set ws. fst u = ?p" using assms(3) by (rule bexI[rotated]) simp
  then obtain us v vs where ws: "ws = us @ v # vs" "fst v = ?p" "\<forall>u \<in> set vs. fst u \<noteq> ?p"
    by (rule split_list_last_propE)
  have v: "v = (?p, x)" using assms(4)[of "snd v"] ws(1,2) by (cases v) auto
  let ?r = "run_writes J us ref"
  have us: "table_ok J arr ?r" using run_writes_table[OF assms(1), of us] assms(2) ws(1) by auto
  have "run_writes J ws ref = run_writes J vs (j_put J ?p x ?r)" by (simp add: run_writes_def ws(1) v)
  moreover have "?p \<notin> fst ` set vs" using ws(3) by auto
  ultimately show ?thesis
    using run_writes_untouched[OF put_cell(1)[OF us], of vs n k n k x] assms(2) put_cell(2)[OF us] ws(1) by auto
qed

end

lemma mapR_nth:
  "mapR f xs = Inr ys \<Longrightarrow> length ys = length xs \<and> (\<forall>i < length xs. f (xs ! i) = Inr (ys ! i))"
proof (induction xs arbitrary: ys)
  case (Cons x xs)
  then obtain z zs where "f x = Inr z" "mapR f xs = Inr zs" "ys = z # zs" by (auto simp: bindR_Inr_iff)
  then show ?case using Cons.IH by (auto simp: less_Suc_eq_0_disj)
qed simp

lemma mapR_set: "mapR f xs = Inr ys \<Longrightarrow> y \<in> set ys \<Longrightarrow> \<exists>x \<in> set xs. f x = Inr y"
  using mapR_nth[of f xs ys] by (metis in_set_conv_nth nth_mem)

text \<open>Which assignments the rows of the three tables and the properties consist of.\<close>

lemma getCWD_pid: "getCWD w p = Inr (p', c) \<Longrightarrow> pid p' = pid p"
  by (cases "readlink_buf w 1024 (proc_path (pid p) ''/cwd'')") (auto simp: getCWD_def split: if_splits option.splits)

lemma getUsername_pid: "getUsername w p = Inr (p', u) \<Longrightarrow> pid p' = pid p"
  by (cases "find_uid (file_lines w (proc_path (pid p) ''/status''))") (auto simp: getUsername_def split: if_splits option.splits)

lemma process_info_writes:
  assumes "process_info J w arr n p = Inr (p', ws)"
  shows "pid p' = pid p \<and> (\<exists>a b c. ws = [([Key arr, Idx n, Key ''pid''], a), ([Key arr, Idx n, Key ''cwd''], b), ([Key arr, Idx n, Key ''username''], c)])"
proof -
  obtain p1 c where 1: "getCWD w p = Inr (p1, c)" using assms by (cases "getCWD w p") (auto simp: process_info_def)
  obtain p2 u where 2: "getUsername w p1 = Inr (p2, u)" using assms 1 by (cases "getUsername w p1") (auto simp: process_info_def)
  show ?thesis using assms getCWD_pid[OF 1] getUsername_pid[OF 2] by (auto simp: process_info_def 1 2)
qed

lemma main_row:
  assumes "main_writes J w bl (n, p) = Inr (p', ws)"
  shows "pid p' = pid p" "\<forall>q \<in> fst ` set ws. \<exists>k. q = [Key ''process'', Idx n, Key k]"
    "([Key ''process'', Idx n, Key ''status''], x) \<in> set ws \<longleftrightarrow> x = j_string J (stts (proc_getStatus w p) bl)"
    "([Key ''process'', Idx n, Key ''full_path''], x) \<in> set ws \<longleftrightarrow> x = j_string J (full_path p)"
proof -
  obtain us where us: "(if proc_getStatus w p then process_info J w ''process'' n p else Inr (p, [])) = Inr (p', us)"
    and ws: "ws = [([Key ''process'', Idx n, Key ''name''], j_string J (base_name p)),
               ([Key ''process'', Idx n, Key ''full_path''], j_string J (full_path p)),
               ([Key ''process'', Idx n, Key ''status''], j_string J (stts (proc_getStatus w p) bl))] @ us"
    using assms by (cases "if proc_getStatus w p then process_info J w ''process'' n p else Inr (p, [])") (auto simp: main_writes_def)
  have "pid p' = pid p \<and> (us = [] \<or> (\<exists>a b c. us = [([Key ''process'', Idx n, Key ''pid''], a),
      ([Key ''process'', Idx n, Key ''cwd''], b), ([Key ''process'', Idx n, Key ''username''], c)]))"
    using us process_info_writes[of J w "''process''" n p p' us] by (cases "proc_getStatus w p") simp_all
  then show "pid p' = pid p" "\<forall>q \<in> fst ` set ws. \<exists>k. q = [Key ''process'', Idx n, Key k]"
    "([Key ''process'', Idx n, Key ''status''], x) \<in> set ws \<longleftrightarrow> x = j_string J (stts (proc_getStatus w p) bl)"
    "([Key ''process'', Idx n, Key ''full_path''], x) \<in> set ws \<longleftrightarrow> x = j_string J (full_path p)"
    unfolding ws by auto
qed

lemma sub_row:
  assumes "sub_writes J w (n, p) = Inr (p', ws)"
  shows "pid p' = pid p" "\<forall>q \<in> fst ` set ws. \<exists>k. q = [Key ''subprocess'', Idx n, Key k]"
proof -
  have "pid p' = pid p \<and> (\<forall>q \<in> fst ` set ws. \<exists>k. q = [Key ''subprocess'', Idx n, Key k])"
  proof (cases "proc_getStatus w p")
    case True
    then obtain us where us: "process_info J w ''subprocess'' n p = Inr (p', us)"
      and ws: "ws = [([Key ''subprocess'', Idx n, Key ''name''], j_string J (base_name p)),
                 ([Key ''subprocess'', Idx n, Key ''full_path''], j_string J (full_path p))] @ us"
      using assms by (cases "process_info J w ''subprocess'' n p") (auto simp: sub_writes_def)
    then show ?thesis using process_info_writes[OF us] by auto
  qed (use assms in \<open>auto simp: sub_writes_def\<close>)
  then show "pid p' = pid p" "\<forall>q \<in> fst ` set ws. \<exists>k. q = [Key ''subprocess'', Idx n, Key k]" by blast+
qed

text \<open>The rows of a report by table.\<close>

lemma socket_rows:
  "(p, x) \<in> set (concat (map (socket_writes J w s bl) (enumerate 0 ks))) \<longleftrightarrow>
     (\<exists>n < length ks. (p = [Key ''sockets'', Idx n, Key ''name''] \<and> x = j_string J (getSource (ks ! n))) \<or>
        (p = [Key ''sockets'', Idx n, Key ''status''] \<and> x = j_string J (stts (serv_haveSocket w s (sock_id (ks ! n))) bl)))"
  by (fastforce simp: socket_writes_def in_set_enumerate_eq)

lemma in_concat_snd: "z \<in> set (concat (map snd ms)) \<longleftrightarrow> (\<exists>j < length ms. z \<in> set (snd (ms ! j)))"
  by (induction ms) (auto simp: less_Suc_eq_0_disj)

lemma main_rows:
  assumes "mapR (main_writes J w bl) (enumerate 0 ps) = Inr ms"
  shows "(p, x) \<in> set (concat (map snd ms)) \<Longrightarrow> \<exists>n k. p = [Key ''process'', Idx n, Key k]"
    "i < length ps \<Longrightarrow> ([Key ''process'', Idx i, Key ''status''], x) \<in> set (concat (map snd ms)) \<longleftrightarrow>
       x = j_string J (stts (proc_getStatus w (ps ! i)) bl)"
    "i < length ps \<Longrightarrow> ([Key ''process'', Idx i, Key ''full_path''], x) \<in> set (concat (map snd ms)) \<longleftrightarrow>
       x = j_string J (full_path (ps ! i))"
    "map pid (map fst ms) = map pid ps"
proof -
  have n: "length ms = length ps" "\<And>i. i < length ps \<Longrightarrow> main_writes J w bl (i, ps ! i) = Inr (fst (ms ! i), snd (ms ! i))"
    using mapR_nth[OF assms] by (simp_all add: nth_enumerate_eq)
  note row = main_row[OF n(2)]
  note mem = in_concat_snd[of _ ms, unfolded n(1)]
  show "(p, x) \<in> set (concat (map snd ms)) \<Longrightarrow> \<exists>n k. p = [Key ''process'', Idx n, Key k]"
    unfolding mem using row(2) by (metis fst_conv imageI)
  have only: "j = i" if "j < length ps" "([Key ''process'', Idx i, Key k], y) \<in> set (snd (ms ! j))" for i j k y
    using row(2)[OF that(1)] that(2) by force
  show "i < length ps \<Longrightarrow> ([Key ''process'', Idx i, Key ''status''], x) \<in> set (concat (map snd ms)) \<longleftrightarrow>
       x = j_string J (stts (proc_getStatus w (ps ! i)) bl)"
    unfolding mem using only row(3) by metis
  show "i < length ps \<Longrightarrow> ([Key ''process'', Idx i, Key ''full_path''], x) \<in> set (concat (map snd ms)) \<longleftrightarrow>
       x = j_string J (full_path (ps ! i))"
    unfolding mem using only row(4) by metis
  show "map pid (map fst ms) = map pid ps" using n(1) row(1) by (simp add: list_eq_iff_nth_eq)
qed

lemma sub_rows:
  assumes "mapR (sub_writes J w) (enumerate 0 ps) = Inr ms"
  shows "(p, x) \<in> set (concat (map snd ms)) \<Longrightarrow> \<exists>n k. p = [Key ''subprocess'', Idx n, Key k]"
    "map pid (map fst ms) = map pid ps"
proof -
  have n: "length ms = length ps" "\<And>i. i < length ps \<Longrightarrow> sub_writes J w (i, ps ! i) = Inr (fst (ms ! i), snd (ms ! i))"
    using mapR_nth[OF assms] by (simp_all add: nth_enumerate_eq)
  note row = sub_row[OF n(2)]
  show "(p, x) \<in> set (concat (map snd ms)) \<Longrightarrow> \<exists>n k. p = [Key ''subprocess'', Idx n, Key k]"
    unfolding in_concat_snd n(1) using row(2) by (metis fst_conv imageI)
  show "map pid (map fst ms) = map pid ps" using n(1) row(1) by (simp add: list_eq_iff_nth_eq)
qed

lemma property_rows: "(p, x) \<in> set (property_writes J s) \<Longrightarrow> \<exists>a r. p = Key a # r \<and> a \<in> {''host'', ''properties''}"
  by (auto simp: property_writes_def)

lemma table_object:
  assumes "json_index J"
  shows "table_ok J arr (j_object J)"
proof -
  have n: "json_null J" and l: "json_laws J" using assms by (simp_all add: json_index_def json_null_def)
  have "j_get J (j_object J) k = j_null J" for k
    using json_null.get_missing[OF n json_laws.obj_object[OF l] json_laws.member_object[OF l]] .
  then show ?thesis using json_laws.obj_object[OF l] json_index.at_null[OF assms] by (simp add: table_ok_def node_ok_def)
qed

text \<open>All the assignments of a status report, and the table each of them goes to.\<close>

lemma status_fits:
  assumes "mapR (main_writes J w bl) (enumerate 0 ps) = Inr ms" "mapR (sub_writes J w) (enumerate 0 qs) = Inr ss"
    and "arr \<in> {''sockets'', ''process'', ''subprocess''}"
  shows "\<forall>p \<in> fst ` set (concat (map (socket_writes J w s bl) (enumerate 0 ks)) @ concat (map snd ms) @
      concat (map snd ss) @ property_writes J s). fits_table arr p"
proof -
  have "fits_table arr p" if "(p, x) \<in> set (concat (map (socket_writes J w s bl) (enumerate 0 ks)))" for p x
    using that assms(3) unfolding socket_rows by (auto simp: fits_table_def)
  moreover have "fits_table arr p" if "(p, x) \<in> set (concat (map snd ms))" for p x
    using main_rows(1)[OF assms(1) that] assms(3) by (auto simp: fits_table_def)
  moreover have "fits_table arr p" if "(p, x) \<in> set (concat (map snd ss))" for p x
    using sub_rows(1)[OF assms(2) that] assms(3) by (auto simp: fits_table_def)
  moreover have "fits_table arr p" if "(p, x) \<in> set (property_writes J s)" for p x
    using property_rows[OF that] assms(3) by (auto simp: fits_table_def)
  ultimately show ?thesis unfolding set_append by fastforce
qed

lemma status_cells:
  fixes s :: "'j service" and ks :: "socket list"
  assumes "mapR (main_writes J w bl) (enumerate 0 ps) = Inr ms" "mapR (sub_writes J w) (enumerate 0 qs) = Inr ss"
  defines "ws \<equiv> concat (map (socket_writes J w s bl) (enumerate 0 ks)) @ concat (map snd ms) @
      concat (map snd ss) @ property_writes J s"
  shows "i < length ks \<Longrightarrow> ([Key ''sockets'', Idx i, Key ''name''], x) \<in> set ws \<longleftrightarrow> x = j_string J (getSource (ks ! i))"
    "i < length ks \<Longrightarrow> ([Key ''sockets'', Idx i, Key ''status''], x) \<in> set ws \<longleftrightarrow>
       x = j_string J (stts (serv_haveSocket w s (sock_id (ks ! i))) bl)"
    "i < length ps \<Longrightarrow> ([Key ''process'', Idx i, Key ''status''], x) \<in> set ws \<longleftrightarrow>
       x = j_string J (stts (proc_getStatus w (ps ! i)) bl)"
    "i < length ps \<Longrightarrow> ([Key ''process'', Idx i, Key ''full_path''], x) \<in> set ws \<longleftrightarrow> x = j_string J (full_path (ps ! i))"
proof -
  have no: "([Key ''sockets'', Idx i, Key k], x) \<notin> set (concat (map snd ms))"
     "([Key ''sockets'', Idx i, Key k], x) \<notin> set (concat (map snd ss))"
     "([Key ''sockets'', Idx i, Key k], x) \<notin> set (property_writes J s)"
     "([Key ''process'', Idx i, Key k], x) \<notin> set (concat (map (socket_writes J w s bl) (enumerate 0 ks)))"
     "([Key ''process'', Idx i, Key k], x) \<notin> set (concat (map snd ss))"
     "([Key ''process'', Idx i, Key k], x) \<notin> set (property_writes J s)" for i k x
    using main_rows(1)[OF assms(1)] sub_rows(1)[OF assms(2)] property_rows unfolding socket_rows by fastforce+
  show "i < length ks \<Longrightarrow> ([Key ''sockets'', Idx i, Key ''name''], x) \<in> set ws \<longleftrightarrow> x = j_string J (getSource (ks ! i))"
    "i < length ks \<Longrightarrow> ([Key ''sockets'', Idx i, Key ''status''], x) \<in> set ws \<longleftrightarrow>
       x = j_string J (stts (serv_haveSocket w s (sock_id (ks ! i))) bl)"
    unfolding ws_def set_append Un_iff socket_rows using no(1-3) by auto
  show "i < length ps \<Longrightarrow> ([Key ''process'', Idx i, Key ''status''], x) \<in> set ws \<longleftrightarrow>
       x = j_string J (stts (proc_getStatus w (ps ! i)) bl)"
    unfolding ws_def set_append Un_iff using no(4-6) main_rows(2)[OF assms(1)] by blast
  show "i < length ps \<Longrightarrow> ([Key ''process'', Idx i, Key ''full_path''], x) \<in> set ws \<longleftrightarrow> x = j_string J (full_path (ps ! i))"
    unfolding ws_def set_append Un_iff using no(4-6) main_rows(3)[OF assms(1)] by blast
qed

text \<open>The parts of a status report.\<close>

lemma getJsonStatus_parts:
  assumes "getJsonStatus J w ask s0 ref0 = Inr (s', ref)"
  obtains s bl ms ss where "is_blackout w ask s0 = Inr (s, bl)" "mapR (main_writes J w bl) (enumerate 0 (s_main s)) = Inr ms"
    "mapR (sub_writes J w) (enumerate 0 (s_sub s)) = Inr ss" "s' = s\<lparr>s_main := map fst ms, s_sub := map fst ss\<rparr>"
    "ref = run_writes J (concat (map (socket_writes J w s bl) (enumerate 0 (s_sockets s))) @
       concat (map snd ms) @ concat (map snd ss) @ property_writes J s) ref0"
proof -
  obtain s bl where b: "is_blackout w ask s0 = Inr (s, bl)"
    using assms by (cases "is_blackout w ask s0") (auto simp: getJsonStatus_def)
  obtain ms where ms: "mapR (main_writes J w bl) (enumerate 0 (s_main s)) = Inr ms"
    using assms b by (cases "mapR (main_writes J w bl) (enumerate 0 (s_main s))") (auto simp: getJsonStatus_def)
  obtain ss where ss: "mapR (sub_writes J w) (enumerate 0 (s_sub s)) = Inr ss"
    using assms b ms by (cases "mapR (sub_writes J w) (enumerate 0 (s_sub s))") (auto simp: getJsonStatus_def)
  show ?thesis using that[OF b ms ss] assms b ms ss by (simp add: getJsonStatus_def)
qed

lemma status_node:
  assumes "json_index J" "getJsonStatus J w ask s0 (j_object J) = Inr (s', ref)" "is_blackout w ask s0 = Inr (s, bl)"
  shows "node_ok J ref" "s_parsers s' = s_parsers s"
proof -
  from assms(2) obtain ms ss where p: "mapR (main_writes J w bl) (enumerate 0 (s_main s)) = Inr ms"
    "mapR (sub_writes J w) (enumerate 0 (s_sub s)) = Inr ss" "s' = s\<lparr>s_main := map fst ms, s_sub := map fst ss\<rparr>"
    "ref = run_writes J (concat (map (socket_writes J w s bl) (enumerate 0 (s_sockets s))) @
       concat (map snd ms) @ concat (map snd ss) @ property_writes J s) (j_object J)"
    by (rule getJsonStatus_parts) (simp add: assms(3))
  have "table_ok J ''sockets'' ref"
    unfolding p(4) by (rule json_index.run_writes_table[OF assms(1) table_object[OF assms(1)] status_fits[OF p(1,2)]]) simp
  then show "node_ok J ref" by (simp add: table_ok_def)
  show "s_parsers s' = s_parsers s" by (simp add: p(3))
qed

text \<open>Writing the report changes no process's identity, nor anything else of the service than what is read of its processes.\<close>

lemma status_keeps:
  assumes "getJsonStatus J w ask s0 ref0 = Inr (s', ref)"
  obtains s bl where "is_blackout w ask s0 = Inr (s, bl)" "map pid (s_main s') = map pid (s_main s)"
    "map pid (s_sub s') = map pid (s_sub s)" "s' = s\<lparr>s_main := s_main s', s_sub := s_sub s'\<rparr>"
proof -
  from assms obtain s bl ms ss where "is_blackout w ask s0 = Inr (s, bl)" "mapR (main_writes J w bl) (enumerate 0 (s_main s)) = Inr ms"
    "mapR (sub_writes J w) (enumerate 0 (s_sub s)) = Inr ss" "s' = s\<lparr>s_main := map fst ms, s_sub := map fst ss\<rparr>"
    by (rule getJsonStatus_parts)
  then show ?thesis using that[of s bl] main_rows(4)[of J w bl] sub_rows(2)[of J w] by simp
qed


text \<open>A handler that leaves the service as it is and never announces a blackout.\<close>

definition no_blackout :: "'j asks" where
  "no_blackout h s = Inr (s, False)"

lemma no_blackout [simp]: "is_blackout w no_blackout s = Inr (s, False)"
  by (simp add: is_blackout_def no_blackout_def split: option.split)

definition demo_up :: "jv service" where
  "demo_up = (blank_service ref_json [])\<lparr>s_name := ''nginx'', s_uniqName := ''web'', s_sockets := [demo_socket],
     s_main := [demo_process 0]\<rparr>"

lemma demo_status:
  "getJsonStatus ref_json demo_os no_blackout demo_up (JObj []) =
     Inr (demo_up, run_writes ref_json
      ([([Key ''sockets'', Idx 0, Key ''name''], JStr (getSource demo_socket)), ([Key ''sockets'', Idx 0, Key ''status''], JStr ''failed''),
        ([Key ''process'', Idx 0, Key ''name''], JStr ''nginx''), ([Key ''process'', Idx 0, Key ''full_path''], JStr ''/usr/sbin/nginx''),
        ([Key ''process'', Idx 0, Key ''status''], JStr ''failed'')] @ property_writes ref_json demo_up) (JObj []))"
proof -
  have d: "\<not> proc_getStatus demo_os (demo_process 0)" by (simp add: getStatus_alive demo_alive demo_process_def)
  show ?thesis
    using d by (simp add: getJsonStatus_def demo_up_def blank_service_def Let_def is_blackout_def main_writes_def
        socket_writes_def stts_def serv_haveSocket_def) (simp add: demo_process_def)
qed

lemma demo_up_sel: "s_main demo_up = [demo_process 0]" "s_handler demo_up = None" "s_sockets demo_up = [demo_socket]"
  by (simp_all add: demo_up_def blank_service_def)


section \<open>Log entries of a report\<close>

context json_laws
begin

lemma log_entries_of_parser:
  assumes "j_isArray J arr" "\<forall>e \<in> set es. stamped J e"
  shows "\<exists>arr'. foldR (log_entry_add J since k) es arr = Inr arr' \<and> j_isArray J arr' \<and> j_elems J arr' = j_elems J arr @
    map (\<lambda>e. j_set J e ''source'' (j_string J k)) (filter (\<lambda>e. dle since (stamp J e)) es)"
  using assms
proof (induction es arbitrary: arr)
  case (Cons e es)
  let ?arr = "if dle since (stamp J e) then j_append J arr (j_set J e ''source'' (j_string J k)) else arr"
  have "log_entry_add J since k e arr = Inr ?arr" using Cons.prems(2) by (simp add: log_entry_add_def recent_stamped)
  then show ?case
    using Cons.IH[of ?arr] Cons.prems by (cases "dle since (stamp J e)") (simp_all add: arr_append elems_append)
qed simp

lemma log_entries_of_parsers:
  assumes "j_isArray J arr" "\<forall>(k, p) \<in> set ps. \<forall>e \<in> set (lp_v p). stamped J e"
  shows "\<exists>arr'. foldR (\<lambda>(k, p). foldR (log_entry_add J since k) (rev (lp_v p))) ps arr = Inr arr' \<and> j_isArray J arr' \<and>
    j_elems J arr' = j_elems J arr @ concat (map (\<lambda>(k, p). map (\<lambda>e. j_set J e ''source'' (j_string J k))
      (filter (\<lambda>e. dle since (stamp J e)) (rev (lp_v p)))) ps)"
  using assms
proof (induction ps arbitrary: arr)
  case (Cons kp ps)
  obtain k p where kp: "kp = (k, p)" by (cases kp)
  obtain arr1 where 1: "foldR (log_entry_add J since k) (rev (lp_v p)) arr = Inr arr1" "j_isArray J arr1"
    "j_elems J arr1 = j_elems J arr @ map (\<lambda>e. j_set J e ''source'' (j_string J k))
      (filter (\<lambda>e. dle since (stamp J e)) (rev (lp_v p)))"
    using log_entries_of_parser[of arr "rev (lp_v p)" since k] Cons.prems by (auto simp: kp)
  then show ?case using Cons.IH[OF 1(2)] Cons.prems(2) by (auto simp: kp)
qed simp

end

lemma log_history_parts:
  assumes "json_laws J" "\<forall>(k, p) \<in> set (s_parsers s). \<forall>e \<in> set (lp_v p). stamped J e"
  obtains arr where "getJsonLogHistory J s since ref0 =
      Inr (j_set J (j_set J (j_set J ref0 ''entries'' (j_array J)) ''host'' (j_string J (s_host s))) ''entries'' arr)"
    "j_elems J arr = concat (map (\<lambda>(k, p). map (\<lambda>e. j_set J e ''source'' (j_string J k))
      (filter (\<lambda>e. dle since (stamp J e)) (rev (lp_v p)))) (s_parsers s))"
proof -
  obtain arr where "foldR (\<lambda>(k, p). foldR (log_entry_add J since k) (rev (lp_v p))) (s_parsers s) (j_array J) = Inr arr"
    "j_elems J arr = concat (map (\<lambda>(k, p). map (\<lambda>e. j_set J e ''source'' (j_string J k))
      (filter (\<lambda>e. dle since (stamp J e)) (rev (lp_v p)))) (s_parsers s))"
    using json_laws.log_entries_of_parsers[OF assms(1) json_laws.arr_array[OF assms(1)] assms(2)]
    by (auto simp: json_laws.elems_array[OF assms(1)])
  then show ?thesis using that[of arr] by (simp add: getJsonLogHistory_def)
qed

text \<open>
  C12: the log history of a service, when every entry of its parsers is an object with a time that can
  be read, as every entry the parsers make is: the call returns, and the history holds exactly the
  entries whose time is at or after the time asked for, compared as doubles, parser by parser, oldest
  first, each with the name of the file pattern it comes from, and the host of the service.
\<close>

theorem log_history_since:
  assumes "json_laws J" "\<forall>(k, p) \<in> set (s_parsers s). \<forall>e \<in> set (lp_v p). stamped J e"
  shows "\<exists>ref. getJsonLogHistory J s since (j_object J) = Inr ref \<and>
    j_elems J (j_get J ref ''entries'') = concat (map (\<lambda>(k, p). map (\<lambda>e. j_set J e ''source'' (j_string J k))
      (filter (\<lambda>e. dle since (stamp J e)) (rev (lp_v p)))) (s_parsers s)) \<and>
    j_get J ref ''host'' = j_string J (s_host s)"
proof -
  from assms obtain arr where "getJsonLogHistory J s since (j_object J) =
      Inr (j_set J (j_set J (j_set J (j_object J) ''entries'' (j_array J)) ''host'' (j_string J (s_host s))) ''entries'' arr)"
    "j_elems J arr = concat (map (\<lambda>(k, p). map (\<lambda>e. j_set J e ''source'' (j_string J k))
      (filter (\<lambda>e. dle since (stamp J e)) (rev (lp_v p)))) (s_parsers s))"
    by (rule log_history_parts)
  then show ?thesis
    by (simp add: json_laws.obj_object[OF assms(1)] json_laws.obj_set[OF assms(1)] json_laws.get_set[OF assms(1)])
qed

definition demo_logged :: "jv service" where
  "demo_logged = (blank_service ref_json [])\<lparr>s_host := ''h'', s_parsers :=
     [(''error.log'', \<lparr>lp_cfg = JNull, lp_v = [JObj [(''timestamp'', JDbl (Fin 9))], JObj [(''timestamp'', JDbl (Fin 7))],
        JObj [(''timestamp'', JDbl (Fin 3))]], lp_filename = ''/var/log/error.log'', lp_pos = 0, lp_lineNo = 3, lp_active = True\<rparr>)]\<rparr>"

lemma demo_logged_stamped: "\<forall>(k, p) \<in> set (s_parsers demo_logged). \<forall>e \<in> set (lp_v p). stamped ref_json e"
  by (simp add: demo_logged_def blank_service_def stamped_def mhas_def)

text \<open>Asked for everything since 7, the entry of time 7 is reported.\<close>

theorem log_history_since_witness:
  "\<exists>ref. getJsonLogHistory ref_json demo_logged (Fin 7) (j_object ref_json) = Inr ref \<and>
     j_elems ref_json (j_get ref_json ref ''entries'') =
       [JObj [(''source'', JStr ''error.log''), (''timestamp'', JDbl (Fin 7))],
        JObj [(''source'', JStr ''error.log''), (''timestamp'', JDbl (Fin 9))]] \<and> j_get ref_json ref ''host'' = JStr ''h''"
  using log_history_since[OF ref.json_laws_axioms demo_logged_stamped, of "Fin 7"]
  by (simp add: demo_logged_def blank_service_def stamp_def)

section \<open>Handlers\<close>

text \<open>
  A handler plugin whose name is not also that of a collector plugin is created with an empty file name
  instead of its own, and the null entry this leaves in the factory of collectors makes a later
  request for the collector of that name undefined.
\<close>

theorem handler_file_lost:
  assumes "map_of (f_handler F) n = Some (Some m, luafile)" "map_of (f_collector F) n = None" "\<not> mhas (s_collectors s) n"
  shows "\<exists>F' s'. setHandler n (F, s) = Inr (F', s') \<and> s_handler s' = Some \<lparr>h_plugin = n, h_file = []\<rparr> \<and>
    addCollector J F n (s, cs) = Inr (s, cs) \<and> addCollector J F' n (s', cs) = Inl Undefined"
  using assms by (simp add: setHandler_def addCollector_def)

definition demo_handlers :: "jv factories" where
  "demo_handlers = \<lparr>f_collector = [], f_parser = [], f_handler = [(''backup'', Some (), ''/lua/backup.lua'')]\<rparr>"

theorem handler_file_lost_witness:
  "\<exists>F' s'. setHandler ''backup'' (demo_handlers, demo_up) = Inr (F', s') \<and>
     s_handler s' = Some \<lparr>h_plugin = ''backup'', h_file = []\<rparr>"
proof -
  have "map_of (f_handler demo_handlers) ''backup'' = Some (Some (), ''/lua/backup.lua'')"
    "map_of (f_collector demo_handlers) ''backup'' = None" "\<not> mhas (s_collectors demo_up) ''backup''"
    by (simp_all add: demo_handlers_def demo_up_def blank_service_def mhas_def)
  then show ?thesis using handler_file_lost by blast
qed

end
