(* ===== verification/SystemCollectors.thy ===== *)
theory SystemCollectors
  imports Collectors
begin

text \<open>
  The collectors of system measures (src/collectors/*.cpp). Each has its constructor and its \<^verbatim>\<open>collect\<close>,
  which reads a file of /proc or /sys through the parameter \<open>os\<close>. The clock \<open>clk\<close> gives the time of
  the reading made for the n-th line or entry. An exception is the value \<open>Inl\<close>, without the state the
  interrupted collection leaves. Mounted file systems come from \<^verbatim>\<open>getmntent\<close> and \<^verbatim>\<open>statvfs\<close> and are
  parameters.
\<close>

type_synonym 'j cstate = "'j collector \<times> counters"

definition base_collector :: "'j jsonlib \<Rightarrow> string \<Rightarrow> 'j \<Rightarrow> u32 \<Rightarrow> u32 \<Rightarrow> counters \<Rightarrow> 'j cstate" where
  "base_collector J nm cfg p_history p_freq cs = new_collector J nm cfg p_history p_freq None cs"

definition add_props :: "string \<Rightarrow> (string \<times> string \<times> string) list \<Rightarrow> 'j cstate \<Rightarrow> 'j cstate res" where
  "add_props k ps s = foldR (\<lambda>(p, ds, ty). on_ressource k (res_prop p ds ty)) ps s"

definition substr_int :: "string \<Rightarrow> int \<Rightarrow> size_t \<Rightarrow> string res" where
  "substr_int line pos n = substr line (size_of_int pos) n"

section \<open>Load average\<close>

definition new_cpuload :: "'j jsonlib \<Rightarrow> 'j \<Rightarrow> counters \<Rightarrow> 'j cstate res" where
  "new_cpuload J cfg cs =
     seqR [addRessource J ''avg'' ''Load average'' ''loadaverage'',
           add_props ''avg'' [(''avg1'', ''Load average (1mn)'', ''number''), (''avg5'', ''Load average (5mn)'', ''number''),
                              (''avg15'', ''Load average (15mn)'', ''number'')],
           with_route] (base_collector J ''cpuload'' cfg 150 10 cs)"

definition set_stod :: "'j jsonlib \<Rightarrow> string \<Rightarrow> string \<Rightarrow> string res \<Rightarrow> 'j cstate \<Rightarrow> 'j cstate res" where
  "set_stod J k p txt_r s =
     bindR txt_r (\<lambda>t. bindR (stod t) (\<lambda>d. on_ressource k (res_set J p (j_double J d)) s))"

definition cpuload_line :: "'j jsonlib \<Rightarrow> (nat \<Rightarrow> double) \<Rightarrow> nat \<times> string \<Rightarrow> 'j cstate \<Rightarrow> 'j cstate res" where
  "cpuload_line J clk = (\<lambda>(n, line).
     (let pos = int_of_size (str_find line '' '' 0);
          end1 = str_find line '' '' (size_of_int (pos + 1));
          pos2 = int_of_size end1;
          end2 = str_find line '' '' (size_of_int (pos2 + 1)) in
      seqR [on_ressource ''avg'' (res_next J (clk n)),
            set_stod J ''avg'' ''avg1'' (substr line 0 (size_of_int pos)),
            set_stod J ''avg'' ''avg5'' (substr_int line pos (sz_sub end1 (size_of_int pos))),
            set_stod J ''avg'' ''avg15'' (substr_int line pos2 (sz_sub end2 (size_of_int pos2)))]))"

definition cpuload_collect :: "'j jsonlib \<Rightarrow> os \<Rightarrow> (nat \<Rightarrow> double) \<Rightarrow> 'j cstate \<Rightarrow> 'j cstate res" where
  "cpuload_collect J w clk = foldR (cpuload_line J clk) (enumerate 0 (file_lines w ''/proc/loadavg''))"

section \<open>Processor frequency\<close>

definition new_cpuspeed :: "'j jsonlib \<Rightarrow> 'j \<Rightarrow> counters \<Rightarrow> 'j cstate res" where
  "new_cpuspeed J cfg cs = with_route (base_collector J ''cpuspeed'' cfg 300 5 cs)"

text \<open>\<^verbatim>\<open>sscanf(name, "%*[^0-9]%d", &cpuid)\<close> with \<^verbatim>\<open>cpuid\<close> preset to \<open>-1\<close>.\<close>

definition scan_cpuid :: "string \<Rightarrow> int" where
  "scan_cpuid nm =
     (let rest = dropWhile (\<lambda>c. \<not> is_digit c) nm
      in if rest = nm \<or> rest = [] then - 1 else sint (atoi rest))"

definition cpuspeed_entry :: "'j jsonlib \<Rightarrow> os \<Rightarrow> (nat \<Rightarrow> double) \<Rightarrow> nat \<times> string \<Rightarrow> 'j cstate \<Rightarrow> 'j cstate res" where
  "cpuspeed_entry J w clk = (\<lambda>(n, ent) s.
     (let dir = ''/sys/devices/system/cpu/cpufreq/'' @ ent; file = dir @ ''/scaling_cur_freq''; cpuid = scan_cpuid ent in
      if cpuid = - 1 then Inr s
      else if take 1 ent = ''.'' then Inr s
      else if os_stat w dir \<noteq> Some True then Inr s
      else if os_stat w file = None then Inr s
      else case os_file w file of
        None \<Rightarrow> Inl LengthError
      | Some str \<Rightarrow>
          seqR [(\<lambda>s. if mhas (c_ressources (fst s)) ent then Inr s
                     else seqR [addRessource J ent (''CPU '' @ show_int cpuid @ '' speed (Mhz)'') ''cpuspeed'',
                                add_props ent [(''MHz'', ''CPU speed (Mhz)'', ''number'')]] s),
                on_ressource ent (res_next J (clk n)),
                on_ressource ent (res_set J ''MHz''
                  (j_int J (let a = sint (atoi str) in if a < 0 then - ((- a) div 1000) else a div 1000)))] s))"

definition cpuspeed_collect :: "'j jsonlib \<Rightarrow> os \<Rightarrow> (nat \<Rightarrow> double) \<Rightarrow> 'j cstate \<Rightarrow> 'j cstate res" where
  "cpuspeed_collect J w clk s =
     (case os_readdir w ''/sys/devices/system/cpu/cpufreq'' of
        None \<Rightarrow> Inr s
      | Some ents \<Rightarrow> foldR (cpuspeed_entry J w clk) (enumerate 0 ents) s)"

section \<open>Processor use\<close>

definition cpuTicks_props :: "(string \<times> string \<times> string) list" where
  "cpuTicks_props =
     [(''user'', ''Normal processes usage(%)'', ''number''), (''nice'', ''Nice processes usage(%)'', ''number''),
      (''system'', ''System usage(%)'', ''number''), (''iowait'', ''IO wait(%)'', ''number''),
      (''irq'', ''Sevicing interupts(%)'', ''number''), (''softirq'', ''Sevicing softirq(%)'', ''number'')]"

text \<open>
  The counters of one line of /proc/stat, in the order a \<^verbatim>\<open>std::map\<close> goes through their names.
\<close>

definition cpu_live :: "string list \<Rightarrow> (string, u32) smap res" where
  "cpu_live raw =
     bindR (mapR (vec_at raw) [1, 2, 3, 4, 5, 6, 7]) (\<lambda>ts.
     case map atoi ts of
       [t1, t2, t3, t4, t5, t6, t7] \<Rightarrow>
         Inr [(''idle'', t4), (''iowait'', if 10000000 < t5 then 0 else t5), (''irq'', t6), (''nice'', t2),
              (''softirq'', t7), (''system'', t3), (''user'', t1)]
     | _ \<Rightarrow> Inl Undefined)"

definition old_of :: "(string, u32) smap \<Rightarrow> string \<Rightarrow> u32" where
  "old_of m k = (case map_of m k of Some x \<Rightarrow> x | None \<Rightarrow> 0)"

definition cpu_diff :: "(string, u32) smap \<Rightarrow> (string, u32) smap \<Rightarrow> (string, u32) smap" where
  "cpu_diff old live = map (\<lambda>(k, x). (k, x - old_of old k)) live"

definition cpu_pct :: "u32 \<Rightarrow> u32 \<Rightarrow> double" where
  "cpu_pct d whole = ddiv (dmul (of_nat_d (unat d)) (Fin 100)) (of_nat_d (unat whole))"

definition cpu_setRaw :: "'j jsonlib \<Rightarrow> string list \<Rightarrow> 'j ressource \<times> counters \<Rightarrow> ('j ressource \<times> counters) res" where
  "cpu_setRaw J raw = (\<lambda>(r, cs).
     case rkind r of
       RCpu old \<Rightarrow>
         bindR (cpu_live raw) (\<lambda>live.
         let diff = cpu_diff old live; whole = sum_list (map snd diff) in
         bindR (foldR (\<lambda>(k, d) r. if k = ''idle'' then Inr r else setProperty J k (j_double J (cpu_pct d whole)) r) diff r) (\<lambda>r'.
         Inr (r'\<lparr>rkind := RCpu (fold (\<lambda>(k, x). mput k x) live old)\<rparr>, cs)))
     | _ \<Rightarrow> Inl Undefined)"

definition cpu_id :: "string \<Rightarrow> string res" where
  "cpu_id line = (if take 4 line = ''cpu '' then Inr ''all'' else substr line 3 (sz_sub (str_find line '' '' 0) 3))"

definition new_cpuuse :: "'j jsonlib \<Rightarrow> os \<Rightarrow> 'j \<Rightarrow> counters \<Rightarrow> 'j cstate res" where
  "new_cpuuse J w cfg cs =
     bindR (foldR (\<lambda>line s.
        if take 3 line = ''cpu'' then
          bindR (cpu_id line) (\<lambda>i.
          bindR (cfg_history J (fst s)) (\<lambda>h.
          let (r, cs') = new_ressource (RCpu []) h ''cpu_usage'' (snd s)
          in Inr (put_ressource i (props cpuTicks_props r) (''CPU '' @ i @ '' usage'') (fst s, cs'))))
        else if take 4 line = ''intr'' then
          new_tick J ''intr'' ''Interrupts (#/s)'' ''cpu_interrupts'' [(''value'', ''Interrupts'', ''number'')] s
        else if take 4 line = ''ctxt'' then
          new_tick J ''ctxt'' ''Context switches (#/s)'' ''cpu_contexts'' [(''value'', ''Context switches'', ''number'')] s
        else Inr s) (file_lines w ''/proc/stat'') (base_collector J ''cpuuse'' cfg 300 5 cs)) (\<lambda>s.
     bindR (with_route s) (\<lambda>(c, cs'). Inr (c\<lparr>c_morrisType := ''Area'', c_morrisOpts := ''  ''\<rparr>, cs')))"

definition tick_line :: "'j jsonlib \<Rightarrow> double \<Rightarrow> string \<Rightarrow> string \<Rightarrow> 'j cstate \<Rightarrow> 'j cstate res" where
  "tick_line J now k line s =
     bindR (substr line 5 (sz_sub (str_find line '' '' 5) 5)) (\<lambda>t.
     seqR [on_ressource k (res_next J now), on_ressource k (res_tick J ''value'' (atoi t))] s)"

definition cpuuse_line :: "'j jsonlib \<Rightarrow> (nat \<Rightarrow> double) \<Rightarrow> nat \<times> string \<Rightarrow> 'j cstate \<Rightarrow> 'j cstate res" where
  "cpuuse_line J clk = (\<lambda>(n, line) s.
     if take 3 line = ''cpu'' then
       bindR (cpu_id line) (\<lambda>i.
       seqR [on_ressource i (res_next J (clk n)), on_ressource i (cpu_setRaw J (tokens line))] s)
     else if take 4 line = ''intr'' then tick_line J (clk n) ''intr'' line s
     else if take 4 line = ''ctxt'' then tick_line J (clk n) ''ctxt'' line s
     else Inr s)"

definition cpuuse_collect :: "'j jsonlib \<Rightarrow> os \<Rightarrow> (nat \<Rightarrow> double) \<Rightarrow> 'j cstate \<Rightarrow> 'j cstate res" where
  "cpuuse_collect J w clk = foldR (cpuuse_line J clk) (enumerate 0 (file_lines w ''/proc/stat''))"

section \<open>Disk statistics\<close>

definition diskStats_props :: "(string \<times> string \<times> string) list" where
  "diskStats_props =
     [(''rcount'', ''Read count/s'', ''number''), (''rmerge'', ''Read merge/s'', ''number''),
      (''rsector'', ''Sectors read/s'', ''number''), (''rtime'', ''Read time ms/s'', ''number''),
      (''wcount'', ''Write count/s'', ''number''), (''wmerge'', ''Write merge/s'', ''number''),
      (''wsector'', ''Sectors write/s'', ''number''), (''wtime'', ''Write time ms/s'', ''number''),
      (''iotime'', ''IO time ms/s'', ''number''), (''iowtime'', ''Weighted IO time ms/s'', ''number'')]"

text \<open>\<^verbatim>\<open>setRaw\<close> of a tick measure: which field of the line goes to which property.\<close>

definition tick_setRaw :: "'j jsonlib \<Rightarrow> (string \<times> nat) list \<Rightarrow> string \<Rightarrow> string list \<Rightarrow> 'j cstate \<Rightarrow> 'j cstate res" where
  "tick_setRaw J fs k raw s =
     foldR (\<lambda>(p, i) s. bindR (vec_at raw i) (\<lambda>t. on_ressource k (res_tick J p (atoi t)) s)) fs s"

definition diskStats_fields :: "(string \<times> nat) list" where
  "diskStats_fields = [(''rcount'', 3), (''rmerge'', 4), (''rsector'', 5), (''rtime'', 6), (''wcount'', 7),
     (''wmerge'', 8), (''wsector'', 9), (''wtime'', 10), (''iotime'', 12), (''iowtime'', 13)]"

definition new_diskstats :: "'j jsonlib \<Rightarrow> 'j \<Rightarrow> counters \<Rightarrow> 'j cstate res" where
  "new_diskstats J cfg cs = with_route (base_collector J ''diskstats'' cfg 300 5 cs)"

definition diskstats_line :: "'j jsonlib \<Rightarrow> (nat \<Rightarrow> double) \<Rightarrow> nat \<times> string \<Rightarrow> 'j cstate \<Rightarrow> 'j cstate res" where
  "diskstats_line J clk = (\<lambda>(n, line) s.
     (let toks = tokens line in
      bindR (vec_at toks 2) (\<lambda>dev.
      if take 3 dev = ''dm-'' then Inr s
      else
        seqR [(\<lambda>s. if mhas (c_ressources (fst s)) dev then Inr s
                   else new_tick J dev (''Disk '' @ dev @ '' statistics'') ''disk_stats'' diskStats_props s),
              on_ressource dev (res_next J (clk n)),
              tick_setRaw J diskStats_fields dev toks] s)))"

definition diskstats_collect :: "'j jsonlib \<Rightarrow> os \<Rightarrow> (nat \<Rightarrow> double) \<Rightarrow> 'j cstate \<Rightarrow> 'j cstate res" where
  "diskstats_collect J w clk = foldR (diskstats_line J clk) (enumerate 0 (file_lines w ''/proc/diskstats''))"

section \<open>Network interfaces\<close>

definition netDev_props :: "(string \<times> string \<times> string) list" where
  "netDev_props =
     [(''rbytes'', ''Bytes/s (receive)'', ''number''), (''rpackets'', ''Packets/s (receive)'', ''number''),
      (''rerrs'', ''Errors/s (receive)'', ''number''), (''rdrop'', ''Drops/s (receive)'', ''number''),
      (''rmulti'', ''Multicast/s (receive)'', ''number''), (''tbytes'', ''Bytes/s (transmit)'', ''number''),
      (''tpackets'', ''Packets/s (transmit)'', ''number''), (''terrs'', ''Errors/s (transmit)'', ''number''),
      (''tdrop'', ''Drop/s (transmit)'', ''number'')]"

definition netDev_fields :: "(string \<times> nat) list" where
  "netDev_fields = [(''rbytes'', 0), (''rpackets'', 1), (''rerrs'', 2), (''rdrop'', 3), (''rmulti'', 7),
     (''tbytes'', 8), (''tpackets'', 9), (''terrs'', 10), (''tdrop'', 11)]"

definition new_netdev :: "'j jsonlib \<Rightarrow> 'j \<Rightarrow> counters \<Rightarrow> 'j cstate res" where
  "new_netdev J cfg cs = with_route (base_collector J ''netdev'' cfg 300 5 cs)"

definition netdev_id :: "string \<Rightarrow> string res" where
  "netdev_id line =
     (let endid = int_of_size (str_find line '':'' 0);
          start = int_of_size (sz_add (str_rfind_from line (CHR '' '') (size_of_int endid)) 1)
      in substr line (size_of_int start) (size_of_int (endid - start)))"

definition netdev_line :: "'j jsonlib \<Rightarrow> (nat \<Rightarrow> double) \<Rightarrow> nat \<times> string \<Rightarrow> 'j cstate \<Rightarrow> 'j cstate res" where
  "netdev_line J clk = (\<lambda>(n, line) s.
     if length line \<le> str_find line '':'' 0 then Inr s
     else
       bindR (netdev_id line) (\<lambda>i.
       bindR (substr line (size_of_int (int_of_size (str_find line '':'' 0) + 1)) (length line)) (\<lambda>rest.
       seqR [(\<lambda>s. if mhas (c_ressources (fst s)) i then Inr s
                  else new_tick J i (''Network interface '' @ i @ '' usage'') ''network_stat'' netDev_props s),
             on_ressource i (res_next J (clk n)),
             tick_setRaw J netDev_fields i (tokens rest)] s)))"

definition netdev_collect :: "'j jsonlib \<Rightarrow> os \<Rightarrow> (nat \<Rightarrow> double) \<Rightarrow> 'j cstate \<Rightarrow> 'j cstate res" where
  "netdev_collect J w clk = foldR (netdev_line J clk) (enumerate 0 (file_lines w ''/proc/net/dev''))"

section \<open>Memory\<close>

definition new_memory :: "'j jsonlib \<Rightarrow> os \<Rightarrow> 'j \<Rightarrow> counters \<Rightarrow> 'j cstate res" where
  "new_memory J w cfg cs =
     bindR (if os_file w ''/proc/meminfo'' = None then Inr (base_collector J ''memory'' cfg 150 10 cs)
            else
              seqR [addRessource J ''swap'' ''Swap usage'' ''swap_usage'',
                    add_props ''swap'' [(''free'', ''Free swap (Kb)'', ''integer''), (''used'', ''Used swap (Kb)'', ''integer''),
                                        (''pct'', ''Free swap (%)'', ''number'')],
                    addRessource J ''memory'' ''Memory usage'' ''memory_usage'',
                    add_props ''memory'' [(''free'', ''Free memory (Kb)'', ''integer''), (''buffer'', ''Buffer memory (kb)'', ''integer''),
                      (''apps'', ''Application memory (Kb)'', ''integer''), (''cached'', ''Cached memory (kb)'', ''integer''),
                      (''slab'', ''Kernel memory (kb)'', ''integer''), (''pct'', ''Free memory (%)'', ''number'')],
                    with_route] (base_collector J ''memory'' cfg 150 10 cs)) (\<lambda>(c, cs').
     Inr (c\<lparr>c_morrisType := ''Area'', c_morrisOpts := ''  ''\<rparr>, cs'))"

text \<open>
  A line of /proc/meminfo: the text before the colon, and the number that starts at the first
  character after it that is not a space.
\<close>

fun skip_spaces :: "string \<Rightarrow> nat \<Rightarrow> nat option" where
  "skip_spaces [] i = None"
| "skip_spaces (c # cs) i = (if c \<noteq> CHR '' '' then Some i else skip_spaces cs (Suc i))"

definition meminfo_line :: "string \<Rightarrow> (string \<times> u32) res" where
  "meminfo_line line =
     bindR (substr line 0 (str_find line '':'' 0)) (\<lambda>i.
     let s0 = int_of_size (sz_add (str_find line '':'' 0) 1);
         start = (case skip_spaces (drop (nat (s0 mod 2 ^ 32)) line) (nat (s0 mod 2 ^ 32)) of Some k \<Rightarrow> int k | None \<Rightarrow> s0);
         from = size_of_int start in
     bindR (substr line from (sz_sub (str_find line '' '' (size_of_int (start + 1))) from)) (\<lambda>t.
     Inr (i, atoi t)))"

definition meminfo :: "string list \<Rightarrow> (string \<times> u32) list res" where
  "meminfo ls = mapR meminfo_line ls"

text \<open>The variable that a name sets: the last line with the name counts, and it starts at 0.\<close>

definition mem_value :: "(string \<times> u32) list \<Rightarrow> string \<Rightarrow> u32" where
  "mem_value vs k = fold (\<lambda>(i, x) a. if i = k then x else a) vs 0"

definition free_pct :: "u32 \<Rightarrow> u32 \<Rightarrow> double" where
  "free_pct free whole = ddiv (of_nat_d (unat (100 * free))) (of_nat_d (unat whole))"

definition memory_collect :: "'j jsonlib \<Rightarrow> os \<Rightarrow> double \<Rightarrow> double \<Rightarrow> 'j cstate \<Rightarrow> 'j cstate res" where
  "memory_collect J w now1 now2 s =
     bindR (meminfo (file_lines w ''/proc/meminfo'')) (\<lambda>vs.
     let MemTotal = mem_value vs ''MemTotal''; MemFree = mem_value vs ''MemFree''; Slab = mem_value vs ''Slab'';
         Buffers = mem_value vs ''Buffers''; Cached = mem_value vs ''Cached'';
         SwapTotal = mem_value vs ''SwapTotal''; SwapFree = mem_value vs ''SwapFree'';
         put = (\<lambda>k p x. on_ressource k (res_set J p x)); u = (\<lambda>x. j_uint J (unat (x :: u32))) in
     if vs = [] then Inr s
     else
       seqR [on_ressource ''swap'' (res_next J now1),
             put ''swap'' ''free'' (u SwapFree),
             put ''swap'' ''used'' (u (SwapTotal - SwapFree)),
             put ''swap'' ''pct'' (j_double J (free_pct SwapFree SwapTotal)),
             on_ressource ''memory'' (res_next J now2),
             put ''memory'' ''free'' (u MemFree),
             put ''memory'' ''buffer'' (u Buffers),
             put ''memory'' ''apps'' (u (MemTotal - (MemFree + Cached + Slab + Buffers))),
             put ''memory'' ''cached'' (u Cached),
             put ''memory'' ''slab'' (u Slab),
             put ''memory'' ''pct'' (j_double J (free_pct MemFree MemTotal))] s)"

section \<open>Uptime\<close>

definition new_uptime :: "'j jsonlib \<Rightarrow> 'j \<Rightarrow> counters \<Rightarrow> 'j cstate res" where
  "new_uptime J cfg cs =
     seqR [addRessource J ''uptime'' ''Load average'' ''uptime'',
           add_props ''uptime'' [(''uptime'', ''System uptime'', ''number'')],
           with_route] (base_collector J ''uptime'' cfg 25 60 cs)"

definition uptime_collect :: "'j jsonlib \<Rightarrow> os \<Rightarrow> (nat \<Rightarrow> double) \<Rightarrow> 'j cstate \<Rightarrow> 'j cstate res" where
  "uptime_collect J w clk =
     foldR (\<lambda>(n, line).
        seqR [on_ressource ''uptime'' (res_next J (clk n)),
              set_stod J ''uptime'' ''uptime'' (substr line 0 (str_find line '' '' 0))])
       (enumerate 0 (file_lines w ''/proc/uptime''))"

section \<open>Virtual memory\<close>

definition vmstat_descr :: "(string \<times> string) list" where
  "vmstat_descr =
     [(''pgpgin'', ''Page in /s''), (''pgpgout'', ''Page out /s''), (''pswpin'', ''Swap in /s''), (''pswpout'', ''Swap out /s''),
      (''pgfree'', ''Page free /s''), (''pgactivate'', ''Page Activations /s''), (''pgdeactivate'', ''Page Desactivations /s''),
      (''pgfault'', ''Page faults /s'')]"

definition vmstat_id :: "string \<Rightarrow> string" where
  "vmstat_id line = take (str_find line '' '' 0) line"

definition new_vmstat :: "'j jsonlib \<Rightarrow> os \<Rightarrow> 'j \<Rightarrow> counters \<Rightarrow> 'j cstate res" where
  "new_vmstat J w cfg cs =
     seqR [new_tick J ''stat'' ''Memory usage statistics'' ''memory_stats'' [],
           foldR (\<lambda>line s. case map_of vmstat_descr (vmstat_id line) of
                    Some ds \<Rightarrow> on_ressource ''stat'' (res_prop (vmstat_id line) ds ''number'') s
                  | None \<Rightarrow> Inr s) (file_lines w ''/proc/vmstat''),
           with_route] (base_collector J ''vmstat'' cfg 300 5 cs)"

definition vmstat_collect :: "'j jsonlib \<Rightarrow> os \<Rightarrow> double \<Rightarrow> 'j cstate \<Rightarrow> 'j cstate res" where
  "vmstat_collect J w now s =
     bindR (on_ressource ''stat'' (res_next J now) s)
       (foldR (\<lambda>line s.
          if mhas vmstat_descr (vmstat_id line)
          then bindR (substr_from line (sz_add (str_find line '' '' 0) 1)) (\<lambda>t.
               on_ressource ''stat'' (res_tick J (vmstat_id line) (atoi t)) s)
          else Inr s) (file_lines w ''/proc/vmstat''))"

section \<open>Temperatures\<close>

definition new_thermal :: "'j jsonlib \<Rightarrow> 'j \<Rightarrow> counters \<Rightarrow> 'j cstate res" where
  "new_thermal J cfg cs =
     seqR [with_route, addRessource J ''all'' ''all thermal informations'' ''thermal''] (base_collector J ''thermal'' cfg 300 5 cs)"

definition getContent :: "os \<Rightarrow> string \<Rightarrow> string res" where
  "getContent w path =
     (if os_stat w path = None then Inr []
      else case os_file w path of
        None \<Rightarrow> Inl LengthError
      | Some str \<Rightarrow> substr str 0 (sz_sub (length str) 1))"

definition zone_name :: "string \<Rightarrow> string \<Rightarrow> string" where
  "zone_name nm sub =
     (if sub = [] then nm
      else if str_find sub ''.'' 0 \<noteq> npos then nm @ drop (str_find sub ''.'' 0) sub
      else nm @ sub)"

definition thermal_entry :: "'j jsonlib \<Rightarrow> os \<Rightarrow> string \<Rightarrow> 'j cstate \<Rightarrow> 'j cstate res" where
  "thermal_entry J w ent s =
     (let dir = ''/sys/class/thermal/'' @ ent in
      if take 12 ent \<noteq> ''thermal_zone'' then Inr s
      else if os_stat w dir \<noteq> Some True then Inr s
      else
        bindR (getContent w (dir @ ''/temp'')) (\<lambda>v.
        bindR (getContent w (dir @ ''/type'')) (\<lambda>ty.
        bindR (getContent w (dir @ ''/device/path'')) (\<lambda>sub.
        let nm = zone_name ty sub in
        seqR [on_ressource ''all'' (res_prop nm (nm @ '' temperature'') ''number''),
              on_ressource ''all'' (res_set J nm (j_double J (ddiv (of_int_d (sint (atoi v))) (Fin 1000))))] s))))"

definition thermal_collect :: "'j jsonlib \<Rightarrow> os \<Rightarrow> double \<Rightarrow> 'j cstate \<Rightarrow> 'j cstate res" where
  "thermal_collect J w now s =
     (case os_readdir w ''/sys/class/thermal'' of
        None \<Rightarrow> Inr s
      | Some ents \<Rightarrow> bindR (on_ressource ''all'' (res_next J now) s) (foldR (thermal_entry J w) ents))"

section \<open>Disk usage\<close>

definition is_alnum :: "char \<Rightarrow> bool" where
  "is_alnum c = (let n = of_char c :: nat in (48 \<le> n \<and> n \<le> 57) \<or> (65 \<le> n \<and> n \<le> 90) \<or> (97 \<le> n \<and> n \<le> 122))"

definition url_plain :: "char \<Rightarrow> bool" where
  "url_plain c = (is_alnum c \<or> c = CHR ''-'' \<or> c = CHR ''_'' \<or> c = CHR ''.'' \<or> c = CHR ''~'')"

definition url_encode :: "string \<Rightarrow> string" where
  "url_encode v = concat (map (\<lambda>c. if url_plain c then [c] else CHR ''%'' # hexU 2 (of_char c)) v)"

record statvfs =
  f_bsize :: u64
  f_blocks :: u64
  f_bavail :: u64
  f_favail :: u64
  f_files :: u64

record mntent =
  mnt_fsname :: string
  mnt_dir :: string
  mnt_type :: string

definition diskUsage_props :: "(string \<times> string \<times> string) list" where
  "diskUsage_props = [(''size'', ''Total size (Mb)'', ''integer''), (''free'', ''Free storage (Mb)'', ''integer''),
     (''pctfree'', ''Free space %'', ''number''), (''ipctfree'', ''Free inode %'', ''number'')]"

definition udouble :: "u64 \<Rightarrow> double" where
  "udouble x = of_nat_d (unat x)"

definition setStats :: "'j jsonlib \<Rightarrow> double \<Rightarrow> statvfs \<Rightarrow> 'j ressource \<times> counters \<Rightarrow> ('j ressource \<times> counters) res" where
  "setStats J now st =
     seqR [res_next J now,
           res_set J ''size'' (j_double J (ddiv (udouble (f_bsize st * f_blocks st)) (Fin (1024 * 1024)))),
           res_set J ''free'' (j_double J (ddiv (udouble (f_bsize st * f_bavail st)) (Fin (1024 * 1024)))),
           res_set J ''pctfree'' (j_double J (ddiv (udouble (f_bavail st * 100)) (udouble (f_blocks st)))),
           res_set J ''ipctfree'' (j_double J (ddiv (udouble (f_favail st * 100)) (udouble (f_files st))))]"

definition new_diskusage :: "'j jsonlib \<Rightarrow> 'j \<Rightarrow> counters \<Rightarrow> 'j cstate res" where
  "new_diskusage J cfg cs = with_route (base_collector J ''diskusage'' cfg 25 60 cs)"

definition diskusage_mount ::
  "'j jsonlib \<Rightarrow> (string \<Rightarrow> statvfs option) \<Rightarrow> (nat \<Rightarrow> double) \<Rightarrow> nat \<times> mntent \<Rightarrow> 'j cstate \<Rightarrow> 'j cstate res" where
  "diskusage_mount J vfs clk = (\<lambda>(n, m) s.
     if take 1 (mnt_dir m) \<noteq> ''/'' \<or>
        \<not> (take 1 (mnt_fsname m) = ''/'' \<or> mnt_type m = ''tmpfs'' \<or> mnt_type m = ''udev'') then Inr s
     else case vfs (mnt_dir m) of
       None \<Rightarrow> Inr s
     | Some st \<Rightarrow>
         (let i = url_encode (mnt_dir m) in
          seqR [(\<lambda>s. if mhas (c_ressources (fst s)) i then Inr s
                     else bindR (cfg_history J (fst s)) (\<lambda>h.
                       let (r, cs') = new_ressource RPlain h ''disk_usage'' (snd s)
                       in Inr (put_ressource i (props diskUsage_props r) (mnt_dir m @ '' disk usage'') (fst s, cs')))),
                on_ressource i (setStats J (clk n) st)] s))"

definition diskusage_collect ::
  "'j jsonlib \<Rightarrow> mntent list option \<Rightarrow> (string \<Rightarrow> statvfs option) \<Rightarrow> (nat \<Rightarrow> double) \<Rightarrow> 'j cstate \<Rightarrow> 'j cstate res" where
  "diskusage_collect J mtab vfs clk s =
     (case mtab of None \<Rightarrow> Inr s | Some ms \<Rightarrow> foldR (diskusage_mount J vfs clk) (enumerate 0 ms) s)"

end
