(* ===== verification/Http.thy ===== *)
theory Http
  imports SystemCollectors
begin

text \<open>
  The HTTP side of the agent: the request parser, the routing and the connection handling of the
  server library in sws/, the percent coding of sws/utility.hpp, and src/server.cpp: the
  handlers' arguments, the responses when a handler throws, and the default handler that serves the
  files below \<^verbatim>\<open>web_root\<close>. The sockets are not modelled: a request is the text read up to the empty line
  and a response the text written. \<^verbatim>\<open>std::regex\<close> and SHA-256 are parameters.
\<close>

section \<open>Percent coding and query strings\<close>

definition case_insensitive_equal :: "string \<Rightarrow> string \<Rightarrow> bool" where
  "case_insensitive_equal a b = (length a = length b \<and> list_all2 (\<lambda>x y. lower x = lower y) a b)"

text \<open>
  The two characters after a percent sign go through \<^verbatim>\<open>strtol\<close> and are cut to eight bits, where
  \<^verbatim>\<open>strtol\<close> and \<^verbatim>\<open>strtoul\<close> agree.
\<close>

function Percent_decode :: "string \<Rightarrow> string" where
  "Percent_decode [] = []"
| "Percent_decode (c # cs) =
     (if c = CHR ''%'' \<and> 2 \<le> length cs then char_of (strtoul 16 (take 2 cs) mod 256) # Percent_decode (drop 2 cs)
      else if c = CHR ''+'' then CHR '' '' # Percent_decode cs
      else c # Percent_decode cs)"
  by pat_completeness auto
termination by (relation "measure length") auto

record query_state =
  parameter_pos :: size_t
  parameter_end_pos :: size_t
  value_pos :: size_t
  q_result :: query_args

definition emit_parameter :: "string \<Rightarrow> size_t \<Rightarrow> string res \<Rightarrow> query_state \<Rightarrow> query_state res" where
  "emit_parameter q len val st =
     bindR (substr q (parameter_pos st) len) (\<lambda>parameter.
     if parameter = [] then Inr st
     else bindR val (\<lambda>v. Inr (st\<lparr>q_result := q_result st @ [(parameter, Percent_decode v)]\<rparr>)))"

definition query_step :: "string \<Rightarrow> nat \<times> char \<Rightarrow> query_state \<Rightarrow> query_state res" where
  "query_step q = (\<lambda>(c, x) st.
     if x = CHR ''&'' then
       bindR (emit_parameter q (sz_sub (if parameter_end_pos st = npos then c else parameter_end_pos st) (parameter_pos st))
                (if value_pos st = npos then Inr [] else substr q (value_pos st) (sz_sub c (value_pos st))) st) (\<lambda>st'.
       Inr (st'\<lparr>parameter_pos := c + 1, parameter_end_pos := npos, value_pos := npos\<rparr>))
     else if x = CHR ''='' then Inr (st\<lparr>parameter_end_pos := c, value_pos := c + 1\<rparr>)
     else Inr st)"

text \<open>The elements of the multimap in the order they were put in.\<close>

definition parse_query_string :: "string \<Rightarrow> query_args res" where
  "parse_query_string q =
     (if q = [] then Inr []
      else bindR (foldR (query_step q) (enumerate 0 q)
                   \<lparr>parameter_pos = 0, parameter_end_pos = npos, value_pos = npos, q_result = []\<rparr>) (\<lambda>st.
        if parameter_pos st < length q then
          bindR (emit_parameter q (sz_sub (parameter_end_pos st) (parameter_pos st))
                   (if length q \<le> value_pos st then Inr [] else substr_from q (value_pos st)) st) (\<lambda>st'.
          Inr (q_result st'))
        else Inr (q_result st)))"

definition request_query :: "string \<Rightarrow> query_args res" where
  "request_query path =
     (let pos = str_find path ''?'' 0 in
      if pos \<noteq> npos \<and> sz_add pos 1 < length path then bindR (substr_from path (sz_add pos 1)) parse_query_string else Inr [])"

section \<open>Requests\<close>

type_synonym header = "(string \<times> string) list"

record request =
  r_method :: string
  r_path :: string
  r_http_version :: string
  r_header :: header
  r_path_match :: "string list option"

text \<open>
  \<open>r_path_match\<close> holds the groups of the regular expression that matched the path, without the whole
  match, and is \<open>None\<close> before one did.
\<close>

definition header_field :: "string \<Rightarrow> size_t \<Rightarrow> header \<Rightarrow> header" where
  "header_field line param_end h =
     (let v0 = param_end + 1 in
      if v0 < length line then
        (let v1 = (if line ! v0 = CHR '' '' then v0 + 1 else v0) in
         if v1 < length line then h @ [(take param_end line, take (length line - v1 - 1) (drop v1 line))] else h)
      else h)"

text \<open>Past the last line \<^verbatim>\<open>getline\<close> leaves the line empty.\<close>

fun parse_headers :: "string list \<Rightarrow> header \<Rightarrow> header" where
  "parse_headers [] h = h"
| "parse_headers (line # ls) h =
     (if str_find line '':'' 0 = npos then h else parse_headers ls (header_field line (str_find line '':'' 0) h))"

definition parse_request :: "string \<Rightarrow> request option" where
  "parse_request input =
     (let ls = getlines input; line = (case ls of l # _ \<Rightarrow> l | [] \<Rightarrow> []);
          method_end = str_find line '' '' 0 in
      if method_end = npos then None
      else let path_end = str_find line '' '' (method_end + 1) in
      if path_end = npos then None
      else let protocol_end = str_find line ''/'' (path_end + 1) in
      if protocol_end = npos then None
      else if take (protocol_end - path_end - 1) (drop (path_end + 1) line) \<noteq> ''HTTP'' then None
      else Some \<lparr>r_method = take method_end line,
                 r_path = take (path_end - method_end - 1) (drop (method_end + 1) line),
                 r_http_version = take (sz_sub (sz_sub (length line) protocol_end) 2) (drop (protocol_end + 1) line),
                 r_header = parse_headers (tl ls) [], r_path_match = None\<rparr>)"

text \<open>
  What is still to be read of the content: nothing without the header, an error when its value is no
  number. \<open>sel\<close> is the element a multimap finds among those with equal keys.
\<close>

type_synonym selector = "string list \<Rightarrow> string"

definition header_find :: "selector \<Rightarrow> header \<Rightarrow> string \<Rightarrow> string option" where
  "header_find sel h k =
     (case map snd (filter (\<lambda>(k', v). case_insensitive_equal k' k) h) of [] \<Rightarrow> None | v # vs \<Rightarrow> Some (sel (v # vs)))"

text \<open>
  \<^verbatim>\<open>std::stoull\<close>: no digit throws, a value of \<open>2 ^ 64\<close> or more throws, a minus sign negates modulo \<open>2 ^ 64\<close>.
\<close>

definition stoull :: "string \<Rightarrow> nat res" where
  "stoull s =
     (let (neg, ds) = scan_sign (dropWhile is_space s); (n, rest) = scan_digits 10 ds 0 in
      if rest = ds then Inl InvalidArgument
      else if 2 ^ 64 \<le> n then Inl OutOfRange
      else Inr (if neg then (2 ^ 64 - n) mod 2 ^ 64 else n))"

datatype next_read = ReadContent nat | Dispatch | ProtocolError

definition content_step :: "selector \<Rightarrow> request \<Rightarrow> nat \<Rightarrow> next_read" where
  "content_step sel req num_additional_bytes =
     (case header_find sel (r_header req) ''Content-Length'' of
        None \<Rightarrow> Dispatch
      | Some v \<Rightarrow> (case stoull v of
          Inl e \<Rightarrow> ProtocolError
        | Inr n \<Rightarrow> if num_additional_bytes < n then ReadContent (n - num_additional_bytes) else Dispatch))"

definition header_range :: "header \<Rightarrow> string \<Rightarrow> string list" where
  "header_range h k = map snd (filter (\<lambda>(k', v). case_insensitive_equal k' k) h)"

section \<open>Routing and answering\<close>

text \<open>A handler gets the request and gives the text of the response.\<close>

type_synonym handler = "request \<Rightarrow> string res"
type_synonym resource = "(string, (string, handler) smap) smap"

text \<open>\<^verbatim>\<open>rx regex path\<close> is the groups of a match of the whole path.\<close>

type_synonym regex = "string \<Rightarrow> string \<Rightarrow> string list option"

fun match_resource :: "regex \<Rightarrow> resource \<Rightarrow> request \<Rightarrow> (handler \<times> request) option" where
  "match_resource rx [] req = None"
| "match_resource rx ((r, methods) # rs) req =
     (case map_of methods (r_method req) of
        None \<Rightarrow> match_resource rx rs req
      | Some h \<Rightarrow> (case rx r (r_path req) of
          None \<Rightarrow> match_resource rx rs req
        | Some gs \<Rightarrow> Some (h, req\<lparr>r_path_match := Some gs\<rparr>)))"

definition find_resource :: "regex \<Rightarrow> resource \<Rightarrow> (string, handler) smap \<Rightarrow> request \<Rightarrow> (handler \<times> request) option" where
  "find_resource rx rs defaults req =
     (case match_resource rx rs req of
        Some hr \<Rightarrow> Some hr
      | None \<Rightarrow> map_option (\<lambda>h. (h, req)) (map_of defaults (r_method req)))"

text \<open>A handler that throws leaves an empty response, which is sent.\<close>

definition write_response :: "handler \<Rightarrow> request \<Rightarrow> string res" where
  "write_response h req = (case h req of Inr s \<Rightarrow> Inr s | Inl Undefined \<Rightarrow> Inl Undefined | Inl e \<Rightarrow> Inr [])"

text \<open>Whether another request is read from the connection after the response.\<close>

fun connection_header :: "string list \<Rightarrow> bool option" where
  "connection_header [] = None"
| "connection_header (v # vs) =
     (if case_insensitive_equal v ''close'' then Some False
      else if case_insensitive_equal v ''keep-alive'' then Some True
      else connection_header vs)"

definition keep_connection :: "request \<Rightarrow> bool" where
  "keep_connection req =
     (case connection_header (header_range (r_header req) ''Connection'') of
        Some b \<Rightarrow> b
      | None \<Rightarrow> \<not> r_http_version req < ''1.1'')"

text \<open>
  One request on a connection whose content, if any, is then read without an error: nothing is sent for
  one that cannot be parsed, whose content length is no number or that has no handler, otherwise the
  response and whether the connection is kept. \<open>extra\<close> is how much of the content has been read already.
\<close>

definition serve_request :: "selector \<Rightarrow> nat \<Rightarrow> regex \<Rightarrow> resource \<Rightarrow> (string, handler) smap \<Rightarrow> string \<Rightarrow> (string \<times> bool) option res" where
  "serve_request sel extra rx rs defaults input =
     (case parse_request input of
        None \<Rightarrow> Inr None
      | Some req \<Rightarrow>
          if content_step sel req extra = ProtocolError then Inr None
          else (case find_resource rx rs defaults req of
             None \<Rightarrow> Inr None
           | Some (h, req') \<Rightarrow> bindR (write_response h req') (\<lambda>s. Inr (Some (s, keep_connection req')))))"

section \<open>Handlers of the agent\<close>

text \<open>The server is encrypted when this is asked for and the three files exist.\<close>

definition server_useSSL :: "'j jsonlib \<Rightarrow> os \<Rightarrow> 'j \<Rightarrow> bool res" where
  "server_useSSL J w cfg =
     bindR (j_asInt J (j_get J cfg ''port'')) (\<lambda>_.
     bindR (j_asString J (j_get J cfg ''SSL_key'')) (\<lambda>key.
     bindR (j_asString J (j_get J cfg ''SSL_cert'')) (\<lambda>cert.
     bindR (j_asString J (j_get J cfg ''SSL_verify'')) (\<lambda>vrf.
     bindR (j_asBool J (j_get J cfg ''useSSL'')) (\<lambda>use.
     Inr (use \<and> os_stat w cert \<noteq> None \<and> os_stat w vrf \<noteq> None \<and> os_stat w key \<noteq> None))))))"

text \<open>What is logged for an error on a plain connection; \<open>err\<close> is the text of the system's error.\<close>

definition http_on_error :: "string \<Rightarrow> string \<Rightarrow> request \<Rightarrow> (string \<times> string) option" where
  "http_on_error err remote req =
     (if err = ''Operation aborted.'' \<and> r_path req = [] \<and> r_http_version req = [] then None
      else Some (''HttpServer::httpOnError'',
        err @ '' for (R)'' @ remote @ '' -> '' @ r_method req @ ''('' @ r_http_version req @ ''):'' @ r_path req))"

text \<open>
  The loop over \<^verbatim>\<open>path_match\<close> goes one past the last group, where an empty sub-match is returned; without
  a match there is nothing to go through.
\<close>

definition handler_args :: "string list option \<Rightarrow> string list" where
  "handler_args m = (case m of None \<Rightarrow> [] | Some gs \<Rightarrow> gs @ [[]])"

definition setRegex :: "string \<Rightarrow> string \<Rightarrow> (string list \<Rightarrow> query_args \<Rightarrow> string res) \<Rightarrow> resource \<Rightarrow> resource" where
  "setRegex opt rex fnct rs =
     mput rex (mput opt (\<lambda>req. bindR (request_query (r_path req)) (fnct (handler_args (r_path_match req))))
                 (case map_of rs rex of Some ms \<Rightarrow> ms | None \<Rightarrow> [])) rs"

definition setDefault :: "string \<Rightarrow> (string list \<Rightarrow> query_args \<Rightarrow> string res) \<Rightarrow> (string, handler) smap \<Rightarrow> (string, handler) smap" where
  "setDefault opt fnct ds =
     mput opt (\<lambda>req. bindR (request_query (r_path req)) (fnct (handler_args (r_path_match req)))) ds"

section \<open>Static files\<close>

text \<open>\<open>ok k\<close> tells whether the k-th send succeeds.\<close>

function default_resource_send :: "(nat \<Rightarrow> bool) \<Rightarrow> nat \<Rightarrow> nat \<Rightarrow> string \<Rightarrow> string" where
  "default_resource_send ok k buf file =
     (if buf = 0 \<or> file = [] then []
      else take buf file @
        (if length (take buf file) = buf \<and> ok k then default_resource_send ok (Suc k) buf (drop buf file) else []))"
  by pat_completeness auto
termination by (relation "measure (\<lambda>(ok, k, buf, file). length file)") auto

declare default_resource_send.simps [simp del]

text \<open>An exception the handler catches: one it throws itself, with its text, or one of a library.\<close>

datatype exn = Thrown string | Lib cpp_error

definition catching :: "'a res \<Rightarrow> (exn + 'a)" where
  "catching m = (case m of Inl e \<Rightarrow> Inl (Lib e) | Inr a \<Rightarrow> Inr a)"

fun bindE :: "(exn + 'a) \<Rightarrow> ('a \<Rightarrow> exn + 'b) \<Rightarrow> exn + 'b" where
  "bindE (Inl e) f = Inl e"
| "bindE (Inr a) f = f a"

text \<open>
  \<open>digest\<close> gives the lower-case hexadecimal SHA-256 of a content. The digest of an empty file is that of the empty text; the source takes the address of the first element of an empty vector for it, which the standard leaves undefined.
\<close>

definition sha256 :: "(string \<Rightarrow> string) \<Rightarrow> os \<Rightarrow> string \<Rightarrow> string res" where
  "sha256 digest w fname = (case os_file w fname of None \<Rightarrow> Inl LengthError | Some s \<Rightarrow> Inr (digest s))"

definition web_file :: "os \<Rightarrow> string \<Rightarrow> string \<Rightarrow> exn + string" where
  "web_file w web_root path =
     (let p = web_root @ ''/'' @ path in
      case os_stat w p of
        None \<Rightarrow> Inl (Thrown ''file does not exist'')
      | Some is_directory \<Rightarrow>
          (let q = (if is_directory then p @ ''/index.html'' else p) in
           if os_stat w q = None then Inl (Thrown ''file does not exist'') else Inr q))"

abbreviation quote :: string where
  "quote \<equiv> [CHR 0x22]"

definition etag_fields :: "string \<Rightarrow> string" where
  "etag_fields hash = ''Cache-Control: max-age=86400'' @ crlf @ ''ETag: '' @ quote @ hash @ quote @ crlf"

definition serve_file ::
  "selector \<Rightarrow> (string \<Rightarrow> string) \<Rightarrow> os \<Rightarrow> (nat \<Rightarrow> bool) \<Rightarrow> header \<Rightarrow> string \<Rightarrow> exn + string" where
  "serve_file sel digest w ok h path =
     bindE (catching (sha256 digest w path)) (\<lambda>hash.
     if header_find sel h ''If-None-Match'' = Some (quote @ hash @ quote)
     then Inr (''HTTP/1.1 304 Not Modified'' @ crlf @ etag_fields hash @ crlf)
     else case os_file w path of
       None \<Rightarrow> Inl (Thrown ''could not read file'')
     | Some s \<Rightarrow>
         Inr (''HTTP/1.1 200 OK'' @ crlf @ etag_fields hash @ ''Content-Length: '' @ to_string (length s) @ crlf @ crlf @
              default_resource_send ok 0 131072 s))"

definition bad_request :: "string \<Rightarrow> string \<Rightarrow> string" where
  "bad_request path what =
     (let content = ''Could not open path '' @ path @ '': '' @ what in
      ''HTTP/1.1 400 Bad Request'' @ crlf @ ''Content-Length: '' @ to_string (length content) @ crlf @ crlf @ content)"

text \<open>\<open>what\<close> is the text of an exception of a library. The configuration's \<^verbatim>\<open>web_root\<close> is read at every request.\<close>

definition default_get ::
  "'j jsonlib \<Rightarrow> selector \<Rightarrow> (string \<Rightarrow> string) \<Rightarrow> (cpp_error \<Rightarrow> string) \<Rightarrow> os \<Rightarrow> (nat \<Rightarrow> bool) \<Rightarrow> 'j \<Rightarrow> request \<Rightarrow> string" where
  "default_get J sel digest what w ok cfg req =
     (case bindE (catching (j_asString J (j_get J cfg ''web_root''))) (\<lambda>root.
           bindE (web_file w root (r_path req)) (serve_file sel digest w ok (r_header req))) of
        Inr s \<Rightarrow> s
      | Inl (Thrown t) \<Rightarrow> bad_request (r_path req) t
      | Inl (Lib e) \<Rightarrow> bad_request (r_path req) (what e))"

section \<open>Percent coding round trip\<close>

lemma Percent_decode_plain:
  "c \<noteq> CHR ''%'' \<Longrightarrow> c \<noteq> CHR ''+'' \<Longrightarrow> Percent_decode (c # cs) = c # Percent_decode cs"
  by simp

lemma Percent_decode_hex: "Percent_decode (CHR ''%'' # hexU 2 (of_char c) @ cs) = c # Percent_decode cs"
proof -
  have b: "of_char c < (16 ^ 2 :: nat)" using nat_of_char_less_256[of c] by simp
  then have "strtoul 16 (hexU 2 (of_char c)) mod 256 = of_char c" using strtoul_hexU[OF _ _ b] by simp
  then show ?thesis by simp
qed

lemma percent_inverse: "Percent_decode (url_encode s) = s"
proof (induction s)
  case (Cons c s)
  show ?case
  proof (cases "url_plain c")
    case True
    then have "c \<noteq> CHR ''%''" "c \<noteq> CHR ''+''" by (auto simp: url_plain_def is_alnum_def)
    then show ?thesis using Cons True by (simp add: url_encode_def)
  next
    case False
    then show ?thesis using Cons Percent_decode_hex[of c "url_encode s"] by (simp add: url_encode_def)
  qed
qed (simp add: url_encode_def)

text \<open>
  The server's percent decoding is the left inverse of the encoding that makes the names of the
  mounted file systems part of a path: whatever the directory, its measure can be asked for.
\<close>

theorem url_encode_decodes: "Percent_decode (url_encode s) = s"
  by (rule percent_inverse)

section \<open>Files\<close>

lemma send_all: "0 < n \<Longrightarrow> default_resource_send (\<lambda>_. True) k n body = body"
proof (induction "\<lambda>_ :: nat. True" k n body rule: default_resource_send.induct)
  case (1 k n body)
  show ?case
  proof (cases "body = [] \<or> length body < n")
    case True
    then show ?thesis using 1(2) by (auto simp: default_resource_send.simps[of _ k n body])
  next
    case False
    then have "default_resource_send (\<lambda>_. True) (Suc k) n (drop n body) = drop n body" using 1 by simp
    then show ?thesis using False 1(2) by (subst default_resource_send.simps) simp
  qed
qed

lemma default_get_file:
  assumes "j_asString J (j_get J cfg ''web_root'') = Inr dir"
    and "os_stat w (dir @ ''/'' @ r_path req) = Some False" "os_file w (dir @ ''/'' @ r_path req) = Some s"
  shows "default_get J sel digest what w (\<lambda>_. True) cfg req =
    (if header_find sel (r_header req) ''If-None-Match'' = Some (quote @ digest s @ quote)
     then ''HTTP/1.1 304 Not Modified'' @ crlf @ etag_fields (digest s) @ crlf
     else ''HTTP/1.1 200 OK'' @ crlf @ etag_fields (digest s) @ ''Content-Length: '' @ to_string (length s) @ crlf @ crlf @ s)"
  using assms by (simp add: default_get_def web_file_def catching_def serve_file_def sha256_def send_all)

text \<open>
  C32: a file below \<^verbatim>\<open>web_root\<close> is served whole, whatever its length, under a header with its length and
  its digest; a client that has it already, by that digest, gets 304 and no body; a path that does
  not exist gets 400.
\<close>

theorem default_get_serves:
  assumes "j_asString J (j_get J cfg ''web_root'') = Inr dir"
  shows "(os_stat w (dir @ ''/'' @ r_path req) = Some False \<longrightarrow> os_file w (dir @ ''/'' @ r_path req) = Some s \<longrightarrow>
      default_get J sel digest what w (\<lambda>_. True) cfg req =
      (if header_find sel (r_header req) ''If-None-Match'' = Some (quote @ digest s @ quote)
       then ''HTTP/1.1 304 Not Modified'' @ crlf @ etag_fields (digest s) @ crlf
       else ''HTTP/1.1 200 OK'' @ crlf @ etag_fields (digest s) @ ''Content-Length: '' @ to_string (length s) @ crlf @ crlf @ s)) \<and>
    (os_stat w (dir @ ''/'' @ r_path req) = None \<longrightarrow>
      default_get J sel digest what w (\<lambda>_. True) cfg req = bad_request (r_path req) ''file does not exist'')"
  using default_get_file[OF assms(1)] assms(1) by (simp add: default_get_def web_file_def catching_def)

theorem default_get_serves_witness:
  "default_get ref_json hd (\<lambda>s. ''d'') (\<lambda>e. []) (bare_os\<lparr>os_stat := (\<lambda>p. if p = ''/www//a'' then Some False else None),
      os_file := (\<lambda>p. if p = ''/www//a'' then Some ''hello'' else None)\<rparr>) (\<lambda>_. True) (JObj [(''web_root'', JStr ''/www'')])
      \<lparr>r_method = ''GET'', r_path = ''/a'', r_http_version = ''1.1'', r_header = [], r_path_match = None\<rparr> =
   ''HTTP/1.1 200 OK'' @ crlf @ etag_fields ''d'' @ ''Content-Length: 5'' @ crlf @ crlf @ ''hello''"
  using default_get_serves[of ref_json "JObj [(''web_root'', JStr ''/www'')]" "''/www''"
      "bare_os\<lparr>os_stat := (\<lambda>p. if p = ''/www//a'' then Some False else None),
      os_file := (\<lambda>p. if p = ''/www//a'' then Some ''hello'' else None)\<rparr>"
      "\<lparr>r_method = ''GET'', r_path = ''/a'', r_http_version = ''1.1'', r_header = [], r_path_match = None\<rparr>" "''hello''" hd "\<lambda>s. ''d''" "\<lambda>e. []"]
  by (simp add: header_find_def show_nat.simps digit_char_def)

text \<open>
  The path of a request is put behind \<^verbatim>\<open>web_root\<close> as it is: a path that climbs out of it with
  \<^verbatim>\<open>..\<close> is served like any other.
\<close>

theorem default_get_escapes:
  assumes "j_asString J (j_get J cfg ''web_root'') = Inr dir"
    and "os_stat w (dir @ ''//../'' @ p) = Some False" "os_file w (dir @ ''//../'' @ p) = Some secret"
  shows "\<exists>pre. default_get J sel digest what w (\<lambda>_. True) cfg \<lparr>r_method = ''GET'', r_path = ''/../'' @ p, r_http_version = ''1.1'',
      r_header = [], r_path_match = None\<rparr> = ''HTTP/1.1 200 OK'' @ pre @ crlf @ crlf @ secret"
  using default_get_file[OF assms(1), of w "\<lparr>r_method = ''GET'', r_path = ''/../'' @ p, r_http_version = ''1.1'',
      r_header = [], r_path_match = None\<rparr>" secret sel digest what] assms(2,3)
  by (intro exI[of _ "crlf @ etag_fields (digest secret) @ ''Content-Length: '' @ to_string (length secret)"]) (simp add: header_find_def)

theorem default_get_escapes_witness:
  "\<exists>pre. default_get ref_json hd (\<lambda>s. ''d'') (\<lambda>e. []) (bare_os\<lparr>os_stat := (\<lambda>p. Some False), os_file := (\<lambda>p. Some ''root:x:0'')\<rparr>)
      (\<lambda>_. True) (JObj [(''web_root'', JStr ''/www'')])
      \<lparr>r_method = ''GET'', r_path = ''/../'' @ ''etc/passwd'', r_http_version = ''1.1'', r_header = [], r_path_match = None\<rparr> =
    ''HTTP/1.1 200 OK'' @ pre @ crlf @ crlf @ ''root:x:0''"
  by (rule default_get_escapes[where dir = "''/www''"]) simp_all

section \<open>Requests round trip\<close>

text \<open>A client's rendering of a request.\<close>

definition header_line :: "string \<times> string \<Rightarrow> string" where
  "header_line = (\<lambda>(k, v). k @ '': '' @ v @ crlf)"

definition request_text :: "string \<Rightarrow> string \<Rightarrow> string \<Rightarrow> header \<Rightarrow> string" where
  "request_text meth path version h = meth @ '' '' @ path @ '' HTTP/'' @ version @ crlf @ concat (map header_line h) @ crlf"

lemma header_field_line:
  assumes "CHR '':'' \<notin> set k"
  shows "header_field (k @ '': '' @ v @ [CHR 0x0D]) (length k) h = h @ [(k, v)]"
  by (simp add: header_field_def nth_append)

lemma parse_headers_lines:
  assumes "\<forall>(k, v) \<in> set hs. CHR '':'' \<notin> set k \<and> newline \<notin> set k \<and> newline \<notin> set v"
    and "\<forall>(k, v) \<in> set hs. length k < npos"
  shows "parse_headers (getlines (concat (map header_line hs) @ crlf @ more_text)) acc = acc @ hs"
  using assms
proof (induction hs arbitrary: acc)
  case Nil
  have "getlines ([CHR 0x0D] @ newline # more_text) = [CHR 0x0D] # getlines more_text" by (rule getlines_line) simp_all
  then show ?case by (simp add: str_find_char_none)
next
  case (Cons h hs)
  obtain k v where h: "h = (k, v)" by fastforce
  let ?l = "k @ '': '' @ v @ [CHR 0x0D]"
  have p: "CHR '':'' \<notin> set k" "newline \<notin> set ?l" "length k < npos" using Cons.prems h by auto
  have "concat (map header_line (h # hs)) @ crlf @ more_text = ?l @ newline # concat (map header_line hs) @ crlf @ more_text"
    by (simp add: header_line_def h)
  then have "getlines (concat (map header_line (h # hs)) @ crlf @ more_text) = ?l # getlines (concat (map header_line hs) @ crlf @ more_text)"
    using getlines_line[OF p(2)] by simp
  moreover have "str_find ?l '':'' 0 = length k" using str_find_char[OF p(1)] by simp
  ultimately show ?case using header_field_line[OF p(1)] p(3) Cons h by simp
qed

text \<open>What a request may contain so that its text can be taken apart again.\<close>

definition sendable :: "string \<Rightarrow> string \<Rightarrow> string \<Rightarrow> header \<Rightarrow> bool" where
  "sendable meth path version h \<longleftrightarrow>
     CHR '' '' \<notin> set meth \<and> CHR '' '' \<notin> set path \<and> newline \<notin> set (meth @ path @ version) \<and>
     length meth + length path + length version < 2 ^ 62 \<and>
     list_all (\<lambda>(k, v). CHR '':'' \<notin> set k \<and> newline \<notin> set k \<and> newline \<notin> set v \<and> length k < 2 ^ 62) h"

lemma request_line_cut:
  assumes "CHR '' '' \<notin> set meth" "CHR '' '' \<notin> set path"
  shows "str_find (meth @ '' '' @ path @ '' HTTP/'' @ version @ [CHR 0x0D]) '' '' 0 = length meth"
    "str_find (meth @ '' '' @ path @ '' HTTP/'' @ version @ [CHR 0x0D]) '' '' (length meth + 1) = length meth + 1 + length path"
    "str_find (meth @ '' '' @ path @ '' HTTP/'' @ version @ [CHR 0x0D]) ''/'' (length meth + 1 + length path + 1) =
       length meth + length path + 6"
proof -
  show "str_find (meth @ '' '' @ path @ '' HTTP/'' @ version @ [CHR 0x0D]) '' '' 0 = length meth"
    using str_find_char[OF assms(1)] by simp
  show "str_find (meth @ '' '' @ path @ '' HTTP/'' @ version @ [CHR 0x0D]) '' '' (length meth + 1) = length meth + 1 + length path"
    using str_find_char_from[OF assms(2), of "length meth + 1" "meth @ '' ''" "''HTTP/'' @ version @ [CHR 0x0D]"] by simp
  show "str_find (meth @ '' '' @ path @ '' HTTP/'' @ version @ [CHR 0x0D]) ''/'' (length meth + 1 + length path + 1) =
       length meth + length path + 6"
    using str_find_char_from[of "CHR ''/''" "''HTTP''" "length meth + 1 + length path + 1" "meth @ '' '' @ path @ '' ''"
        "version @ [CHR 0x0D]"] by simp
qed

lemma parse_request_text:
  assumes "sendable meth path version h"
  shows "parse_request (request_text meth path version h @ more_text) =
    Some \<lparr>r_method = meth, r_path = path, r_http_version = version, r_header = h, r_path_match = None\<rparr>"
proof -
  let ?line = "meth @ '' '' @ path @ '' HTTP/'' @ version @ [CHR 0x0D]"
  have a: "CHR '' '' \<notin> set meth" "CHR '' '' \<notin> set path" "newline \<notin> set ?line"
      "length meth + length path + length version < 2 ^ 62"
      "\<forall>(k, v) \<in> set h. CHR '':'' \<notin> set k \<and> newline \<notin> set k \<and> newline \<notin> set v" "\<forall>(k, v) \<in> set h. length k < npos"
    using assms by (auto simp: sendable_def list_all_iff npos_def)
  have "request_text meth path version h @ more_text = ?line @ newline # concat (map header_line h) @ crlf @ more_text"
    by (simp add: request_text_def)
  then have ls: "getlines (request_text meth path version h @ more_text) = ?line # getlines (concat (map header_line h) @ crlf @ more_text)"
    using getlines_line[OF a(3)] by simp
  note hs = parse_headers_lines[OF a(5,6), of more_text "[]"]
  note cut = request_line_cut[OF a(1,2), of version]
  have np: "length meth \<noteq> npos" "length meth + 1 + length path \<noteq> npos" "length meth + length path + 6 \<noteq> npos"
    using a(4) by (simp_all add: npos_def)
  have len: "length ?line = length meth + length path + 8 + length version" by simp
  have sz: "sz_sub (sz_sub (length ?line) (length meth + length path + 6)) 2 = length version"
    unfolding len using a(4) by (subst sz_sub_small; simp)
  have "take (length version) (drop (length meth + length path + 6 + 1) ?line) = version" by (simp add: eval_nat_numeral)
  then show ?thesis
    unfolding parse_request_def ls Let_def list.case cut hs sz list.sel if_not_P[OF np(1)] if_not_P[OF np(2)] if_not_P[OF np(3)]
    by (simp add: eval_nat_numeral)
qed

text \<open>
  The server reads from the text of a request exactly its meth, path, version and header fields
  in their order.
\<close>

theorem parse_request_roundtrip:
  assumes "sendable meth path version h"
  shows "parse_request (request_text meth path version h) =
    Some \<lparr>r_method = meth, r_path = path, r_http_version = version, r_header = h, r_path_match = None\<rparr>"
  using parse_request_text[OF assms, of "[]"] by simp

theorem parse_request_roundtrip_witness:
  "parse_request (request_text ''GET'' ''/all?since=5'' ''1.1'' [(''Host'', ''localhost:9080''), (''Connection'', ''close'')]) =
   Some \<lparr>r_method = ''GET'', r_path = ''/all?since=5'', r_http_version = ''1.1'',
         r_header = [(''Host'', ''localhost:9080''), (''Connection'', ''close'')], r_path_match = None\<rparr>"
  using parse_request_roundtrip[of "''GET''" "''/all?since=5''" "''1.1''" "[(''Host'', ''localhost:9080''), (''Connection'', ''close'')]"]
  by (simp add: sendable_def)

section \<open>Query strings round trip\<close>

lemma query_quiet:
  assumes "CHR ''&'' \<notin> set xs" "CHR ''='' \<notin> set xs"
  shows "foldR (query_step q) (enumerate i xs) st = Inr st"
  using assms by (induction xs arbitrary: i) (auto simp: query_step_def)

lemma query_pair:
  assumes "CHR ''&'' \<notin> set (k @ v)" "CHR ''='' \<notin> set (k @ v)"
  shows "foldR (query_step q) (enumerate i (k @ ''='' @ v)) st =
    Inr (st\<lparr>parameter_end_pos := i + length k, value_pos := i + length k + 1\<rparr>)"
  using query_quiet[of k q i st] query_quiet[of v q "i + length k + 1"] assms
  by (simp add: enumerate_append_eq foldR_append) (simp add: query_step_def)

lemma url_encode_safe:
  assumes "c \<in> set (url_encode v)"
  shows "c \<noteq> CHR ''&'' \<and> c \<noteq> CHR ''='' \<and> c \<noteq> CHR ''?''"
proof -
  have "url_plain c \<or> c = CHR ''%'' \<or> digit_val 16 c \<noteq> None"
    using assms hexU_digits[of c 2] by (auto simp: url_encode_def split: if_splits)
  then show ?thesis by (auto simp: url_plain_def is_alnum_def digit_val_def digit_of_def)
qed

fun query_text :: "query_args \<Rightarrow> string" where
  "query_text [] = []"
| "query_text [(k, v)] = k @ ''='' @ url_encode v"
| "query_text ((k, v) # kvs) = k @ ''='' @ url_encode v @ ''&'' @ query_text kvs"

definition query_keys_ok :: "query_args \<Rightarrow> bool" where
  "query_keys_ok kvs = list_all (\<lambda>(k, v). k \<noteq> [] \<and> CHR ''&'' \<notin> set k \<and> CHR ''='' \<notin> set k) kvs"

definition q_state :: "size_t \<Rightarrow> query_args \<Rightarrow> query_state" where
  "q_state i acc = \<lparr>parameter_pos = i, parameter_end_pos = npos, value_pos = npos, q_result = acc\<rparr>"

definition q_finish :: "string \<Rightarrow> query_state \<Rightarrow> query_args res" where
  "q_finish q st =
     (if parameter_pos st < length q then
        bindR (emit_parameter q (sz_sub (parameter_end_pos st) (parameter_pos st))
                 (if length q \<le> value_pos st then Inr [] else substr_from q (value_pos st)) st) (\<lambda>st'.
        Inr (q_result st'))
      else Inr (q_result st))"

lemma parse_query_string_eq:
  "q \<noteq> [] \<Longrightarrow> parse_query_string q = bindR (foldR (query_step q) (enumerate 0 q) (q_state 0 [])) (q_finish q)"
  by (simp add: parse_query_string_def q_finish_def[abs_def] q_state_def)

lemma query_last:
  assumes "q = pre @ k @ ''='' @ url_encode v" "length q < 2 ^ 62" "k \<noteq> []"
  shows "q_finish q ((q_state (length pre) acc)\<lparr>parameter_end_pos := length pre + length k, value_pos := length pre + length k + 1\<rparr>) =
    Inr (acc @ [(k, v)])"
proof -
  have k: "sz_sub (length pre + length k) (length pre) = length k" using assms(1,2) by (subst sz_sub_small) simp_all
  have sub: "substr q (length pre) (length k) = Inr k" using assms(1) by simp
  have val: "(if length q \<le> length pre + length k + 1 then Inr [] else substr_from q (length pre + length k + 1)) = Inr (url_encode v)"
  proof (cases "url_encode v = []")
    case False
    have "substr_from q (length pre + length k + 1) = Inr (drop (length pre + length k + 1) q)"
      using assms(1,2) by (intro substr_from_Inr) simp_all
    then show ?thesis using False assms(1) by simp
  qed (use assms(1) in simp)
  let ?st = "(q_state (length pre) acc)\<lparr>parameter_end_pos := length pre + length k, value_pos := length pre + length k + 1\<rparr>"
  have st: "parameter_pos ?st = length pre" "parameter_end_pos ?st = length pre + length k" "value_pos ?st = length pre + length k + 1"
      "q_result ?st = acc"
    by (simp_all add: q_state_def)
  have lt: "length pre < length q" using assms(1) by simp
  show ?thesis
    unfolding q_finish_def emit_parameter_def st k val sub if_P[OF lt] using assms(3) st(4) by (simp add: percent_inverse)
qed

lemma query_next:
  assumes "q = pre @ k @ ''='' @ url_encode v @ ''&'' @ rest" "length q < 2 ^ 62" "k \<noteq> []" "CHR ''&'' \<notin> set k" "CHR ''='' \<notin> set k"
  shows "foldR (query_step q) (enumerate (length pre) (k @ ''='' @ url_encode v @ ''&'')) (q_state (length pre) acc) =
    Inr (q_state (length pre + length k + 1 + length (url_encode v) + 1) (acc @ [(k, v)]))"
proof -
  let ?c = "length pre + length k + 1 + length (url_encode v)" and ?kv = "k @ ''='' @ url_encode v"
  let ?st = "(q_state (length pre) acc)\<lparr>parameter_end_pos := length pre + length k, value_pos := length pre + length k + 1\<rparr>"
  have safe: "CHR ''&'' \<notin> set (k @ url_encode v)" "CHR ''='' \<notin> set (k @ url_encode v)" using assms(4,5) url_encode_safe by auto
  have fold: "foldR (query_step q) (enumerate (length pre) (?kv @ ''&'')) (q_state (length pre) acc) = query_step q (?c, CHR ''&'') ?st"
  proof -
    have "enumerate (length pre) (?kv @ ''&'') = enumerate (length pre) ?kv @ [(?c, CHR ''&'')]"
      unfolding enumerate_append_eq[of _ ?kv] by simp
    then show ?thesis by (simp only: foldR_append query_pair[OF safe]) simp
  qed
  have np: "length pre + length k \<noteq> npos" "length pre + length k + 1 \<noteq> npos" using assms(1,2) by (simp_all add: npos_def)
  have k: "sz_sub (length pre + length k) (length pre) = length k" "sz_sub ?c (length pre + length k + 1) = length (url_encode v)"
    using assms(1,2) by (subst sz_sub_small; simp)+
  have sub: "substr q (length pre) (length k) = Inr k" "substr q (length pre + length k + 1) (length (url_encode v)) = Inr (url_encode v)"
    using assms(1) by simp_all
  have st: "parameter_pos ?st = length pre" "parameter_end_pos ?st = length pre + length k" "value_pos ?st = length pre + length k + 1"
      "q_result ?st = acc"
    by (simp_all add: q_state_def)
  have "query_step q (?c, CHR ''&'') ?st = Inr (q_state (?c + 1) (acc @ [(k, v)]))"
    unfolding query_step_def emit_parameter_def st prod.case if_not_P[OF np(1)] if_not_P[OF np(2)] k sub
    using assms(3) st(4) by (simp add: percent_inverse) (simp add: q_state_def)
  then show ?thesis using fold by simp
qed

lemma query_run:
  assumes "kvs \<noteq> []" "query_keys_ok kvs" "q = pre @ query_text kvs" "length q < 2 ^ 62"
  shows "bindR (foldR (query_step q) (enumerate (length pre) (query_text kvs)) (q_state (length pre) acc)) (q_finish q) = Inr (acc @ kvs)"
  using assms
proof (induction kvs arbitrary: pre acc rule: query_text.induct)
  case (2 k v)
  have k: "k \<noteq> []" "CHR ''&'' \<notin> set (k @ url_encode v)" "CHR ''='' \<notin> set (k @ url_encode v)"
    using 2(2) url_encode_safe by (auto simp: query_keys_ok_def)
  have "q = pre @ k @ ''='' @ url_encode v" using 2(3) by simp
  from query_last[OF this 2(4) k(1), of acc] query_pair[OF k(2,3), of q "length pre" "q_state (length pre) acc"]
  show ?case by simp
next
  case (3 k v kv kvs)
  let ?head = "k @ ''='' @ url_encode v @ ''&''" and ?rest = "query_text (kv # kvs)"
  have k: "k \<noteq> []" "CHR ''&'' \<notin> set k" "CHR ''='' \<notin> set k" and rest: "query_keys_ok (kv # kvs)"
    using 3(3) by (auto simp: query_keys_ok_def)
  have q: "q = pre @ k @ ''='' @ url_encode v @ ''&'' @ ?rest" "q = (pre @ ?head) @ ?rest" using 3(4) by simp_all
  have step: "foldR (query_step q) (enumerate (length pre) ?head) (q_state (length pre) acc) =
      Inr (q_state (length (pre @ ?head)) (acc @ [(k, v)]))"
    using query_next[OF q(1) 3(5) k, of acc] by (simp add: add_ac)
  have "query_text ((k, v) # kv # kvs) = ?head @ ?rest" by simp
  then have "enumerate (length pre) (query_text ((k, v) # kv # kvs)) = enumerate (length pre) ?head @ enumerate (length (pre @ ?head)) ?rest"
    by (simp only: enumerate_append_eq length_append)
  then have "bindR (foldR (query_step q) (enumerate (length pre) (query_text ((k, v) # kv # kvs))) (q_state (length pre) acc)) (q_finish q) =
      bindR (foldR (query_step q) (enumerate (length (pre @ ?head)) ?rest) (q_state (length (pre @ ?head)) (acc @ [(k, v)]))) (q_finish q)"
    by (simp only: foldR_append step bindR.simps)
  also have "\<dots> = Inr ((acc @ [(k, v)]) @ kv # kvs)" by (rule 3(1)[OF _ rest q(2) 3(5)]) simp
  finally show ?case by simp
qed simp

text \<open>
  C19: a query string made of names and percent-encoded values is read as exactly these names and
  values, in their order.
\<close>

theorem query_roundtrip:
  assumes "query_keys_ok kvs" "length (query_text kvs) < 2 ^ 62"
  shows "parse_query_string (query_text kvs) = Inr kvs"
proof (cases "kvs = []")
  case True
  then show ?thesis by (simp add: parse_query_string_def)
next
  case False
  then have "query_text kvs \<noteq> []" by (cases kvs rule: query_text.cases) auto
  then show ?thesis using parse_query_string_eq query_run[OF False assms(1) _ assms(2), of "[]" "[]"] by simp
qed

theorem query_roundtrip_witness:
  "parse_query_string (query_text [(''since'', ''12.5''), (''host'', ''a&b'')]) = Inr [(''since'', ''12.5''), (''host'', ''a&b'')]"
  using query_roundtrip[of "[(''since'', ''12.5''), (''host'', ''a&b'')]"]
  by (simp add: query_keys_ok_def url_encode_def url_plain_def is_alnum_def)

end
