(* ===== verification/Regex.thy ===== *)
theory Regex
  imports Http
begin

text \<open>
  The part of \<^verbatim>\<open>std::regex\<close> that the agent's routes use, with the semantics ECMAScript gives it:
  characters, the dot, the groups \<^verbatim>\<open>(.*)\<close> and \<^verbatim>\<open>([0-9.]*)\<close> and the two anchors around the whole
  pattern, matched greedily with backtracking against a whole path. The locale \<open>std_regex\<close> states that
  the library agrees with this on the patterns of this form; routing is shown from it.
\<close>

section \<open>Patterns\<close>

datatype span = AnyChars | NumChars

datatype tok = Lit char | Dot | Group span

definition dot_char :: "char \<Rightarrow> bool" where
  "dot_char c = (c \<noteq> newline \<and> c \<noteq> CHR 0x0D)"

fun in_span :: "span \<Rightarrow> char \<Rightarrow> bool" where
  "in_span AnyChars c = dot_char c"
| "in_span NumChars c = (is_digit c \<or> c = CHR ''.'')"

text \<open>The characters with a meaning of their own; a pattern that uses them in another way is not read.\<close>

definition special :: "char \<Rightarrow> bool" where
  "special c = (c \<in> set ''^$*+?()[]{}|'' \<or> c = CHR 0x5C)"

function parse_toks :: "string \<Rightarrow> tok list option" where
  "parse_toks [] = None"
| "parse_toks (c # cs) =
     (if c = CHR ''$'' then (if cs = [] then Some [] else None)
      else if take 4 (c # cs) = ''(.*)'' then map_option ((#) (Group AnyChars)) (parse_toks (drop 3 cs))
      else if take 9 (c # cs) = ''([0-9.]*)'' then map_option ((#) (Group NumChars)) (parse_toks (drop 8 cs))
      else if special c then None
      else map_option ((#) (if c = CHR ''.'' then Dot else Lit c)) (parse_toks cs))"

  by pat_completeness auto
termination by (relation "measure length") auto

definition parse_rx :: "string \<Rightarrow> tok list option" where
  "parse_rx p = (case p of [] \<Rightarrow> None | c # cs \<Rightarrow> if c = CHR ''^'' then parse_toks cs else None)"

section \<open>Matching\<close>

text \<open>A group takes as much as it can and gives back until the rest of the pattern matches.\<close>

fun greedy :: "(char \<Rightarrow> bool) \<Rightarrow> (string \<Rightarrow> 'r option) \<Rightarrow> string \<Rightarrow> (string \<times> 'r) option" where
  "greedy P k [] = map_option (Pair []) (k [])"
| "greedy P k (x # xs) =
     (case (if P x then greedy P k xs else None) of
        Some (g, r) \<Rightarrow> Some (x # g, r)
      | None \<Rightarrow> map_option (Pair []) (k (x # xs)))"

fun rmatch :: "tok list \<Rightarrow> string \<Rightarrow> string list option" where
  "rmatch [] s = (if s = [] then Some [] else None)"
| "rmatch (Lit c # ts) s = (case s of [] \<Rightarrow> None | x # xs \<Rightarrow> if x = c then rmatch ts xs else None)"
| "rmatch (Dot # ts) s = (case s of [] \<Rightarrow> None | x # xs \<Rightarrow> if dot_char x then rmatch ts xs else None)"
| "rmatch (Group sp # ts) s = map_option (\<lambda>(g, gs). g # gs) (greedy (in_span sp) (rmatch ts) s)"

definition regex_match :: regex where
  "regex_match p s = (case parse_rx p of None \<Rightarrow> None | Some ts \<Rightarrow> rmatch ts s)"

locale std_regex =
  fixes rx :: regex
  assumes rx_match: "parse_rx p = Some ts \<Longrightarrow> rx p s = rmatch ts s"

interpretation cpp_regex: std_regex regex_match
  by unfold_locales (simp add: regex_match_def)

section \<open>What a match is\<close>

text \<open>The groups of a match, without an order of preference.\<close>

fun matches :: "tok list \<Rightarrow> string \<Rightarrow> string list \<Rightarrow> bool" where
  "matches [] s gs \<longleftrightarrow> s = [] \<and> gs = []"
| "matches (Lit c # ts) s gs \<longleftrightarrow> (\<exists>xs. s = c # xs \<and> matches ts xs gs)"
| "matches (Dot # ts) s gs \<longleftrightarrow> (\<exists>x xs. s = x # xs \<and> dot_char x \<and> matches ts xs gs)"
| "matches (Group sp # ts) s gs \<longleftrightarrow> (\<exists>g t gs'. s = g @ t \<and> gs = g # gs' \<and> list_all (in_span sp) g \<and> matches ts t gs')"

lemma greedy_Some:
  "greedy P k s = Some (g, r) \<Longrightarrow> \<exists>t. s = g @ t \<and> list_all P g \<and> k t = Some r"
  by (induction s arbitrary: g) (auto split: option.splits if_splits)

lemma greedy_eqI:
  assumes "list_all P g" "k t = Some r" "\<And>u v. t = u @ v \<Longrightarrow> u \<noteq> [] \<Longrightarrow> k v = None"
  shows "greedy P k (g @ t) = Some (g, r)"
proof -
  have "greedy P k t = Some ([], r)"
  proof (cases t)
    case (Cons x xs)
    have "greedy P k xs = None"
    proof (cases "greedy P k xs")
      case (Some y)
      then obtain u v where "xs = u @ v" "k v = Some (snd y)" using greedy_Some[of P k xs "fst y" "snd y"] by auto
      then show ?thesis using assms(3)[of "x # u" v] Cons by simp
    qed
    then show ?thesis using Cons assms(2) by simp
  qed (use assms(2) in simp)
  then show ?thesis using assms(1) by (induction g) auto
qed

text \<open>The matcher finds a match, and finds one whenever there is one.\<close>

lemma rmatch_matches: "rmatch ts s = Some gs \<Longrightarrow> matches ts s gs"
proof (induction ts arbitrary: s gs)
  case (Cons t ts)
  then show ?case
    by (cases t) (auto split: list.splits if_splits dest!: greedy_Some)
qed (simp split: if_splits)

lemma greedy_complete:
  "list_all P g \<Longrightarrow> k t \<noteq> None \<Longrightarrow> greedy P k (g @ t) \<noteq> None"
proof (induction g)
  case Nil
  then show ?case by (cases t) (auto split: option.splits)
qed (auto split: option.splits)

lemma matches_rmatch: "matches ts s gs \<Longrightarrow> rmatch ts s \<noteq> None"
proof (induction ts arbitrary: s gs)
  case (Cons t ts)
  then show ?case
  proof (cases t)
    case (Group sp)
    then obtain g u gs' where "s = g @ u" "list_all (in_span sp) g" "matches ts u gs'" using Cons.prems by auto
    then show ?thesis using greedy_complete[of "in_span sp" g "rmatch ts" u] Cons.IH Group by simp
  qed auto
qed simp

lemma rmatch_iff: "rmatch ts s \<noteq> None \<longleftrightarrow> (\<exists>gs. matches ts s gs)"
  using rmatch_matches matches_rmatch by blast

section \<open>Groups between slashes\<close>

text \<open>A pattern needs a slash of the path for each of its own.\<close>

abbreviation slash :: char where
  "slash \<equiv> CHR ''/''"

lemma matches_slashes: "matches ts s gs \<Longrightarrow> count_list ts (Lit slash) \<le> count_list s slash"
proof (induction ts arbitrary: s gs)
  case (Cons t ts)
  show ?case
  proof (cases t)
    case (Group sp)
    then obtain g u gs' where "s = g @ u" "matches ts u gs'" using Cons.prems by auto
    then show ?thesis using Cons.IH[of u gs'] Group by simp
  qed (use Cons in fastforce)+
qed simp

lemma rmatch_slashes: "count_list s slash < count_list ts (Lit slash) \<Longrightarrow> rmatch ts s = None"
  using matches_slashes[of ts s] rmatch_matches[of ts s] by (cases "rmatch ts s") fastforce+

text \<open>
  A group in front of a slash takes exactly what is before it, when the path has no more slashes left
  than the pattern needs.
\<close>

lemma rmatch_group:
  assumes "list_all (in_span sp) g" "rmatch ts t = Some gs" "count_list t slash = count_list ts (Lit slash)"
  shows "rmatch (Group sp # Lit slash # ts) (g @ slash # t) = Some (g # gs)"
proof -
  have "rmatch (Lit slash # ts) v = None" if "slash # t = u @ v" "u \<noteq> []" for u v
  proof -
    from that obtain u' where "t = u' @ v" by (cases u) auto
    then show ?thesis using assms(3) by (intro rmatch_slashes) simp
  qed
  then have "greedy (in_span sp) (rmatch (Lit slash # ts)) (g @ slash # t) = Some (g, gs)"
    using assms(1,2) by (intro greedy_eqI) auto
  then show ?thesis by simp
qed

lemma rmatch_lits: "rmatch (map Lit l @ ts) (l @ s) = rmatch ts s"
  by (induction l) auto

lemma rmatch_all_lits: "rmatch (map Lit l) l = Some []"
  using rmatch_lits[of l "[]" "[]"] by simp

text \<open>The last characters a pattern allows.\<close>

fun may_end :: "tok list \<Rightarrow> char \<Rightarrow> bool" where
  "may_end [] c = False"
| "may_end (Lit d # ts) c = (c = d)"
| "may_end (Dot # ts) c = dot_char c"
| "may_end (Group sp # ts) c = (in_span sp c \<or> may_end ts c)"

lemma may_end_append: "may_end ts c \<Longrightarrow> may_end (ts @ us) c"
  by (induction ts c rule: may_end.induct) auto

lemma may_end_snoc: "list_all (\<lambda>t. \<exists>sp. t = Group sp) ts \<Longrightarrow> may_end us c \<Longrightarrow> may_end (ts @ us) c"
  by (induction ts) auto

text \<open>A pattern whose match is empty consists of groups.\<close>

lemma matches_Nil: "matches ts [] gs \<Longrightarrow> list_all (\<lambda>t. \<exists>sp. t = Group sp) ts"
proof (induction ts arbitrary: gs)
  case (Cons t ts)
  then show ?case by (cases t) auto
qed simp

lemma matches_last: "matches ts s gs \<Longrightarrow> s \<noteq> [] \<Longrightarrow> may_end (rev ts) (last s)"
proof (induction ts arbitrary: s gs)
  case (Cons t ts)
  have step: "may_end (rev (t # ts)) (last (g @ u))"
    if "matches ts u gs'" "g @ u \<noteq> []" "g \<noteq> [] \<Longrightarrow> may_end [t] (last g)" for g u gs'
  proof (cases u)
    case Nil
    then show ?thesis using that matches_Nil[of ts gs'] may_end_snoc[of "rev ts" "[t]"] by simp
  next
    case (Cons x xs)
    then show ?thesis using that(1) Cons.IH[OF that(1)] may_end_append[of "rev ts" "last u" "[t]"] by simp
  qed
  show ?case
  proof (cases t)
    case (Lit c)
    then obtain xs where "s = [c] @ xs" "matches ts xs gs" using Cons.prems by auto
    then show ?thesis using step[of xs gs "[c]"] Lit by simp
  next
    case Dot
    then obtain x xs where "s = [x] @ xs" "dot_char x" "matches ts xs gs" using Cons.prems by auto
    then show ?thesis using step[of xs gs "[x]"] Dot by simp
  next
    case (Group sp)
    then obtain g u gs' where "s = g @ u" "list_all (in_span sp) g" "matches ts u gs'" using Cons.prems by auto
    then show ?thesis using step[of u gs' g] Group Cons.prems(2) by (auto simp: list_all_iff)
  qed
qed simp

lemma rmatch_last: "s \<noteq> [] \<Longrightarrow> \<not> may_end (rev ts) (last s) \<Longrightarrow> rmatch ts s = None"
  using matches_last[of ts s] rmatch_matches[of ts s] by (cases "rmatch ts s") auto

section \<open>The first route that matches\<close>

lemma match_resource_first:
  assumes "key_sorted rs" "map_of rs r = Some ms" "map_of ms (r_method req) = Some h" "rx r (r_path req) = Some gs"
    and "\<And>r'. r' \<in> fst ` set rs \<Longrightarrow> r' < r \<Longrightarrow> rx r' (r_path req) = None"
  shows "match_resource rx rs req = Some (h, req\<lparr>r_path_match := Some gs\<rparr>)"
  using assms
proof (induction rs)
  case (Cons x rs)
  obtain r' ms' where x: "x = (r', ms')" by (cases x)
  have s: "key_sorted rs" "\<forall>y \<in> fst ` set rs. r' < y" using Cons.prems(1) by (auto simp: x key_sorted_Cons)
  show ?case
  proof (cases "r' = r")
    case True
    then show ?thesis using Cons.prems(2-4) by (simp add: x)
  next
    case False
    then have m: "map_of rs r = Some ms" using Cons.prems(2) by (simp add: x)
    then have "r \<in> fst ` set rs" by (metis map_of_SomeD fst_conv image_eqI)
    then have "rx r' (r_path req) = None" using Cons.prems(5)[of r'] s(2) by (simp add: x)
    then show ?thesis using Cons.IH[OF s(1) m Cons.prems(3,4)] Cons.prems(5) by (simp add: x split: option.splits)
  qed
qed simp

end
