(* ===== verification/Api.thy ===== *)
theory Api
  imports ServicesManager ServiceStatus Regex
begin

text \<open>
  The agent's HTTP interface: the JSON handlers of \<^verbatim>\<open>servicesManager\<close> in src/servicesManager.cpp, their
  routes, and what a request for a measure's history goes through from the text of the request to the
  text of the response. The state of the system collectors and the registry of services are explicit;
  a handler returns the changed registry and the response. \<open>ask\<close> is what asking the handler of a
  service for a blackout does and answers, and \<open>now\<close> the clock in milliseconds.
\<close>

section \<open>Handlers\<close>

text \<open>The first service with a property, when there is one, changed and with what it answers.\<close>

fun on_first :: "('s \<Rightarrow> bool) \<Rightarrow> ('s \<Rightarrow> ('s \<times> 'b) res) \<Rightarrow> 's list \<Rightarrow> ('s list \<times> 'b) option res" where
  "on_first P f [] = Inr None"
| "on_first P f (s # ss) =
     (if P s then bindR (f s) (\<lambda>(s', b). Inr (Some (s' # ss, b)))
      else bindR (on_first P f ss) (\<lambda>r. Inr (map_option (\<lambda>(ss', b). (s # ss', b)) r)))"

text \<open>Every service in turn; its answer becomes the member of the report with the service's name.\<close>

definition report_all ::
  "'j jsonlib \<Rightarrow> ('j service \<Rightarrow> ('j service \<times> 'j) res) \<Rightarrow> 'j service list \<Rightarrow> ('j service list \<times> 'j) res" where
  "report_all J f ss =
     foldR (\<lambda>s (seen, res). bindR (f s) (\<lambda>(s', v). Inr (seen @ [s'], j_set J res (getID s) v))) ss ([], j_object J)"

definition error_text :: "'j jsonlib \<Rightarrow> string \<Rightarrow> string" where
  "error_text J msg = j_write J (j_set J (j_object J) ''error'' (j_string J msg))"

definition no_service :: "string \<Rightarrow> string" where
  "no_service i = ''No service matching '' @ [CHR 0x27] @ i @ [CHR 0x27] @ '' found''"

definition no_collector :: "string \<Rightarrow> string \<Rightarrow> string" where
  "no_collector cid i =
     ''No collector matching '' @ [CHR 0x27] @ cid @ [CHR 0x27] @ '' for service '' @ [CHR 0x27] @ i @ [CHR 0x27] @ '' found''"

text \<open>What the status and the log handler share: a report of all the services, or of the one asked for.\<close>

definition service_report ::
  "'j jsonlib \<Rightarrow> ('j service \<Rightarrow> ('j service \<times> 'j) res) \<Rightarrow> string \<Rightarrow> 'j manager \<Rightarrow> ('j manager \<times> string) res" where
  "service_report J f i m =
     (if i = ''all''
      then bindR (report_all J f (m_services m)) (\<lambda>(ss, res). Inr (m\<lparr>m_services := ss\<rparr>, setResponseJson (j_write J res)))
      else bindR (on_first (\<lambda>s. service_is s i) f (m_services m)) (\<lambda>r.
        case r of
          Some (ss, v) \<Rightarrow> Inr (m\<lparr>m_services := ss\<rparr>, setResponseJson (j_write J v))
        | None \<Rightarrow> Inr (m, setResponseJson (error_text J (no_service i)))))"

definition doGetServiceStatus ::
  "'j jsonlib \<Rightarrow> os \<Rightarrow> 'j asks \<Rightarrow> 'j manager \<Rightarrow> string list \<Rightarrow> query_args \<Rightarrow> ('j manager \<times> string) res" where
  "doGetServiceStatus J w ask m request args =
     bindR (vec_at request 0) (\<lambda>i. service_report J (\<lambda>s. getJsonStatus J w ask s (j_object J)) i m)"

definition doGetServiceLog :: "'j jsonlib \<Rightarrow> 'j manager \<Rightarrow> string list \<Rightarrow> query_args \<Rightarrow> ('j manager \<times> string) res" where
  "doGetServiceLog J m request args =
     bindR (vec_at request 0) (\<lambda>i.
     bindR (since_arg args) (\<lambda>since.
     service_report J (\<lambda>s. bindR (getJsonLogHistory J s since (j_object J)) (\<lambda>v. Inr (s, v))) i m))"

text \<open>
  The member a part of the report goes to is looked up for each part: a handler that gives a nameless service its first
  process, and with it a name, splits the report of the service.
\<close>

definition all_report ::
  "'j jsonlib \<Rightarrow> os \<Rightarrow> 'j asks \<Rightarrow> double \<Rightarrow> 'j service \<Rightarrow> 'j service list \<times> 'j \<Rightarrow> ('j service list \<times> 'j) res" where
  "all_report J w ask since s = (\<lambda>(seen, res).
     let part = (\<lambda>s k. [Key (getID s), Key k]);
         empty = fold (\<lambda>k. j_put J (part s k) (j_object J)) [''status'', ''logs'', ''collectors''] (j_set J res (getID s) (j_object J)) in
     bindR (getJsonStatus J w ask s (j_object J)) (\<lambda>(s', st).
     let r1 = j_put J (part s ''status'') st empty in
     bindR (getJsonLogHistory J s' since (j_get J (j_get J r1 (getID s')) ''logs'')) (\<lambda>lg.
     let r2 = j_put J (part s' ''logs'') lg r1 in
     bindR (getJsonCollectorHistory J s' since (j_get J (j_get J r2 (getID s')) ''collectors'')) (\<lambda>ch.
     Inr (seen @ [s'], j_put J (part s' ''collectors'') ch r2)))))"

definition doGetAllJson ::
  "'j jsonlib \<Rightarrow> os \<Rightarrow> 'j asks \<Rightarrow> double \<Rightarrow> 'j collectors \<Rightarrow> 'j manager \<Rightarrow> string list \<Rightarrow> query_args \<Rightarrow> ('j manager \<times> string) res" where
  "doGetAllJson J w ask now sys m request args =
     bindR (since_arg args) (\<lambda>since.
     bindR (foldR (all_report J w ask since) (m_services m) ([], j_object J)) (\<lambda>(ss, sv).
     bindR (getSystemJson J sys since (j_object J)) (\<lambda>sy.
     Inr (m\<lparr>m_services := ss\<rparr>, setResponseJson (j_writeString J [] False
       (j_set J (j_set J (j_set J (j_object J) ''services'' sv) ''timestamp'' (j_double J now)) ''system'' sy))))))"

text \<open>The service and the collector a request names, and the request without these two arguments.\<close>

definition with_collector ::
  "'j jsonlib \<Rightarrow> ('j service \<Rightarrow> 'j collector \<Rightarrow> string list \<Rightarrow> string res) \<Rightarrow> (string \<Rightarrow> string) \<Rightarrow> 'j manager \<Rightarrow> string list \<Rightarrow> string res" where
  "with_collector J f unknown m request =
     bindR (vec_at request 0) (\<lambda>i.
     bindR (vec_at request 1) (\<lambda>cid.
     case List.find (\<lambda>s. service_is s i) (m_services m) of
       None \<Rightarrow> Inr (unknown i)
     | Some s \<Rightarrow> (case getCollector s cid of
         None \<Rightarrow> Inr (setResponseJson (error_text J (no_collector cid i)))
       | Some c \<Rightarrow> f s c (drop 2 request))))"

definition doGetCollectorHistory :: "'j jsonlib \<Rightarrow> 'j manager \<Rightarrow> string list \<Rightarrow> query_args \<Rightarrow> string res" where
  "doGetCollectorHistory J m request args =
     with_collector J (\<lambda>s c req. doGetHistory J c req args) (\<lambda>i. setResponseJson (error_text J (no_service i))) m request"

section \<open>The description of the interface\<close>

definition doc_head :: "'j jsonlib \<Rightarrow> 'j writes" where
  "doc_head J =
     [([Key ''swagger''], j_string J ''2.0''),
      ([Key ''info'', Key ''version''], j_string J ''1.0.0''),
      ([Key ''info'', Key ''title''], j_string J ''watched.agent''),
      ([Key ''info'', Key ''description''], j_string J ''Watch over wasted being washed up''),
      ([Key ''info'', Key ''contact'', Key ''name''], j_string J ''Sebastien Huss''),
      ([Key ''info'', Key ''contact'', Key ''email''], j_string J ''sebastien.huss@gmail.com''),
      ([Key ''info'', Key ''contact'', Key ''url''], j_string J ''https://sebt3.github.io/watched/''),
      ([Key ''info'', Key ''license'', Key ''name''], j_string J ''AGPL''),
      ([Key ''info'', Key ''license'', Key ''url''], j_string J ''https://www.gnu.org/licenses/agpl-3.0.html''),
      ([Key ''externalDocs'', Key ''description''], j_string J ''Documentation''),
      ([Key ''externalDocs'', Key ''url''], j_string J ''https://sebt3.github.io/watched/doc/''),
      ([Key ''host''], j_string J ''localhost''),
      ([Key ''basePath''], j_string J ''/''),
      ([Key ''schemes'', Idx 0], j_string J ''http''),
      ([Key ''consumes'', Idx 0], j_string J ''application/json''),
      ([Key ''produces'', Idx 0], j_string J ''application/json''),
      ([Key ''definitions'', Key ''services'', Key ''type''], j_string J ''object'')]"

definition doc_body :: "'j jsonlib \<Rightarrow> 'j writes" where
  "doc_body J =
     [([Key ''definitions'', Key ''serviceProcess'', Key ''type''], j_string J ''object''),
      ([Key ''definitions'', Key ''serviceProcess'', Key ''properties'', Key ''cwd'', Key ''type''], j_string J ''string''),
      ([Key ''definitions'', Key ''serviceProcess'', Key ''properties'', Key ''full_path'', Key ''type''], j_string J ''string''),
      ([Key ''definitions'', Key ''serviceProcess'', Key ''properties'', Key ''name'', Key ''type''], j_string J ''string''),
      ([Key ''definitions'', Key ''serviceProcess'', Key ''properties'', Key ''pid'', Key ''type''], j_string J ''number''),
      ([Key ''definitions'', Key ''serviceProcess'', Key ''properties'', Key ''status'', Key ''type''], j_string J ''string''),
      ([Key ''definitions'', Key ''serviceProcess'', Key ''properties'', Key ''username'', Key ''type''], j_string J ''string''),
      ([Key ''definitions'', Key ''serviceProcess'', Key ''required'', Idx 0], j_string J ''name''),
      ([Key ''definitions'', Key ''serviceProcess'', Key ''required'', Idx 1], j_string J ''status''),
      ([Key ''definitions'', Key ''serviceProcess'', Key ''required'', Idx 1], j_string J ''status''),
      ([Key ''definitions'', Key ''serviceProcess'', Key ''x-isService''], j_bool J False),
      ([Key ''definitions'', Key ''serviceSocket'', Key ''properties'', Key ''name'', Key ''type''], j_string J ''string''),
      ([Key ''definitions'', Key ''serviceSocket'', Key ''properties'', Key ''status'', Key ''type''], j_string J ''string''),
      ([Key ''definitions'', Key ''serviceSocket'', Key ''required'', Idx 0], j_string J ''name''),
      ([Key ''definitions'', Key ''serviceSocket'', Key ''required'', Idx 1], j_string J ''status''),
      ([Key ''definitions'', Key ''serviceSocket'', Key ''x-isService''], j_bool J False),
      ([Key ''definitions'', Key ''serviceLog'', Key ''properties'', Key ''level'', Key ''type''], j_string J ''string''),
      ([Key ''definitions'', Key ''serviceLog'', Key ''properties'', Key ''date_mark'', Key ''type''], j_string J ''string''),
      ([Key ''definitions'', Key ''serviceLog'', Key ''properties'', Key ''line_no'', Key ''type''], j_string J ''number''),
      ([Key ''definitions'', Key ''serviceLog'', Key ''properties'', Key ''source'', Key ''type''], j_string J ''string''),
      ([Key ''definitions'', Key ''serviceLog'', Key ''properties'', Key ''text'', Key ''type''], j_string J ''string''),
      ([Key ''definitions'', Key ''serviceLog'', Key ''properties'', Key ''timestamp'', Key ''format''], j_string J ''double''),
      ([Key ''definitions'', Key ''serviceLog'', Key ''properties'', Key ''timestamp'', Key ''type''], j_string J ''number''),
      ([Key ''definitions'', Key ''serviceLog'', Key ''required'', Idx 0], j_string J ''level''),
      ([Key ''definitions'', Key ''serviceLog'', Key ''required'', Idx 1], j_string J ''date_mark''),
      ([Key ''definitions'', Key ''serviceLog'', Key ''required'', Idx 2], j_string J ''line_no''),
      ([Key ''definitions'', Key ''serviceLog'', Key ''required'', Idx 3], j_string J ''timestamp''),
      ([Key ''definitions'', Key ''serviceLog'', Key ''x-isService''], j_bool J False),
      ([Key ''definitions'', Key ''services'', Key ''properties'', Key ''host'', Key ''type''], j_string J ''string''),
      ([Key ''definitions'', Key ''services'', Key ''properties'', Key ''process'', Key ''type''], j_string J ''array''),
      ([Key ''definitions'', Key ''services'', Key ''properties'', Key ''process'', Key ''items'', Key ''$ref''], j_string J ''#/definitions/serviceProcess''),
      ([Key ''definitions'', Key ''services'', Key ''properties'', Key ''sockets'', Key ''type''], j_string J ''array''),
      ([Key ''definitions'', Key ''services'', Key ''properties'', Key ''sockets'', Key ''items'', Key ''$ref''], j_string J ''#/definitions/serviceSocket''),
      ([Key ''definitions'', Key ''services'', Key ''required'', Idx 0], j_string J ''sockets''),
      ([Key ''definitions'', Key ''services'', Key ''required'', Idx 1], j_string J ''process''),
      ([Key ''definitions'', Key ''services'', Key ''required'', Idx 2], j_string J ''host''),
      ([Key ''definitions'', Key ''services'', Key ''x-isService''], j_bool J False),
      ([Key ''paths'', Key ''/service/all/status'', Key ''get'', Key ''responses'', Key ''200'', Key ''description''], j_string J ''All services status''),
      ([Key ''paths'', Key ''/service/all/status'', Key ''get'', Key ''responses'', Key ''200'', Key ''schema'', Key ''type''], j_string J ''object''),
      ([Key ''paths'', Key ''/service/all/status'', Key ''get'', Key ''responses'', Key ''200'', Key ''schema'', Key ''additionalProperties'', Key ''$ref''], j_string J ''#/definitions/services''),
      ([Key ''paths'', Key ''/service/all/status'', Key ''get'', Key ''summary''], j_string J ''All services status''),
      ([Key ''paths'', Key ''/service/all/log'', Key ''get'', Key ''responses'', Key ''200'', Key ''description''], j_string J ''All services log events''),
      ([Key ''paths'', Key ''/service/all/log'', Key ''get'', Key ''responses'', Key ''200'', Key ''schema'', Key ''type''], j_string J ''object''),
      ([Key ''paths'', Key ''/service/all/log'', Key ''get'', Key ''responses'', Key ''200'', Key ''schema'', Key ''additionalProperties'', Key ''$ref''], j_string J ''#/definitions/serviceLog''),
      ([Key ''paths'', Key ''/service/all/log'', Key ''get'', Key ''summary''], j_string J ''All services status'')]"

definition doGetJson ::
  "'j jsonlib \<Rightarrow> os \<Rightarrow> 'j collectors \<Rightarrow> 'j manager \<Rightarrow> string list \<Rightarrow> query_args \<Rightarrow> ('j collectors \<times> 'j manager \<times> string) res" where
  "doGetJson J w sys m request args =
     bindR (mgr_getJson J w sys (run_writes J (doc_head J) (j_object J))) (\<lambda>(sys', p).
     bindR (foldR (\<lambda>s (seen, p). bindR (serv_getJson J w (s, p)) (\<lambda>(s', p'). Inr (seen @ [s'], p')))
              (m_services m) ([], run_writes J (doc_body J) p)) (\<lambda>(ss, p').
     Inr (sys', m\<lparr>m_services := ss\<rparr>, setResponseJson (j_writeString J [CHR 0x09] True p'))))"

section \<open>One service and all of them\<close>

lemma getID_all: "getID s \<noteq> ''all''"
proof
  assume "getID s = ''all''"
  moreover have "CHR ''-'' \<in> set (getID s)" by (simp add: getID_def)
  ultimately show False by simp
qed

lemma service_is_iff: "service_is s i \<longleftrightarrow> i = getID s"
  by (simp add: service_is_def getID_def)

text \<open>The first match of a list without repetition of the identifier is the one service that has it.\<close>

lemma on_first_unique:
  assumes "distinct (map getID ss)" "s \<in> set ss" "f s = Inr (s', v)"
  shows "\<exists>ss'. on_first (\<lambda>t. service_is t (getID s)) f ss = Inr (Some (ss', v))"
  using assms
proof (induction ss)
  case (Cons t ss)
  show ?case
  proof (cases "t = s")
    case True
    then show ?thesis using Cons.prems(3) by (simp add: service_is_iff)
  next
    case False
    then have "s \<in> set ss" "getID s \<noteq> getID t" using Cons.prems(1,2) by (auto simp: image_iff)
    then show ?thesis using Cons by (auto simp: service_is_iff)
  qed
qed simp

context json_laws
begin

lemma report_fold:
  assumes "j_isObject J res"
    "foldR (\<lambda>s (seen, res). bindR (f s) (\<lambda>(s', v). Inr (seen @ [s'], j_set J res (getID s) v))) ss (seen, res) = Inr (ss', res')"
  shows "j_isObject J res' \<and> (\<forall>k. j_member J res' k \<longleftrightarrow> k \<in> getID ` set ss \<or> j_member J res k) \<and>
    (\<forall>k. k \<notin> getID ` set ss \<longrightarrow> j_get J res' k = j_get J res k) \<and>
    (distinct (map getID ss) \<longrightarrow> (\<forall>s \<in> set ss. \<exists>s'. f s = Inr (s', j_get J res' (getID s))))"
  using assms
proof (induction ss arbitrary: seen res)
  case (Cons s ss)
  from Cons.prems(2) obtain s' v where v: "f s = Inr (s', v)" by (cases "f s") auto
  have "foldR (\<lambda>s (seen, res). bindR (f s) (\<lambda>(s', v). Inr (seen @ [s'], j_set J res (getID s) v))) ss
      (seen @ [s'], j_set J res (getID s) v) = Inr (ss', res')"
    using Cons.prems(2) v by simp
  from Cons.IH[OF obj_set[OF Cons.prems(1)] this] v Cons.prems(1)
  show ?case by (auto simp: member_set get_set)
qed simp

lemma report_all_each:
  assumes "report_all J f ss = Inr (ss', res)"
  shows "j_member J res k \<longleftrightarrow> k \<in> getID ` set ss"
    "distinct (map getID ss) \<Longrightarrow> s \<in> set ss \<Longrightarrow> \<exists>s'. f s = Inr (s', j_get J res (getID s))"
  using report_fold[OF obj_object assms[unfolded report_all_def]] by (auto simp: member_object)

end

lemma service_report_agrees:
  assumes "json_laws J" "distinct (map getID (m_services m))" "service_report J f ''all'' m = Inr (m_all, out)"
  shows "\<exists>res. out = setResponseJson (j_write J res) \<and> (\<forall>k. j_member J res k \<longleftrightarrow> k \<in> getID ` set (m_services m)) \<and>
    (\<forall>s \<in> set (m_services m). \<exists>m_one. service_report J f (getID s) m = Inr (m_one, setResponseJson (j_write J (j_get J res (getID s)))))"
proof -
  obtain ss res where r: "report_all J f (m_services m) = Inr (ss, res)" and t: "out = setResponseJson (j_write J res)"
    using assms(3) unfolding service_report_def by (cases "report_all J f (m_services m)") (simp_all split: prod.splits)
  note each = json_laws.report_all_each[OF assms(1) r]
  have "\<exists>m_one. service_report J f (getID s) m = Inr (m_one, setResponseJson (j_write J (j_get J res (getID s))))"
    if s: "s \<in> set (m_services m)" for s
  proof -
    obtain s' where "f s = Inr (s', j_get J res (getID s))" using each(2)[OF assms(2) s] by blast
    from on_first_unique[where f = f, OF assms(2) s this]
    obtain ss' where "on_first (\<lambda>t. service_is t (getID s)) f (m_services m) = Inr (Some (ss', j_get J res (getID s)))" ..
    then show ?thesis by (simp add: service_report_def getID_all)
  qed
  then show ?thesis using t each(1) by blast
qed

text \<open>
  C13: The status of all the services and the status of one agree: the answer for all is an object with
  one member for each service and no other, and asking for one service by its identifier gives exactly
  the text of its member, when the identifiers are different.
\<close>

theorem status_all_agrees:
  assumes "json_laws J" "distinct (map getID (m_services m))"
    and "doGetServiceStatus J w ask m [''all'', []] args = Inr (m_all, out)"
  shows "\<exists>res. out = setResponseJson (j_write J res) \<and> (\<forall>k. j_member J res k \<longleftrightarrow> k \<in> getID ` set (m_services m)) \<and>
    (\<forall>s \<in> set (m_services m). \<exists>m_one. doGetServiceStatus J w ask m [getID s, []] args =
       Inr (m_one, setResponseJson (j_write J (j_get J res (getID s)))))"
  using service_report_agrees[OF assms(1,2)] assms(3) by (simp add: doGetServiceStatus_def)

text \<open>
  An identifier no service has gets a JSON error and changes nothing, for the status, for the log and for
  the history of a collector alike.
\<close>

theorem unknown_service_error:
  assumes "i \<notin> getID ` set (m_services m)" "i \<noteq> ''all''" "since_arg args = Inr since"
  shows "doGetServiceStatus J w ask m (i # r) args = Inr (m, setResponseJson (error_text J (no_service i))) \<and>
    doGetServiceLog J m (i # r) args = Inr (m, setResponseJson (error_text J (no_service i))) \<and>
    doGetCollectorHistory J m (i # cid # r) args = Inr (setResponseJson (error_text J (no_service i)))"
proof -
  have "on_first (\<lambda>s. service_is s i) f ss = Inr None" if "i \<notin> getID ` set ss" for f :: "'a service \<Rightarrow> ('a service \<times> 'a) res" and ss
    using that by (induction ss) (auto simp: service_is_iff)
  moreover have "List.find (\<lambda>s. service_is s i) (m_services m) = None"
    using assms(1) by (auto simp: find_None_iff service_is_iff)
  ultimately show ?thesis using assms
    by (simp add: doGetServiceStatus_def doGetServiceLog_def doGetCollectorHistory_def service_report_def with_collector_def)
qed

text \<open>
  The description of the interface offers the parameter \<^verbatim>\<open>len\<close> for the length of a history, and the
  handler reads the parameter \<^verbatim>\<open>since\<close> only: every other argument of the query, \<^verbatim>\<open>len\<close> among them, has no
  effect.
\<close>

theorem history_reads_since_only:
  "doGetHistory J c request args = doGetHistory J c request (filter (\<lambda>(k, v). k = ''since'') args)"
proof -
  have "foldR (\<lambda>(k, v) s. if k = ''since'' then stod v else Inr s) args x =
      foldR (\<lambda>(k, v) s. if k = ''since'' then stod v else Inr s) (filter (\<lambda>(k, v). k = ''since'') args) x" for x
  proof (induction args arbitrary: x)
    case (Cons kv args)
    obtain k v where "kv = (k, v)" by (cases kv)
    then show ?case using Cons.IH by (cases "stod v") simp_all
  qed simp
  then show ?thesis by (simp add: doGetHistory_def since_arg_def)
qed

section \<open>Instances\<close>

definition demo_manager :: "jv manager" where
  "demo_manager = \<lparr>m_services = [demo_up], m_templates = [], m_counters = []\<rparr>"

theorem status_all_agrees_witness:
  "\<exists>m_one res. doGetServiceStatus ref_json demo_os no_blackout demo_manager [''nginx-web'', []] [] =
     Inr (m_one, setResponseJson (jv_write (jv_get res ''nginx-web'')))"
proof -
  have i: "getID demo_up = ''nginx-web''" by (simp add: getID_def demo_up_def)
  have "\<exists>m_all out. doGetServiceStatus ref_json demo_os no_blackout demo_manager [''all'', []] [] = Inr (m_all, out)"
    by (simp add: doGetServiceStatus_def service_report_def report_all_def demo_manager_def demo_status)
  then obtain m_all out where "doGetServiceStatus ref_json demo_os no_blackout demo_manager [''all'', []] [] = Inr (m_all, out)"
    by blast
  from status_all_agrees[OF ref.json_laws_axioms _ this] show ?thesis by (auto simp: demo_manager_def i)
qed

theorem unknown_service_error_witness:
  "doGetServiceStatus ref_json demo_os no_blackout demo_manager [''none''] [] =
     Inr (demo_manager, setResponseJson (error_text ref_json (no_service ''none'')))"
  using unknown_service_error[of "''none''" demo_manager "[]" "Fin (- 1)" ref_json demo_os no_blackout "[]"]
  by (simp add: demo_manager_def getID_def demo_up_def since_arg_def)

end
