(* ===== verification/Pages.thy ===== *)
theory Pages
  imports Api
begin

text \<open>
  The HTML pages: the frame of src/server.cpp, the boxes of a collector and its graph page
  (src/collectors.cpp), the line of a service (src/services.cpp), and the pages of \<^verbatim>\<open>servicesManager\<close>. The texts
  are those of the code. A page reads the last values through \<^verbatim>\<open>getValue\<close>, which adds a missing member to
  the last entry, so a collector's state is passed through.
\<close>

section \<open>Frame\<close>

definition APPS_NAME :: string where
  "APPS_NAME = ''watched.agent''"

definition getHead :: "string \<Rightarrow> string \<Rightarrow> string" where
  \<open>getHead p_title p_sub =
     ''<!DOCTYPE html>'' @ [newline] @ ''<html><head>'' @ [newline] @ ''<meta charset="utf-8">'' @ [newline] @ ''<meta http-equiv="X-UA-Compatible" content="IE=edge">'' @ [newline] @ ''<title>'' @ APPS_NAME @ '' - '' @ p_title @
     ''</title>'' @ [newline] @ ''<meta content="width=device-width, initial-scale=1, maximum-scale=1, user-scalable=no" name="viewport">'' @ [newline] @ ''<link rel="shortcut icon" href="/favicon.ico">'' @ [newline] @ ''<link rel="stylesheet" href="/css/bootstrap.min.css">'' @ [newline] @ ''<link rel="stylesheet" href="/css/AdminLTE.min.css">'' @ [newline] @ ''<link rel="stylesheet" href="/css/skin-blue.css">'' @ [newline] @ ''<link rel="stylesheet" href="/css/font-awesome.min.css">'' @ [newline] @ ''<link rel="stylesheet" href="/css/ionicons.min.css">'' @ [newline] @ ''<link rel="stylesheet" href="/css/watched.css">'' @ [newline] @ ''</head><body class="hold-transition skin-blue sidebar-collapse sidebar-mini">'' @ [newline] @ ''<div class="wrapper">'' @ [newline] @ ''<header class="main-header"><a href="/" class="logo"> <span class="logo-mini"><img src="/pic/watched32x32.png" height="32" width="32" /></span></a><nav class="navbar navbar-static-top"><a class="navbar-brand" href="#"><b>'' @ APPS_NAME @
     ''</b></a><div class="navbar-custom-menu"><ul class="nav navbar-nav"></ul></div></nav></header>'' @ [newline] @ ''<aside class="main-sidebar"><section class="sidebar"><ul class="sidebar-menu"></ul></section></aside>'' @ [newline] @ ''<div class="content-wrapper"><section class="content-header"><h1>'' @ p_title @ ''<small>'' @ p_sub @ ''</small></h1></section><section class="content">'' @ [newline]\<close>

definition getFoot :: "string \<Rightarrow> string" where
  \<open>getFoot p_script =
     ''</section></div><footer class="main-footer"><div class="pull-right hidden-xs"><b>Version</b> 0.1.0    </div><strong>Copyright &copy; 2016<a href="https://github.com/sebt3">S'' @ [CHR 0xC3, CHR 0xA9] @ ''bastien Huss</a>.</strong> All rights reserved.</footer></div>'' @ [newline] @ ''<script src="/js/jquery-2.2.3.min.js"></script>'' @ [newline] @ ''<script src="/js/bootstrap.min.js"></script>'' @ [newline] @ ''<script src="/js/adminlte.min.js"></script>'' @ [newline] @ ''<script src="/js/d3.v4.min.js"></script>'' @ [newline] @ ''<script src="/js/watched.js"></script>'' @ [newline] @ ''<script src="/js/watched.line.js"></script>'' @ [newline] @ ''<script>'' @ [newline] @ p_script @
     ''</script>'' @ [newline] @ ''</body>'' @ [newline] @ ''</html>'' @ [newline]\<close>

section \<open>Collectors\<close>

text \<open>\<^verbatim>\<open>ressources[k]->getValue(p)\<close>: an unknown measure is a null pointer.\<close>

definition last_value :: "'j jsonlib \<Rightarrow> string \<Rightarrow> string \<Rightarrow> 'j collector \<Rightarrow> ('j collector \<times> 'j) res" where
  "last_value J k p c =
     (case map_of (c_ressources c) k of
        None \<Rightarrow> Inl Undefined
      | Some r \<Rightarrow> (let (r', v) = getValue J r p in Inr (c\<lparr>c_ressources := mput k r' (c_ressources c)\<rparr>, v)))"

definition last_string :: "'j jsonlib \<Rightarrow> string \<Rightarrow> string \<Rightarrow> 'j collector \<Rightarrow> ('j collector \<times> string) res" where
  "last_string J k p c = bindR (last_value J k p c) (\<lambda>(c', v). bindR (j_asString J v) (\<lambda>s. Inr (c', s)))"

definition last_double :: "'j jsonlib \<Rightarrow> string \<Rightarrow> string \<Rightarrow> 'j collector \<Rightarrow> ('j collector \<times> double) res" where
  "last_double J k p c = bindR (last_value J k p c) (\<lambda>(c', v). bindR (j_asDouble J v) (\<lambda>d. Inr (c', d)))"

definition color :: "double \<Rightarrow> string" where
  "color used =
     (if dlt (Fin 90) used then ''red'' else if dlt (Fin 70) used then ''yellow''
      else if dlt used (Fin 20) then ''blue'' else ''green'')"

definition graph_url :: "'j collector \<Rightarrow> string \<Rightarrow> string" where
  \<open>graph_url c k = ''<a href="'' @ c_basePath c @ c_name c @ ''/'' @ k @ ''/graph">''\<close>

text \<open>A line with a bar, for a share in percent.\<close>

definition usage_line :: "'j collector \<Rightarrow> string \<Rightarrow> double \<Rightarrow> string" where
  \<open>usage_line c k used =
     graph_url c k @ ''<div class="clearfix"><span class="pull-left">'' @ desc_of c k @ ''</span><small class="pull-right">'' @ dto_string used @
     ''%</small></div><div class="progress xs"><div class="progress-bar progress-bar-'' @ color used @ ''" style="width: '' @ dto_string used @ ''%;"></div></div></a>'' @ [newline]\<close>

definition diskusage_row :: "'j jsonlib \<Rightarrow> string \<Rightarrow> 'j collector \<Rightarrow> ('j collector \<times> string) res" where
  "diskusage_row J k c = bindR (last_double J k ''pctfree'' c) (\<lambda>(c', d). Inr (c', usage_line c k (dsub (Fin 100) d)))"

definition memory_row :: "'j jsonlib \<Rightarrow> string \<Rightarrow> 'j collector \<Rightarrow> ('j collector \<times> string) res" where
  "memory_row J k c = bindR (last_double J k ''pct'' c) (\<lambda>(c', d). Inr (c', usage_line c k (dsub (Fin 100) d)))"

definition diskstats_row :: "'j jsonlib \<Rightarrow> string \<Rightarrow> 'j collector \<Rightarrow> ('j collector \<times> string) res" where
  "diskstats_row J k c = bindR (last_double J k ''iowtime'' c) (\<lambda>(c', d). Inr (c', usage_line c k (ddiv d (Fin 10))))"

definition link_row :: "'j collector \<Rightarrow> string \<Rightarrow> string" where
  \<open>link_row c k = ''<li>'' @ graph_url c k @ desc_of c k @ ''</a></li>'' @ [newline]\<close>

definition cpu_row :: "'j jsonlib \<Rightarrow> string \<Rightarrow> 'j collector \<Rightarrow> ('j collector \<times> string) res" where
  \<open>cpu_row J k c =
     (if take 3 (desc_of c k) \<noteq> ''CPU'' then Inr (c, [])
      else
        bindR (last_double J k ''user'' c) (\<lambda>(c1, user).
        bindR (last_double J k ''system'' c1) (\<lambda>(c2, sys).
        bindR (last_double J k ''irq'' c2) (\<lambda>(c3, irq).
        bindR (last_double J k ''softirq'' c3) (\<lambda>(c4, sirq).
        bindR (last_double J k ''nice'' c4) (\<lambda>(c5, nice).
        bindR (last_double J k ''iowait'' c5) (\<lambda>(c6, iowait).
        let total = dadd (dadd (dadd (dadd (dadd user sys) irq) sirq) nice) iowait in
        Inr (c6, graph_url c k @ ''<div class="clearfix"><span class="pull-left">'' @ desc_of c k @ ''</span><small class="pull-right">'' @ dto_string total @
          ''%</small></div><div class="progress xs"><div class="progress-bar progress-bar-red" style="width: '' @ dto_string user @
          ''%;"></div><div class="progress-bar progress-bar-yellow" style="width: '' @ dto_string sys @
          ''%;"></div><div class="progress-bar progress-bar-green" style="width: '' @ dto_string nice @
          ''%;"></div><div class="progress-bar progress-bar-blue" style="width: '' @ dto_string iowait @
          ''%;"></div><div class="progress-bar progress-bar-light-blue" style="width: '' @ dto_string irq @
          ''%;"></div><div class="progress-bar progress-bar-aqua" style="width: '' @ dto_string sirq @ ''%;"></div></div></a>'' @ [newline]))))))))\<close>

definition speed_row :: "'j jsonlib \<Rightarrow> string \<Rightarrow> 'j collector \<Rightarrow> ('j collector \<times> string) res" where
  \<open>speed_row J k c =
     bindR (last_value J k ''MHz'' c) (\<lambda>(c', v).
     bindR (j_asInt J v) (\<lambda>used.
     Inr (c', graph_url c k @ ''<div class="clearfix"><span class="pull-left">'' @ desc_of c k @ ''</span><small class="pull-right">'' @ show_int used @ ''Mhz</small></div></a>'' @ [newline])))\<close>

text \<open>The rows of a box, one per measure in the order of their names.\<close>

definition rows :: "(string \<Rightarrow> 'j collector \<Rightarrow> ('j collector \<times> string) res) \<Rightarrow> 'j collector \<Rightarrow> ('j collector \<times> string) res" where
  "rows f c = foldR (\<lambda>k (c', out). bindR (f k c') (\<lambda>(c'', t). Inr (c'', out @ t))) (map fst (c_ressources c)) (c, [])"

definition load_box :: "'j jsonlib \<Rightarrow> 'j collector \<Rightarrow> ('j collector \<times> string) res" where
  \<open>load_box J c =
     bindR (last_string J ''avg'' ''avg1'' c) (\<lambda>(c1, a1).
     bindR (last_string J ''avg'' ''avg5'' c1) (\<lambda>(c2, a5).
     bindR (last_string J ''avg'' ''avg15'' c2) (\<lambda>(c3, a15).
     Inr (c3, ''<a href="'' @ c_basePath c @ c_name c @
       ''/avg/graph"><div class="clearfix"><span class="pull-left">Load average (1mn)</span><small class="pull-right">'' @ a1 @
       ''</small></div><div class="clearfix"><span class="pull-left">Load average (5mn)</span><small class="pull-right">'' @ a5 @
       ''</small></div><div class="clearfix"><span class="pull-left">Load average (15mn)</span><small class="pull-right">'' @ a15 @ ''</small></div></a>'' @ [newline]))))\<close>

definition uptime_box :: "'j jsonlib \<Rightarrow> 'j collector \<Rightarrow> ('j collector \<times> string) res" where
  \<open>uptime_box J c =
     bindR (last_string J ''uptime'' ''uptime'' c) (\<lambda>(c1, u).
     Inr (c1, ''<a href="'' @ c_basePath c @ c_name c @
       ''/uptime/graph"><div class="clearfix"><span class="pull-left">uptime</span><small class="pull-right">'' @ u @ ''</small></div></a>'' @ [newline]))\<close>

definition box :: "'j jsonlib \<Rightarrow> 'j collector \<Rightarrow> ('j collector \<times> string) res" where
  \<open>box J c =
     (if c_name c = ''cpuload'' then load_box J c
      else if c_name c = ''uptime'' then uptime_box J c
      else if c_name c = ''diskusage'' then rows (diskusage_row J) c
      else if c_name c = ''memory'' then rows (memory_row J) c
      else if c_name c = ''cpuuse'' then
        bindR (rows (cpu_row J) c) (\<lambda>(c', t).
        Inr (c', t @ ''<ul>'' @ [newline] @
          concat (map (link_row c) (filter (\<lambda>k. take 3 (desc_of c k) \<noteq> ''CPU'') (map fst (c_ressources c)))) @ ''</ul>''))
      else if c_name c = ''cpuspeed'' then rows (speed_row J) c
      else if c_name c = ''diskstats'' then rows (diskstats_row J) c
      else Inr (c, ''<ul>'' @ [newline] @ concat (map (link_row c) (map fst (c_ressources c))) @ ''</ul>''))\<close>

definition col_getIndexHtml :: "'j jsonlib \<Rightarrow> 'j collector \<Rightarrow> ('j collector \<times> string) res" where
  \<open>col_getIndexHtml J c =
     bindR (j_asBool J (j_get J (c_cfg c) ''enable'')) (\<lambda>en.
     if en then
       bindR (box J c) (\<lambda>(c', t).
       Inr (c', ''<div class="col-md-3"><div class="box box-default"><div class="box-header with-border"><h3 class="box-title">'' @
         c_name c @ ''</h3></div><div class="box-body">'' @ [newline] @ t @ ''</div></div></div>'' @ [newline]))
     else Inr (c, []))\<close>

definition mgr_getIndexHtml :: "'j jsonlib \<Rightarrow> 'j collectors \<Rightarrow> ('j collectors \<times> string) res" where
  "mgr_getIndexHtml J cols =
     foldR (\<lambda>(k, c) (m, out). bindR (col_getIndexHtml J c) (\<lambda>(c', t). Inr (mput k c' m, out @ t))) cols (cols, [])"

definition doGetGraph :: "'j jsonlib \<Rightarrow> string option \<Rightarrow> 'j collector \<Rightarrow> string list \<Rightarrow> string res" where
  \<open>doGetGraph J srv c request =
     bindR (vec_at request 0) (\<lambda>k.
     if \<not> mhas (c_ressources c) k then Inr (setResponse404 ''No such Metric'')
     else bindR (j_asString J (j_get J (c_cfg c) ''poll-frequency'')) (\<lambda>freq.
       let sub = (if c_haveService c then (case srv of Some i \<Rightarrow> i | None \<Rightarrow> []) else []) in
       Inr (setResponseHtml (getHead (desc_of c k) sub @
         ''<div class="row"><div class="col-md-12"><div class="box box-default"><div class="box-header with-border"><h3 class="box-title">Graphics</h3></div><div class="box-body"><div class="chart"><div id="'' @
         c_name c @ ''-graph"></div>'' @ [newline] @ ''</div></div></div></div></div>'' @ [newline] @
         getFoot (''chart = watchedLive('' @ [CHR 0x27] @ c_name c @ ''-graph'' @ [CHR 0x27] @ '','' @ [CHR 0x27] @ c_basePath c @ c_name c @ ''/'' @ k @ ''/history'' @ [CHR 0x27] @ '','' @
           freq @ '');'' @ [newline])))))\<close>

section \<open>Services\<close>

text \<open>The counts of what works and what does not, and their shares.\<close>

definition failures :: "os \<Rightarrow> bool \<Rightarrow> 'j service \<Rightarrow> nat" where
  "failures w bl s =
     (length (filter (\<lambda>k. \<not> serv_haveSocket w s (sock_id k) \<and> \<not> bl) (s_sockets s)) +
      length (filter (\<lambda>p. \<not> proc_getStatus w p \<and> \<not> bl) (s_main s)))"

definition bar_share :: "nat \<Rightarrow> nat \<Rightarrow> double" where
  "bar_share n m = ddiv (dmul (Fin 100) (of_nat_d n)) (of_nat_d m)"

definition serv_getIndexHtml :: "os \<Rightarrow> 'j asks \<Rightarrow> 'j service \<Rightarrow> ('j service \<times> string) res" where
  \<open>serv_getIndexHtml w ask s0 =
     bindR (is_blackout w ask s0) (\<lambda>(s, bl).
      let n = length (s_sockets s) + length (s_main s); failed = failures w bl s; ok = n - failed in
      Inr (s, ''<a href="/service/'' @ getID s @ ''/html"><div class="clearfix"><span class="pull-left">'' @ s_name s @ '' - '' @ s_uniqName s @
      ''</span></div><div class="progress xs"><div class="progress-bar progress-bar-green" style="width: '' @ dto_string (bar_share ok (ok + failed)) @
      ''%;"></div><div class="progress-bar progress-bar-red" style="width: '' @ dto_string (bar_share failed (ok + failed)) @ ''%;"></div></div></a>'' @ [newline]))\<close>

definition getCollectorsHtml :: "'j jsonlib \<Rightarrow> 'j service \<Rightarrow> ('j service \<times> string) res" where
  "getCollectorsHtml J s =
     bindR (mgr_getIndexHtml J (s_collectors s)) (\<lambda>(cols, t). Inr (s\<lparr>s_collectors := cols\<rparr>, t))"

section \<open>Pages of the manager\<close>

definition text_of :: "'j jsonlib \<Rightarrow> 'j \<Rightarrow> string \<Rightarrow> string res" where
  "text_of J e k = j_asString J (j_get J e k)"

definition status_color :: "string \<Rightarrow> string" where
  "status_color st = (if st \<noteq> ''ok'' then ''red'' else ''green'')"

definition socket_tr :: "'j jsonlib \<Rightarrow> 'j \<Rightarrow> string res" where
  \<open>socket_tr J e =
     bindR (text_of J e ''name'') (\<lambda>n.
     bindR (text_of J e ''status'') (\<lambda>st.
     Inr (''<tr><td>'' @ n @ ''</td><td class="text-'' @ status_color st @ ''">'' @ st @ ''</td></tr>'' @ [newline])))\<close>

text \<open>The rows of the main processes and of the children are made in the same way; a child has no status.\<close>

definition process_tr :: "'j jsonlib \<Rightarrow> 'j \<Rightarrow> string res" where
  \<open>process_tr J e =
     bindR (text_of J e ''name'') (\<lambda>n.
     bindR (text_of J e ''full_path'') (\<lambda>fp.
     bindR (text_of J e ''cwd'') (\<lambda>wd.
     bindR (text_of J e ''username'') (\<lambda>u.
     bindR (text_of J e ''pid'') (\<lambda>i.
     bindR (text_of J e ''status'') (\<lambda>st.
     Inr (''<tr><td>'' @ n @ ''</td><td>'' @ fp @ ''</td><td>'' @ wd @ ''</td><td>'' @ u @ ''</td><td>'' @ i @
       ''</td><td class="text-'' @ status_color st @ ''">'' @ st @ ''</td></tr>'' @ [newline])))))))\<close>

definition log_tr :: "'j jsonlib \<Rightarrow> 'j \<Rightarrow> string res" where
  \<open>log_tr J e =
     bindR (text_of J e ''level'') (\<lambda>l.
     bindR (text_of J e ''date_mark'') (\<lambda>d.
     bindR (text_of J e ''source'') (\<lambda>src.
     bindR (text_of J e ''line_no'') (\<lambda>n.
     bindR (text_of J e ''text'') (\<lambda>t.
     Inr (''<tr><td>'' @ l @ ''</td><td>'' @ d @ ''</td><td>'' @ src @ ''</td><td>'' @ n @ ''</td><td>'' @ t @ ''</td></tr>'' @ [newline]))))))\<close>

text \<open>A table, when it has rows or is always shown.\<close>

definition table :: "('j \<Rightarrow> string res) \<Rightarrow> bool \<Rightarrow> string \<Rightarrow> 'j list \<Rightarrow> string res" where
  \<open>table f always head es =
     (if es = [] \<and> \<not> always then Inr []
      else bindR (mapR f es) (\<lambda>ts. Inr (head @ concat ts @ ''</tbody></table></div></div>'')))\<close>

definition properties_box :: "'j jsonlib \<Rightarrow> 'j \<Rightarrow> string res" where
  \<open>properties_box J p =
     bindR (text_of J p ''name'') (\<lambda>n.
     bindR (text_of J p ''type'') (\<lambda>ty.
     bindR (text_of J p ''subType'') (\<lambda>st.
     bindR (text_of J p ''uniqName'') (\<lambda>u.
     bindR (text_of J p ''host'') (\<lambda>h.
     Inr (''<div class="row"><div class="col-md-4"><div class="box box-default"><div class="box-header with-border"><h3 class="box-title">Properties</h3></div><div class="box-body"><table class="table table-striped table-hover"><tr><th>name</th><td>'' @ n @
       ''</td></tr><tr><th>type</th><td>'' @ ty @ ''</td></tr><tr><th>subType</th><td>'' @ st @ ''</td></tr><tr><th>Identifier</th><td>'' @ u @ ''</td></tr><tr><th>hostname</th><td>'' @ h @ ''</td></tr></table></div></div>''))))))\<close>

definition sockets_head :: string where
  \<open>sockets_head = ''<div class="box box-default"><div class="box-header with-border"><h3 class="box-title">Sockets</h3></div><div class="box-body"><table class="table table-striped table-hover"><thead><tr><th>listen</th><th>status</th></tr></thead><tbody>'' @ [newline]\<close>

definition process_head :: string where
  \<open>process_head = ''</div><div class="col-md-8"><div class="box box-default"><div class="box-header with-border"><h3 class="box-title">Process</h3></div><div class="box-body"><table class="table table-striped table-hover"><thead><tr><th>name</th><th>path</th><th>cwd</th><th>username</th><th>PID</th><th>status</th></tr></thead><tbody>'' @ [newline]\<close>

definition subprocess_head :: string where
  \<open>subprocess_head = ''<div class="box box-default"><div class="box-header with-border"><h3 class="box-title">subProcess</h3></div><div class="box-body"><table class="table table-striped table-hover"><thead><tr><th>name</th><th>path</th><th>cwd</th><th>username</th><th>PID</th></tr></thead><tbody>'' @ [newline]\<close>

definition logs_head :: string where
  \<open>logs_head = ''<div class="box box-default"><div class="box-header with-border"><h3 class="box-title">Log entries</h3></div><div class="box-body"><table class="table table-striped table-hover"><thead><tr><th>level</th><th>date</th><th>source</th><th>line #</th><th>text</th></tr></thead><tbody>'' @ [newline]\<close>

definition service_body :: "'j jsonlib \<Rightarrow> 'j \<Rightarrow> 'j \<Rightarrow> string res" where
  \<open>service_body J res logs =
     bindR (properties_box J (j_get J res ''properties'')) (\<lambda>props.
     bindR (table (socket_tr J) False sockets_head
       (j_elems J (j_get J res ''sockets''))) (\<lambda>socks.
     bindR (table (process_tr J) True process_head
       (j_elems J (j_get J res ''process''))) (\<lambda>procs.
     bindR (table (process_tr J) False subprocess_head
       (j_elems J (j_get J res ''subprocess''))) (\<lambda>subs.
     bindR (table (log_tr J) False logs_head
       (j_elems J (j_get J logs ''entries''))) (\<lambda>entries.
     Inr (props @ socks @ procs @ subs @ entries @ ''</div></div>'' @ [newline] @ ''<div class="row">''))))))\<close>

definition service_page :: "'j jsonlib \<Rightarrow> os \<Rightarrow> 'j asks \<Rightarrow> 'j service \<Rightarrow> ('j service \<times> string) res" where
  \<open>service_page J w ask s =
     bindR (getJsonStatus J w ask s (j_object J)) (\<lambda>(s1, res).
     bindR (getJsonLogHistory J s1 (Fin (- 1)) res) (\<lambda>logs.
     bindR (service_body J res logs) (\<lambda>body.
     bindR (getCollectorsHtml J s1) (\<lambda>(s2, cols).
     Inr (s2, getHead ''Service'' (getID s) @ body @ cols @ ''</div>'' @ [newline] @ getFoot [])))))\<close>

definition doGetServiceHtml ::
  "'j jsonlib \<Rightarrow> os \<Rightarrow> 'j asks \<Rightarrow> 'j manager \<Rightarrow> string list \<Rightarrow> query_args \<Rightarrow> ('j manager \<times> string) res" where
  "doGetServiceHtml J w ask m request args =
     bindR (vec_at request 0) (\<lambda>i.
     bindR (on_first (\<lambda>s. service_is s i) (service_page J w ask) (m_services m)) (\<lambda>r.
     case r of
       Some (ss, page) \<Rightarrow> Inr (m\<lparr>m_services := ss\<rparr>, setResponseHtml page)
     | None \<Rightarrow> Inr (m, setResponse404 (no_service i))))"

definition doGetCollectorGraph :: "'j jsonlib \<Rightarrow> 'j manager \<Rightarrow> string list \<Rightarrow> query_args \<Rightarrow> string res" where
  "doGetCollectorGraph J m request args =
     with_collector J (\<lambda>s c req. doGetGraph J (Some (getID s)) c req) (\<lambda>i. setResponse404 (no_service i)) m request"

definition doGetRootPage ::
  "'j jsonlib \<Rightarrow> os \<Rightarrow> 'j asks \<Rightarrow> 'j collectors \<Rightarrow> 'j manager \<Rightarrow> string list \<Rightarrow> query_args \<Rightarrow> ('j collectors \<times> 'j manager \<times> string) res" where
  \<open>doGetRootPage J w ask sys m request args =
     bindR (mapR (serv_getIndexHtml w ask) (m_services m)) (\<lambda>rows.
     bindR (mgr_getIndexHtml J sys) (\<lambda>(sys', t).
     Inr (sys', m\<lparr>m_services := map fst rows\<rparr>, setResponseHtml (getHead ''Home'' [] @
       ''<div class="row"><div class="col-md-3"><div class="box box-default"><div class="box-header with-border"><h3 class="box-title">Services</h3></div><div class="box-body">'' @ [newline] @
       concat (map snd rows) @ ''</div></div></div>'' @ [newline] @ t @ ''</div>'' @ [newline] @ getFoot []))))\<close>

section \<open>What a page shows\<close>

text \<open>\<open>t\<close> stands somewhere in \<open>s\<close>.\<close>

definition contains :: "string \<Rightarrow> string \<Rightarrow> bool" where
  "contains s t \<longleftrightarrow> (\<exists>a b. s = a @ t @ b)"

lemma contains_refl: "contains t t"
  unfolding contains_def by (rule exI[of _ "[]"], rule exI[of _ "[]"]) simp

lemma contains_appendR: "contains s t \<Longrightarrow> contains (s @ b) t"
  unfolding contains_def by (metis append.assoc)

lemma contains_appendL: "contains s t \<Longrightarrow> contains (a @ s) t"
  unfolding contains_def by (metis append.assoc)

lemma contains_here: "contains (t @ b) t"
  by (rule contains_appendR[OF contains_refl])

lemma contains_Cons: "contains s t \<Longrightarrow> contains (x # s) t"
  using contains_appendL[of s t "[x]"] by simp

lemma contains_concat: "s \<in> set ss \<Longrightarrow> contains s t \<Longrightarrow> contains (concat ss) t"
  by (induction ss) (auto intro: contains_appendL contains_appendR)

lemma log_tr_shows:
  assumes "log_tr J e = Inr row" "text_of J e ''text'' = Inr t"
  shows "contains row t"
proof -
  obtain l where l: "text_of J e ''level'' = Inr l" using assms by (cases "text_of J e ''level''") (auto simp: log_tr_def)
  obtain d where d: "text_of J e ''date_mark'' = Inr d" using assms l by (cases "text_of J e ''date_mark''") (auto simp: log_tr_def)
  obtain src where src: "text_of J e ''source'' = Inr src" using assms l d by (cases "text_of J e ''source''") (auto simp: log_tr_def)
  obtain n where n: "text_of J e ''line_no'' = Inr n" using assms l d src by (cases "text_of J e ''line_no''") (auto simp: log_tr_def)
  show ?thesis using assms unfolding log_tr_def
    by (simp add: l d src n) (hypsubst, (rule contains_here | rule contains_Cons | rule contains_appendL)+)
qed

lemma table_shows:
  assumes "table f always hdr es = Inr out" "e \<in> set es" "\<And>row. f e = Inr row \<Longrightarrow> contains row t"
  shows "contains out t"
proof -
  obtain ts where ts: "mapR f es = Inr ts" using assms(1,2) by (cases "mapR f es") (auto simp: table_def split: if_splits)
  obtain i where i: "i < length es" "e = es ! i" using assms(2) by (metis in_set_conv_nth)
  have "f e = Inr (ts ! i)" "ts ! i \<in> set ts" using mapR_nth[OF ts] i by auto
  then have "contains (concat ts) t" using assms(3) contains_concat by blast
  then show ?thesis using assms(1,2) ts by (auto simp: table_def intro: contains_appendL contains_appendR split: if_splits)
qed

lemma bodies_contain:
  assumes "service_body J res logs = Inr body" "e \<in> set (j_elems J (j_get J logs ''entries''))" "text_of J e ''text'' = Inr t"
  shows "contains body t"
proof -
  from assms(1) obtain props socks procs subs entries rest where
    tab: "table (log_tr J) False logs_head (j_elems J (j_get J logs ''entries'')) = Inr entries"
    and body: "body = props @ socks @ procs @ subs @ entries @ rest"
    unfolding service_body_def bindR_Inr_iff sum.inject by blast
  have "contains entries t" using log_tr_shows[OF _ assms(3)] by (rule table_shows[OF tab assms(2)])
  then show ?thesis unfolding body by (intro contains_appendL contains_appendR)
qed

text \<open>
  When the entries of the logs have a time, the page of a service shows the text of every entry whose time is not before \<^verbatim>\<open>-1\<close>, unchanged: a log
  line with markup in it becomes markup of the page.
\<close>

theorem page_shows_logs:
  assumes "json_index J" "service_page J w ask s = Inr (s', page)"
    and "is_blackout w ask s = Inr (s0, bl)" "(k, p) \<in> set (s_parsers s0)" "e \<in> set (lp_v p)" "dle (Fin (- 1)) (stamp J e)"
    and "\<forall>(k, p) \<in> set (s_parsers s0). \<forall>e \<in> set (lp_v p). stamped J e"
    and "j_asString J (j_get J e ''text'') = Inr t"
  shows "contains page t"
proof -
  note null = json_index.axioms(1)[OF assms(1)]
  note laws = json_null.axioms(1)[OF null]
  obtain s1 res where st: "getJsonStatus J w ask s (j_object J) = Inr (s1, res)"
    using assms(2) unfolding service_page_def bindR_Inr_iff by auto
  obtain logs where lg: "getJsonLogHistory J s1 (Fin (- 1)) res = Inr logs"
    using assms(2) st unfolding service_page_def by (cases "getJsonLogHistory J s1 (Fin (- 1)) res") simp_all
  obtain body where body: "service_body J res logs = Inr body"
    using assms(2) st lg unfolding service_page_def by (cases "service_body J res logs") simp_all
  obtain a b where page: "page = a @ body @ b"
    using assms(2) st lg body unfolding service_page_def by (cases "getCollectorsHtml J s1") (auto split: prod.splits)
  have st1: "\<forall>(k, p) \<in> set (s_parsers s1). \<forall>e \<in> set (lp_v p). stamped J e"
    using assms(7) status_node(2)[OF assms(1) st assms(3)] by simp
  from laws st1 obtain arr where logs': "getJsonLogHistory J s1 (Fin (- 1)) res =
      Inr (j_set J (j_set J (j_set J res ''entries'' (j_array J)) ''host'' (j_string J (s_host s1))) ''entries'' arr)"
    and arr: "j_elems J arr = concat (map (\<lambda>(k, p). map (\<lambda>e. j_set J e ''source'' (j_string J k))
      (filter (\<lambda>e. dle (Fin (- 1)) (stamp J e)) (rev (lp_v p)))) (s_parsers s1))"
    by (rule log_history_parts)
  have logs: "logs = j_set J (j_set J (j_set J res ''entries'' (j_array J)) ''host'' (j_string J (s_host s1))) ''entries'' arr"
    using lg logs' by simp
  have "j_isObject J e" using assms(4,5,7) by (auto simp: stamped_def)
  moreover have "j_get J logs ''entries'' = arr"
    using json_null.node_set[OF null status_node(1)[OF assms(1) st assms(3)]]
    by (simp add: logs json_laws.get_set[OF laws] json_laws.obj_set[OF laws])
  moreover have "j_set J e ''source'' (j_string J k) \<in> set (j_elems J arr)"
    unfolding arr status_node(2)[OF assms(1) st assms(3)] using assms(4-6) by force
  moreover have "text_of J (j_set J e ''source'' (j_string J k)) ''text'' = Inr t"
    using \<open>j_isObject J e\<close> assms(8) by (simp add: text_of_def json_laws.get_set[OF laws])
  ultimately show ?thesis using bodies_contain[OF body] contains_appendL[OF contains_appendR] by (simp add: page)
qed

definition demo_injected :: "jv service" where
  "demo_injected = (blank_service ref_json [])\<lparr>s_parsers :=
     [(''error.log'', \<lparr>lp_cfg = JNull, lp_v = [JObj [(''text'', JStr ''<script>''), (''timestamp'', JDbl (Fin 9))]],
        lp_filename = [], lp_pos = 0, lp_lineNo = 1, lp_active = True\<rparr>)]\<rparr>"

lemma demo_injected_sel:
  "s_main demo_injected = []" "s_sub demo_injected = []" "s_sockets demo_injected = []" "s_collectors demo_injected = []"
  "s_parsers demo_injected = [(''error.log'', \<lparr>lp_cfg = JNull, lp_v = [JObj [(''text'', JStr ''<script>''), (''timestamp'', JDbl (Fin 9))]],
        lp_filename = [], lp_pos = 0, lp_lineNo = 1, lp_active = True\<rparr>)]"
  "demo_injected\<lparr>s_main := [], s_sub := []\<rparr> = demo_injected" "demo_injected\<lparr>s_collectors := []\<rparr> = demo_injected"
  by (simp_all add: demo_injected_def blank_service_def)

lemma demo_page: "\<exists>s' page. service_page ref_json demo_os no_blackout demo_injected = Inr (s', page)"
proof -
  have 1: "getJsonStatus ref_json demo_os no_blackout demo_injected (JObj []) =
      Inr (demo_injected, run_writes ref_json (property_writes ref_json demo_injected) (JObj []))"
    by (simp add: getJsonStatus_def demo_injected_sel)
  have 2: "getCollectorsHtml ref_json demo_injected = Inr (demo_injected, [])"
    by (simp add: getCollectorsHtml_def mgr_getIndexHtml_def demo_injected_sel)
  have 3: "\<exists>body. bindR (getJsonLogHistory ref_json demo_injected (Fin (- 1)) res) (service_body ref_json res) = Inr body"
    if "res = run_writes ref_json (property_writes ref_json demo_injected) (JObj [])" for res
    unfolding that by (simp add: run_writes_def property_writes_def getJsonLogHistory_def demo_injected_sel log_entry_add_def recent_def mhas_def
      service_body_def properties_box_def text_of_def table_def log_tr_def)
  then show ?thesis using 2
    by (auto simp: service_page_def 1 bindR_Inr_iff)
qed

theorem page_shows_logs_witness:
  "\<exists>s' page. service_page ref_json demo_os no_blackout demo_injected = Inr (s', page) \<and> contains page ''<script>''"
proof -
  obtain s' page where p: "service_page ref_json demo_os no_blackout demo_injected = Inr (s', page)" using demo_page by blast
  have "contains page ''<script>''"
    by (rule page_shows_logs[OF ref_index.json_index_axioms p]) (auto simp: demo_injected_sel stamped_def stamp_def mhas_def)
  then show ?thesis using p by blast
qed

text \<open>
  The bar of a service without sockets and processes has widths that are not numbers, both being
  the quotient of zero by zero; otherwise what works and what does not add up to all of them.
\<close>

lemma index_bar_counts:
  "failures w bl s \<le> length (s_sockets s) + length (s_main s) \<and>
   failures w True s = 0 \<and> bar_share 0 0 = NaN"
proof -
  have "length (filter P xs) \<le> length xs" for P :: "'b \<Rightarrow> bool" and xs by simp
  then show ?thesis by (simp add: failures_def Let_def bar_share_def of_nat_d_def dround_def rnd_def dmul_def ddiv_def add_mono)
qed

end
