(* ===== verification/SystemMeasures.thy ===== *)
theory SystemMeasures
  imports SystemCollectors
begin

text \<open>
  What the system collectors promise: every collection keeps the measures of its collector well
  formed, the shares of processor time and of free memory are the correctly rounded percentages, and
  the lines of /proc/meminfo and /proc/net/dev are read field by field.
\<close>

section \<open>One collection of any system collector\<close>

text \<open>What a collection reads: the system, the clock, the mounted file systems.\<close>

record machine =
  m_os :: os
  m_clock :: "nat \<Rightarrow> double"
  m_mtab :: "mntent list option"
  m_vfs :: "string \<Rightarrow> statvfs option"

datatype system_kind = CpuLoad | CpuSpeed | CpuUse | DiskStats | DiskUsage | Memory | NetDev | Thermal | Uptime | VmStat

text \<open>The virtual call of \<^verbatim>\<open>collect\<close>.\<close>

definition system_collect :: "'j jsonlib \<Rightarrow> machine \<Rightarrow> system_kind \<Rightarrow> 'j cstate \<Rightarrow> 'j cstate res" where
  "system_collect J m k = (case k of
      CpuLoad \<Rightarrow> cpuload_collect J (m_os m) (m_clock m)
    | CpuSpeed \<Rightarrow> cpuspeed_collect J (m_os m) (m_clock m)
    | CpuUse \<Rightarrow> cpuuse_collect J (m_os m) (m_clock m)
    | DiskStats \<Rightarrow> diskstats_collect J (m_os m) (m_clock m)
    | DiskUsage \<Rightarrow> diskusage_collect J (m_mtab m) (m_vfs m) (m_clock m)
    | Memory \<Rightarrow> memory_collect J (m_os m) (m_clock m 0) (m_clock m 1)
    | NetDev \<Rightarrow> netdev_collect J (m_os m) (m_clock m)
    | Thermal \<Rightarrow> thermal_collect J (m_os m) (m_clock m 0)
    | Uptime \<Rightarrow> uptime_collect J (m_os m) (m_clock m)
    | VmStat \<Rightarrow> vmstat_collect J (m_os m) (m_clock m 0))"

lemma keeps_case_prod [inv_intros]: "(\<And>a b. keeps J (f a b)) \<Longrightarrow> keeps J (case p of (a, b) \<Rightarrow> f a b)"
  by (cases p) simp

lemma keeps_fixed_bind [inv_intros]: "(\<And>x. keeps J (f x)) \<Longrightarrow> keeps J (\<lambda>s. bindR m (\<lambda>x. f x s))"
  by (rule keeps_bind)

lemma keeps_then_foldR [inv_intros]:
  "keeps J f \<Longrightarrow> (\<And>x. keeps J (g x)) \<Longrightarrow> keeps J (\<lambda>s. bindR (f s) (foldR g xs))"
  by (intro keeps_comp keeps_foldR)

context json_laws
begin

lemma keeps_set_stod [inv_intros]: "keeps J (set_stod J k p t)"
  unfolding set_stod_def by (intro inv_intros)

lemma keeps_cpuload: "keeps J (cpuload_collect J w clk)"
  unfolding cpuload_collect_def cpuload_line_def Let_def by (intro inv_intros)

lemma keeps_uptime: "keeps J (uptime_collect J w clk)"
  unfolding uptime_collect_def by (intro inv_intros)

lemma keeps_add_props [inv_intros]: "keeps J (add_props k ps)"
  unfolding add_props_def by (intro inv_intros)

lemma keeps_cpuspeed: "keeps J (cpuspeed_collect J w clk)"
  unfolding cpuspeed_collect_def cpuspeed_entry_def Let_def by (intro inv_intros) simp_all

lemma rkeeps_cpu_setRaw [inv_intros]: "rkeeps J (cpu_setRaw J raw)"
proof (rule rkeepsI)
  fix r cs r' cs'
  assume ok: "res_ok J r" and run: "cpu_setRaw J raw (r, cs) = Inr (r', cs')"
  obtain old where k: "rkind r = RCpu old" using run by (cases "rkind r") (simp_all add: cpu_setRaw_def)
  obtain live where l: "cpu_live raw = Inr live" using run k by (cases "cpu_live raw") (simp_all add: cpu_setRaw_def)
  obtain t where t: "foldR (\<lambda>(k, d) r. if k = ''idle'' then Inr r
        else setProperty J k (j_double J (cpu_pct d (sum_list (map snd (cpu_diff old live))))) r) (cpu_diff old live) r = Inr t"
      and r': "res_ok J r' = res_ok J t"
    using run k l by (auto simp: cpu_setRaw_def bindR_Inr_iff Let_def)
  have "res_ok J t"
    by (rule foldR_invariant[where P = "res_ok J", OF _ ok t]) (auto split: if_splits prod.splits intro: setProperty_double_ok)
  then show "res_ok J r'" using r' by simp
qed

lemma keeps_tick_line [inv_intros]: "keeps J (tick_line J now k line)"
  unfolding tick_line_def by (intro inv_intros) simp

lemma keeps_cpuuse: "keeps J (cpuuse_collect J w clk)"
  unfolding cpuuse_collect_def cpuuse_line_def Let_def by (intro inv_intros)

lemma keeps_tick_setRaw:
  assumes "\<not> mhas fs ''timestamp''"
  shows "keeps J (tick_setRaw J fs k raw)"
  using assms
proof (induction fs)
  case (Cons f fs)
  have "fst f \<noteq> ''timestamp''" "\<not> mhas fs ''timestamp''" using Cons.prems by (auto split: if_splits)
  then have "keeps J (\<lambda>s. bindR (bindR (vec_at raw (snd f)) (\<lambda>t. on_ressource k (res_tick J (fst f) (atoi t)) s))
      (tick_setRaw J fs k raw))"
    using Cons.IH by (intro keeps_comp inv_intros)
  then show ?case by (simp add: tick_setRaw_def[abs_def] case_prod_unfold)
qed (simp add: tick_setRaw_def keeps_def)

lemma keeps_diskstats: "keeps J (diskstats_collect J w clk)"
  unfolding diskstats_collect_def diskstats_line_def Let_def
  by (intro inv_intros keeps_tick_setRaw) (simp add: diskStats_fields_def)

lemma keeps_netdev: "keeps J (netdev_collect J w clk)"
  unfolding netdev_collect_def netdev_line_def Let_def
  by (intro inv_intros keeps_tick_setRaw) (simp add: netDev_fields_def)

lemma keeps_memory: "keeps J (memory_collect J w now1 now2)"
  unfolding memory_collect_def Let_def by (intro inv_intros) simp_all

lemma keeps_vmstat: "keeps J (vmstat_collect J w now)"
proof -
  have "keeps J (\<lambda>s. if mhas vmstat_descr k then bindR m (\<lambda>t. on_ressource ''stat'' (res_tick J k (atoi t)) s) else Inr s)" for k m
  proof (cases "mhas vmstat_descr k")
    case True
    then have "k \<noteq> ''timestamp''" by (auto simp: vmstat_descr_def mhas_def)
    then show ?thesis by (intro inv_intros)
  qed (simp add: keeps_def)
  then show ?thesis unfolding vmstat_collect_def by (intro keeps_then_foldR keeps_on_ressource rkeeps_next)
qed

lemma keeps_thermal: "keeps J (thermal_collect J w now)"
  unfolding thermal_collect_def thermal_entry_def Let_def by (intro inv_intros)

lemma rkeeps_setStats [inv_intros]: "rkeeps J (setStats J now st)"
  unfolding setStats_def by (intro inv_intros)

lemma keeps_diskusage: "keeps J (diskusage_collect J mtab vfs clk)"
  unfolding diskusage_collect_def diskusage_mount_def Let_def
  by (intro inv_intros keeps_put_new[unfolded Let_def])

lemma system_collect_keeps: "keeps J (system_collect J m k)"
  by (cases k) (simp_all add: system_collect_def keeps_cpuload keeps_cpuspeed keeps_cpuuse keeps_diskstats keeps_diskusage
      keeps_memory keeps_netdev keeps_thermal keeps_uptime keeps_vmstat)

lemma set_properties:
  assumes "rv r = e # es" "j_isObject J e" "distinct (map fst ps)"
  shows "\<exists>e'. foldR (\<lambda>(k, d) r. if k = skip then Inr r else setProperty J k (g d) r) ps r = Inr (r\<lparr>rv := e' # es\<rparr>) \<and>
    j_isObject J e' \<and> (\<forall>(k, d) \<in> set ps. k \<noteq> skip \<longrightarrow> j_get J e' k = g d) \<and> (\<forall>k. k \<notin> fst ` set ps \<longrightarrow> j_get J e' k = j_get J e k)"
  using assms
proof (induction ps arbitrary: r e)
  case Nil
  then show ?case by (intro exI[of _ e]) simp
next
  case (Cons p ps)
  obtain k d where p: "p = (k, d)" by fastforce
  define e1 where "e1 = (if k = skip then e else j_set J e k (g d))"
  have e1: "(if k = skip then Inr r else setProperty J k (g d) r) = Inr (r\<lparr>rv := e1 # es\<rparr>)" "j_isObject J e1"
    using Cons.prems by (auto simp: e1_def setProperty_def obj_set)
  have get1: "k \<noteq> skip \<Longrightarrow> j_get J e1 k = g d" "k' \<noteq> k \<Longrightarrow> j_get J e1 k' = j_get J e k'" for k'
    using Cons.prems(2) by (auto simp: e1_def get_set)
  have d: "k \<notin> fst ` set ps" "distinct (map fst ps)" using Cons.prems(3) p by auto
  obtain e' where e': "foldR (\<lambda>(k, d) r. if k = skip then Inr r else setProperty J k (g d) r) ps (r\<lparr>rv := e1 # es\<rparr>) = Inr (r\<lparr>rv := e' # es\<rparr>)"
      "j_isObject J e'" "\<forall>(k, d) \<in> set ps. k \<noteq> skip \<longrightarrow> j_get J e' k = g d" "\<And>k. k \<notin> fst ` set ps \<Longrightarrow> j_get J e' k = j_get J e1 k"
    using Cons.IH[of "r\<lparr>rv := e1 # es\<rparr>" e1, OF _ e1(2) d(2)] by auto
  then show ?case using d(1) e1(1) get1 p by (intro exI[of _ e']) auto
qed

end

text \<open>
  C26: whatever a collection of any of the ten system collectors reads, when it ends normally every
  measure it leaves is well formed: its history within its size, every entry with its time.
\<close>

theorem collect_keeps_measures:
  assumes "json_laws J" "cstate_ok J s" "system_collect J m k s = Inr s'"
  shows "cstate_ok J s'"
  using keepsD[OF json_laws.system_collect_keeps[OF assms(1)] assms(2,3)] .

definition demo_machine :: machine where
  "demo_machine = \<lparr>m_os = bare_os, m_clock = (\<lambda>_. Fin 7),
     m_mtab = Some [\<lparr>mnt_fsname = ''/dev/sda1'', mnt_dir = ''/'', mnt_type = ''ext4''\<rparr>],
     m_vfs = (\<lambda>_. Some \<lparr>f_bsize = 4096, f_blocks = 1000, f_bavail = 250, f_favail = 10, f_files = 100\<rparr>)\<rparr>"

theorem collect_keeps_measures_witness:
  "\<exists>s'. system_collect ref_json demo_machine DiskUsage (base_collector ref_json ''diskusage'' (JObj []) 25 60 []) = Inr s' \<and>
     mhas (c_ressources (fst s')) ''%2F'' \<and> cstate_ok ref_json s'"
proof -
  let ?s = "base_collector ref_json ''diskusage'' (JObj []) 25 60 []"
  have "cstate_ok ref_json ?s" by (simp add: cstate_ok_def base_collector_def new_collector_def)
  moreover have "\<exists>s'. system_collect ref_json demo_machine DiskUsage ?s = Inr s' \<and> mhas (c_ressources (fst s')) ''%2F''"
    by (simp add: system_collect_def diskusage_collect_def demo_machine_def diskusage_mount_def base_collector_def
        new_collector_def url_encode_def url_plain_def is_alnum_def hexU_2 upper_digit_def cfg_history_def plugin_defaults_def j_default_def
        new_ressource_def put_ressource_def props_def diskUsage_props_def on_ressource_def setStats_def res_next_def nextValue_def
        next_entry_def res_set_def setProperty_def addProperty_def Let_def)
  ultimately show ?thesis using collect_keeps_measures[OF ref.json_laws_axioms] by blast
qed

section \<open>Percentages\<close>

lemma rnd_percent:
  assumes "0 \<le> q" "q \<le> 100"
  shows "dround q = Fin (rnd q)" "0 \<le> rnd q" "rnd q \<le> 100"
proof -
  show 0: "0 \<le> rnd q" using rnd_mono[OF assms(1)] by (simp add: rnd_def)
  have "rnd 100 = 100" using rnd_int[of 100] by simp
  then show 1: "rnd q \<le> 100" using rnd_mono[OF assms(2)] by simp
  from 0 1 show "dround q = Fin (rnd q)" by (simp add: dround_def Let_def)
qed

lemma percent_of:
  assumes "a \<le> b" "0 < b" "b < 2 ^ 32"
  shows "ddiv (of_nat_d (100 * a)) (of_nat_d b) = Fin (rnd (100 * of_nat a / of_nat b))"
    "0 \<le> rnd (100 * of_nat a / of_nat b)" "rnd (100 * of_nat a / of_nat b) \<le> 100"
proof -
  have q: "0 \<le> (100 * of_nat a / of_nat b :: rat)" "100 * of_nat a / of_nat b \<le> (100 :: rat)"
    using assms(1,2) by (simp_all add: divide_le_eq)
  show "0 \<le> rnd (100 * of_nat a / of_nat b)" "rnd (100 * of_nat a / of_nat b) \<le> 100"
    using rnd_percent(2,3)[OF q] by simp_all
  have "of_nat_d (100 * a) = Fin (of_nat (100 * a))" "of_nat_d b = Fin (of_nat b)"
    using assms dround_nat[of "100 * a"] dround_nat[of b] by (simp_all add: of_nat_d_def)
  then show "ddiv (of_nat_d (100 * a)) (of_nat_d b) = Fin (rnd (100 * of_nat a / of_nat b))"
    using assms(2) rnd_percent(1)[OF q] by (simp add: ddiv_def)
qed

lemma cpu_pct_eq:
  assumes "unat d \<le> unat whole" "0 < unat whole"
  shows "cpu_pct d whole = Fin (rnd (100 * of_nat (unat d) / of_nat (unat whole)))"
proof -
  have "unat whole < 2 ^ 32" by (rule u32_bound)
  then have "dmul (of_nat_d (unat d)) (Fin 100) = of_nat_d (100 * unat d)"
    using assms dround_nat[of "unat d"] by (simp add: dmul_def of_nat_d_def mult.commute)
  then show ?thesis using percent_of(1)[OF assms u32_bound] by (simp add: cpu_pct_def)
qed

lemma unat_sum_list:
  "(\<Sum>x\<leftarrow>xs. unat x) < 2 ^ 32 \<Longrightarrow> unat (sum_list xs :: u32) = (\<Sum>x\<leftarrow>xs. unat x)"
proof (induction xs)
  case (Cons x xs)
  then have "unat (sum_list xs) = (\<Sum>x\<leftarrow>xs. unat x)" by simp
  then show ?case using Cons.prems unat_add_lem[of x "sum_list xs"] by simp
qed simp

lemma member_le_sum: "x \<in> set xs \<Longrightarrow> unat (x :: u32) \<le> (\<Sum>y\<leftarrow>xs. unat y)"
  by (induction xs) auto

lemma cpu_live_eq:
  "7 < length raw \<Longrightarrow> cpu_live raw =
     Inr [(''idle'', atoi (raw ! 4)), (''iowait'', if 10000000 < atoi (raw ! 5) then 0 else atoi (raw ! 5)),
          (''irq'', atoi (raw ! 6)), (''nice'', atoi (raw ! 2)), (''softirq'', atoi (raw ! 7)),
          (''system'', atoi (raw ! 3)), (''user'', atoi (raw ! 1))]"
  by (simp add: cpu_live_def)

text \<open>The share of processor time of one counter: the increase of all of them is the whole.\<close>

definition share :: "(string, u32) smap \<Rightarrow> (string, u32) smap \<Rightarrow> string \<Rightarrow> u32 \<Rightarrow> rat" where
  "share old live k x =
     100 * of_nat (unat (x - old_of old k)) / of_nat (\<Sum>(k', y)\<leftarrow>live. unat (y - old_of old k'))"

lemma map_of_fold_mput:
  "distinct (map fst xs) \<Longrightarrow> (k, x) \<in> set xs \<Longrightarrow> map_of (fold (\<lambda>(k, x). mput k x) xs m) k = Some x"
proof (induction xs arbitrary: m)
  case (Cons p xs)
  show ?case
  proof (cases "p = (k, x)")
    case True
    have "map_of (fold (\<lambda>(k, x). mput k x) ys n) k = map_of n k" if "k \<notin> fst ` set ys" for ys :: "('a \<times> 'b) list" and n
      using that by (induction ys arbitrary: n) auto
    then show ?thesis using True Cons.prems by simp
  next
    case False
    then show ?thesis using Cons by simp
  qed
qed simp

text \<open>
  C25: a line of /proc/stat with its seven counters is recorded as shares of the processor time: each
  property is the correctly rounded percentage of its increase in the increase of all the counters
  (modulo \<open>2 ^ 32\<close>), between 0 and 100, the older entries stay, and the counters are kept for the next
  time; it needs some time to have passed, and less than \<open>2 ^ 32\<close> ticks.
\<close>

theorem cpu_shares:
  assumes "json_laws J" "rkind r = RCpu old" "rv r = e # es" "j_isObject J e" "7 < length raw" "cpu_live raw = Inr live"
    and "0 < (\<Sum>(k, y)\<leftarrow>live. unat (y - old_of old k))" "(\<Sum>(k, y)\<leftarrow>live. unat (y - old_of old k)) < 2 ^ 32"
  shows "\<exists>e' new. cpu_setRaw J raw (r, cs) = Inr (r\<lparr>rv := e' # es, rkind := RCpu new\<rparr>, cs) \<and>
    (\<forall>(k, x) \<in> set live. map_of new k = Some x \<and> (k \<noteq> ''idle'' \<longrightarrow> j_get J e' k = j_double J (Fin (rnd (share old live k x))) \<and>
       0 \<le> rnd (share old live k x) \<and> rnd (share old live k x) \<le> 100))"
proof -
  let ?diff = "cpu_diff old live" and ?whole = "sum_list (map snd (cpu_diff old live))"
  have keys: "distinct (map fst live)" using cpu_live_eq[OF assms(5)] assms(6) by auto
  then have dk: "distinct (map fst ?diff)" by (simp add: cpu_diff_def case_prod_unfold comp_def)
  have sum: "(\<Sum>x\<leftarrow>map snd ?diff. unat x) = (\<Sum>(k, y)\<leftarrow>live. unat (y - old_of old k))"
    by (simp add: cpu_diff_def case_prod_unfold comp_def)
  then have w: "unat ?whole = (\<Sum>(k, y)\<leftarrow>live. unat (y - old_of old k))"
    using unat_sum_list[of "map snd ?diff"] assms(8) by simp
  obtain e' where e': "foldR (\<lambda>(k, d) r. if k = ''idle'' then Inr r else setProperty J k (j_double J (cpu_pct d ?whole)) r) ?diff r
        = Inr (r\<lparr>rv := e' # es\<rparr>)"
      "\<forall>(k, d) \<in> set ?diff. k \<noteq> ''idle'' \<longrightarrow> j_get J e' k = j_double J (cpu_pct d ?whole)"
    using json_laws.set_properties[OF assms(1,3,4) dk, of "''idle''" "\<lambda>d. j_double J (cpu_pct d ?whole)"] by blast
  have "j_get J e' k = j_double J (Fin (rnd (share old live k x))) \<and> 0 \<le> rnd (share old live k x) \<and> rnd (share old live k x) \<le> 100"
    if kx: "(k, x) \<in> set live" "k \<noteq> ''idle''" for k x
  proof -
    have d: "(k, x - old_of old k) \<in> set ?diff" using kx(1) by (force simp: cpu_diff_def)
    then have "x - old_of old k \<in> set (map snd ?diff)" by (metis in_set_zipE snd_conv image_eqI list.set_map)
    then have le: "unat (x - old_of old k) \<le> unat ?whole" using member_le_sum w sum by metis
    have "j_get J e' k = j_double J (cpu_pct (x - old_of old k) ?whole)" using e'(2) d kx(2) by auto
    then show ?thesis
      using cpu_pct_eq[OF le] percent_of(2,3)[OF le _ u32_bound] assms(7) w by (simp add: share_def)
  qed
  moreover have "map_of (fold (\<lambda>(k, x). mput k x) live old) k = Some x" if "(k, x) \<in> set live" for k x
    using map_of_fold_mput[OF keys that] .
  ultimately show ?thesis using e'(1) assms(2,6)
    by (intro exI[of _ e'] exI[of _ "fold (\<lambda>(k, x). mput k x) live old"]) (auto simp: cpu_setRaw_def)
qed

theorem cpu_shares_witness:
  "\<exists>e' new. cpu_setRaw ref_json [''cpu'', ''130'', ''0'', ''50'', ''900'', ''5'', ''0'', ''0'']
      (\<lparr>typeName = ''cpu_usage'', rv = [JObj []], rd = [], rt = [], rsize = 2,
        rkind = RCpu [(''idle'', 850), (''iowait'', 5), (''system'', 40), (''user'', 90)]\<rparr>, []) =
    Inr (\<lparr>typeName = ''cpu_usage'', rv = [e'], rd = [], rt = [], rsize = 2, rkind = RCpu new\<rparr>, []) \<and>
    jv_get e' ''user'' = JDbl (Fin (rnd 40)) \<and> map_of new ''user'' = Some 130"
proof -
  let ?r = "\<lparr>typeName = ''cpu_usage'', rv = [JObj []], rd = [], rt = [], rsize = 2,
        rkind = RCpu [(''idle'', 850), (''iowait'', 5), (''system'', 40), (''user'', 90)]\<rparr>"
  let ?raw = "[''cpu'', ''130'', ''0'', ''50'', ''900'', ''5'', ''0'', ''0'']"
  have l: "cpu_live ?raw = Inr [(''idle'', 900), (''iowait'', 5), (''irq'', 0), (''nice'', 0), (''softirq'', 0), (''system'', 50), (''user'', 130)]"
    by (simp add: cpu_live_eq atoi_def strtol10_def scan_sign_def is_space_def digit_val_def digit_of_def)
  show ?thesis
    using cpu_shares[OF ref.json_laws_axioms, of ?r "[(''idle'', 850), (''iowait'', 5), (''system'', 40), (''user'', 90)]" "JObj []" "[]" ?raw, OF _ _ _ _ l, of "[]"]
    by (auto simp: old_of_def share_def)
qed

section \<open>Free memory\<close>

lemma ratio_rounded:
  assumes "a < 2 ^ 32" "0 < b" "b < 2 ^ 32"
  shows "ddiv (of_nat_d a) (of_nat_d b) = Fin (rnd (of_nat a / of_nat b))"
proof -
  have "(1 :: rat) \<le> of_nat b" using assms(2) by simp
  then have "(of_nat a / of_nat b :: rat) \<le> of_nat a / 1" by (intro divide_left_mono) simp_all
  then have "(of_nat a / of_nat b :: rat) \<le> of_int (int a)" by simp
  from rnd_mono[OF this] have "rnd (of_nat a / of_nat b) \<le> of_int (int a)" using rnd_int[of "int a"] assms(1) by simp
  also have "\<dots> < of_int (2 ^ 32)" using assms(1) unfolding of_int_less_iff by simp
  finally have "rnd (of_nat a / of_nat b) < 2 ^ 1024" by simp
  moreover have "0 \<le> rnd (of_nat a / of_nat b)" using rnd_mono[of 0 "of_nat a / of_nat b"] by (simp add: rnd_def[of 0])
  ultimately have "dround (of_nat a / of_nat b) = Fin (rnd (of_nat a / of_nat b))" by (simp add: dround_def Let_def)
  moreover have "of_nat_d a = Fin (of_nat a)" "of_nat_d b = Fin (of_nat b)"
    using assms dround_nat[of a] dround_nat[of b] by (simp_all add: of_nat_d_def)
  ultimately show ?thesis using assms(2) by (simp add: ddiv_def)
qed

text \<open>
  The share of free memory is the correctly rounded percentage as long as a hundred times the free
  kilobytes is below \<open>2 ^ 32\<close> (40.96 GiB free); above, the product wraps around and what is recorded is
  the share of the remainder.
\<close>

theorem free_pct_value:
  assumes "0 < whole" "free \<le> whole"
  shows "free_pct free whole = Fin (rnd (of_nat ((100 * unat free) mod 2 ^ 32) / of_nat (unat whole))) \<and>
    (100 * unat free < 2 ^ 32 \<longrightarrow> free_pct free whole = Fin (rnd (100 * of_nat (unat free) / of_nat (unat whole))) \<and>
       0 \<le> rnd (100 * of_nat (unat free) / of_nat (unat whole)) \<and> rnd (100 * of_nat (unat free) / of_nat (unat whole)) \<le> 100)"
proof -
  let ?a = "(100 * unat free) mod 2 ^ 32" and ?b = "unat whole"
  have b: "0 < ?b" "?b < 2 ^ 32" "unat free \<le> ?b" using assms u32_bound[of whole] by (auto simp: word_le_nat_alt word_less_nat_alt)
  have "unat (100 * free) = ?a" by (simp add: unat_word_ariths(2))
  then have "free_pct free whole = Fin (rnd (of_nat ?a / of_nat ?b))"
    using ratio_rounded[OF _ b(1,2), of ?a] by (simp add: free_pct_def)
  then show ?thesis using percent_of[OF b(3,1,2)] by simp
qed

theorem free_pct_value_witness:
  "free_pct 2048 8192 = Fin (rnd 25)"
  using free_pct_value[of 8192 2048] by simp

text \<open>
  On a machine with 64 GiB of memory of which 40.96 GiB are free the recorded percentage of free
  memory is at most 1, where more than 63 percent is free.
\<close>

theorem free_pct_wraps:
  "dle (free_pct 42949673 67108864) (Fin 1) \<and> (63 :: rat) < 100 * 42949673 / 67108864"
proof -
  have "free_pct 42949673 67108864 = Fin (rnd (of_nat 4 / of_nat 67108864))"
    using ratio_rounded[of 4 67108864] by (simp add: free_pct_def)
  moreover have "rnd (of_nat 4 / of_nat 67108864) \<le> 1"
    using rnd_mono[of "of_nat 4 / of_nat 67108864" 1] rnd_int[of 1] by simp
  ultimately show ?thesis by simp
qed

section \<open>Lines of /proc\<close>

lemma skip_spaces_replicate: "c \<noteq> CHR '' '' \<Longrightarrow> skip_spaces (replicate n (CHR '' '') @ c # s) i = Some (i + n)"
  by (induction n arbitrary: i) auto

text \<open>
  A line of /proc/meminfo is read as its name and its number.
\<close>

theorem meminfo_line_reads:
  assumes "CHR '':'' \<notin> set nm" "x < 2 ^ 32" "length nm + n + length (to_string x) + length rest < 2 ^ 30"
  shows "meminfo_line (nm @ '':'' @ replicate n (CHR '' '') @ to_string x @ '' '' @ rest) = Inr (nm, of_nat x)"
proof -
  let ?line = "nm @ '':'' @ replicate n (CHR '' '') @ to_string x @ '' '' @ rest"
  let ?pre = "nm @ '':'' @ replicate n (CHR '' '')"
  let ?start = "length nm + 1 + n"
  have colon: "str_find ?line '':'' 0 = length nm" using str_find_char[OF assms(1)] by simp
  obtain d ds where ds: "to_string x = d # ds" by (cases "to_string x") auto
  have nosp: "CHR '' '' \<notin> set (to_string x)"
    using show_nat_all_digits[of 10 "CHR '' ''" x] by (auto simp: digit_val_def digit_of_def)
  have pos: "int_of_size (sz_add (length nm) 1) = int (length nm + 1)" using assms(3) by simp
  have skip: "skip_spaces (drop (length nm + 1) ?line) (length nm + 1) = Some ?start"
    using nosp ds skip_spaces_replicate[of d n "ds @ '' '' @ rest" "length nm + 1"] by auto
  have "str_find (?pre @ [d] @ ds @ CHR '' '' # rest) [CHR '' ''] (?start + 1) = ?start + length (to_string x)"
    using str_find_char_from[of "CHR '' ''" ds "?start + 1" "?pre @ [d]" rest] nosp ds by simp
  then have sp: "str_find ?line '' '' (?start + 1) = ?start + length (to_string x)" using ds by simp
  have at: "nat (int (length nm + 1) mod 2 ^ 32) = length nm + 1" using assms(3) by (simp add: nat_mod_as_int)
  have conv: "size_of_int (int ?start) = ?start" "size_of_int (int ?start + 1) = ?start + 1"
    using size_of_int_nat[of ?start] size_of_int_nat[of "?start + 1"] assms(3) by (simp_all add: add.commute)
  have num: "substr ?line ?start (sz_sub (?start + length (to_string x)) ?start) = Inr (to_string x)"
    using assms(3) by (subst sz_sub_small) simp_all
  have "meminfo_line ?line = bindR (substr ?line 0 (length nm)) (\<lambda>i.
      bindR (substr ?line ?start (sz_sub (?start + length (to_string x)) ?start)) (\<lambda>t. Inr (i, atoi t)))"
    unfolding meminfo_line_def Let_def colon pos at skip option.case conv sp ..
  also have "\<dots> = Inr (nm, of_nat x)" unfolding num using atoi_to_string[OF assms(2)] by simp
  finally show ?thesis .
qed

theorem meminfo_line_reads_witness:
  "meminfo_line (''MemFree'' @ '':'' @ replicate 3 (CHR '' '') @ to_string 2048 @ '' '' @ ''kB'') = Inr (''MemFree'', 2048)"
  using meminfo_line_reads[of "''MemFree''" 2048 3 "''kB''"] by (simp add: show_nat.simps)

text \<open>
  The interface a line of /proc/net/dev is about is the text between the spaces and the colon.
\<close>

theorem netdev_id_reads:
  assumes "CHR '':'' \<notin> set nm" "CHR '' '' \<notin> set nm" "n + length nm + length rest < 2 ^ 30"
  shows "netdev_id (replicate n (CHR '' '') @ nm @ '':'' @ rest) = Inr nm"
proof -
  let ?line = "replicate n (CHR '' '') @ nm @ '':'' @ rest" and ?stop = "n + length nm"
  have colon: "str_find ?line '':'' 0 = ?stop"
    using str_find_char[of "CHR '':''" "replicate n (CHR '' '') @ nm" rest] assms(1) by simp
  have pre: "take (Suc ?stop) ?line = replicate n (CHR '' '') @ nm @ '':''" by simp
  have start: "sz_add (str_rfind_from ?line (CHR '' '') ?stop) 1 = n"
  proof (cases n)
    case 0
    then show ?thesis using assms(2) sz_add_npos[of 1] pre by (simp add: str_rfind_from_def rfind_at_notin)
  next
    case (Suc m)
    then have "replicate n (CHR '' '') @ nm @ '':'' = replicate m (CHR '' '') @ CHR '' '' # nm @ '':''"
      by (simp add: replicate_app_Cons_same)
    then have "str_rfind_from ?line (CHR '' '') ?stop = m"
      using assms(2) pre rfind_at_split[of "CHR '' ''" "nm @ '':''" "replicate m (CHR '' '')" 0 npos] by (simp add: str_rfind_from_def)
    then show ?thesis using Suc assms(3) by simp
  qed
  have conv: "int_of_size ?stop = int ?stop" "size_of_int (int ?stop) = ?stop" "int_of_size n = int n" "size_of_int (int n) = n"
    using size_of_int_nat[of ?stop] int_of_size_small[of ?stop] assms(3) by simp_all
  have len: "size_of_int (int ?stop - int n) = length nm" using assms(3) by simp
  show ?thesis unfolding netdev_id_def Let_def colon conv start len by simp
qed

theorem netdev_id_reads_witness:
  "netdev_id (replicate 2 (CHR '' '') @ ''eth0'' @ '':'' @ '' 1 2'') = Inr ''eth0''"
  using netdev_id_reads[of "''eth0''" 2 "'' 1 2''"] by simp

end
