(* ===== verification/ServiceCollectors.thy ===== *)
theory ServiceCollectors
  imports ServiceStatus SystemMeasures
begin

text \<open>
  The collectors of the measures of a service (src/services/mem.cpp, io.cpp and cpu.cpp): memory,
  input and output, and processor use, summed over the processes of the service. \<open>srv\<close> is the service
  the collector's weak pointer still leads to; asking it for its processes makes it forget the children that
  ended, so it is returned too.
\<close>

section \<open>Memory\<close>

definition new_ServMem :: "'j jsonlib \<Rightarrow> 'j \<Rightarrow> string \<Rightarrow> counters \<Rightarrow> 'j cstate res" where
  "new_ServMem J cfg serv_id cs =
     bindR (seqR [addRessource J ''mem'' ''Service memory usage'' ''serviceMemory'',
           add_props ''mem'' [(''total'', ''Total Memory usage (kB)'', ''number''), (''swap'', ''Swapped (kB)'', ''number''),
                              (''shared'', ''Shared Libraries (kB)'', ''number'')],
           with_route] (new_collector J ''mem'' cfg 25 60 (Some serv_id) cs)) (\<lambda>(c, cs').
     Inr (c\<lparr>c_morrisType := ''Area'', c_morrisOpts := ''  ''\<rparr>, cs'))"

record mem_use =
  mu_total :: u32
  mu_shared :: u32
  mu_swap :: u32

definition smaps_line :: "string \<Rightarrow> mem_use \<Rightarrow> mem_use res" where
  "smaps_line line u =
     (if str_find line '' kB'' 0 = npos then Inr u
      else
        bindR (substr line 0 (str_find line '':'' 0)) (\<lambda>key.
        bindR (substr line (length key + 1) (str_find line '' kB'' 0)) (\<lambda>val.
        Inr (if key = ''Rss'' then u\<lparr>mu_total := mu_total u + atoi val\<rparr>
             else if key = ''Swap'' then u\<lparr>mu_swap := mu_swap u + atoi val\<rparr>
             else if key = ''Shared_Clean'' then u\<lparr>mu_shared := mu_shared u + atoi val\<rparr>
             else u))))"

definition mem_of :: "os \<Rightarrow> u32 list \<Rightarrow> mem_use res" where
  "mem_of w pids =
     foldR (\<lambda>i. foldR smaps_line (file_lines w (proc_path i ''/smaps''))) pids \<lparr>mu_total = 0, mu_shared = 0, mu_swap = 0\<rparr>"

definition ServMem_collect ::
  "'j jsonlib \<Rightarrow> os \<Rightarrow> double \<Rightarrow> 'j service option \<times> 'j cstate \<Rightarrow> ('j service option \<times> 'j cstate) res" where
  "ServMem_collect J w now = (\<lambda>(srv, s).
     case srv of
       None \<Rightarrow> Inr (srv, s)
     | Some sv \<Rightarrow>
         (let (sv', pids) = getPIDs w sv; put = (\<lambda>p x. on_ressource ''mem'' (res_set J p (j_uint J (unat (x :: u32))))) in
          bindR (mem_of w pids) (\<lambda>u.
          bindR (seqR [on_ressource ''mem'' (res_next J now), put ''total'' (mu_total u), put ''swap'' (mu_swap u),
                       put ''shared'' (mu_shared u)] s) (\<lambda>s'.
          Inr (Some sv', s')))))"

section \<open>Input and output\<close>

definition new_ServIo :: "'j jsonlib \<Rightarrow> 'j \<Rightarrow> string \<Rightarrow> counters \<Rightarrow> 'j cstate res" where
  "new_ServIo J cfg serv_id cs =
     (let (c, cs1) = new_collector J ''io'' cfg 150 10 (Some serv_id) cs in
      bindR (cfg_history J c) (\<lambda>h.
      let (r, cs2) = new_ressource (RPid [] (Fin 1)) h ''service_io'' cs1 in
      bindR (with_route (put_ressource ''io'' (props [(''rd'', ''Read bytes'', ''number''), (''wt'', ''Write bytes'', ''number'')] r)
               ''Service IO usage'' (c, cs2))) (\<lambda>(c', cs3).
      Inr (c'\<lparr>c_morrisType := ''Area'', c_morrisOpts := ''  ''\<rparr>, cs3))))"

definition io_line :: "'j jsonlib \<Rightarrow> u32 \<Rightarrow> string \<Rightarrow> 'j ressource \<Rightarrow> 'j ressource res" where
  "io_line J i line r =
     (if str_find line '':'' 0 = npos then Inr r
      else
        bindR (substr line 0 (str_find line '':'' 0)) (\<lambda>key.
        bindR (substr_from line (length key + 1)) (\<lambda>val.
        if key = ''read_bytes'' then setPidValue J ''rd'' (ucast i) (ucast (atoi val)) r
        else if key = ''write_bytes'' then setPidValue J ''wt'' (ucast i) (ucast (atoi val)) r
        else Inr r)))"

definition io_of :: "'j jsonlib \<Rightarrow> os \<Rightarrow> u32 list \<Rightarrow> 'j ressource \<Rightarrow> 'j ressource res" where
  "io_of J w pids r = foldR (\<lambda>i. foldR (io_line J i) (file_lines w (proc_path i ''/io''))) pids r"

definition ServIo_collect ::
  "'j jsonlib \<Rightarrow> os \<Rightarrow> double \<Rightarrow> 'j service option \<times> 'j cstate \<Rightarrow> ('j service option \<times> 'j cstate) res" where
  "ServIo_collect J w now = (\<lambda>(srv, s).
     case srv of
       None \<Rightarrow> Inr (srv, s)
     | Some sv \<Rightarrow>
         (let (sv', pids) = getPIDs w sv in
          bindR (on_ressource ''io'' (\<lambda>(r, cs).
                   bindR (pid_nextValue J now (r, cs)) (\<lambda>(r1, cs1). bindR (io_of J w pids r1) (\<lambda>r2. Inr (r2, cs1)))) s) (\<lambda>s'.
          Inr (Some sv', s'))))"

section \<open>Processor use\<close>

definition new_ServCpu :: "'j jsonlib \<Rightarrow> 'j \<Rightarrow> string \<Rightarrow> counters \<Rightarrow> 'j cstate res" where
  "new_ServCpu J cfg serv_id cs =
     seqR [addRessource J ''shed'' ''Service scheduler information'' ''service_cpu_shed'',
           add_props ''shed'' [(''exec_runtime'', ''exec_runtime stat from the sheduler'', ''number''),
             (''process'', ''Number of process'', ''number''), (''thread'', ''total number of threads'', ''number'')],
           addRessource J ''stat'' ''Service CPU usage'' ''service_cpu_stat'',
           add_props ''stat'' [(''user'', ''user %'', ''number''), (''system'', ''system %'', ''number''), (''pct'', ''total % used'', ''number''),
             (''cuser'', ''user % cumulated'', ''number''), (''csystem'', ''system % cumulated'', ''number'')],
           with_route] (new_collector J ''cpu'' cfg 150 10 (Some serv_id) cs)"

text \<open>The counters a collection keeps for the next one, by process.\<close>

record serv_cpu =
  sc_values :: "(u32, double) smap"
  sc_users :: "(u32, u32) smap"
  sc_sys :: "(u32, u32) smap"
  sc_cusers :: "(u32, u32) smap"
  sc_csys :: "(u32, u32) smap"
  sc_prev :: u64

text \<open>What it adds up over the processes.\<close>

record cpu_sums =
  cs_sum :: double
  cs_process :: u32
  cs_thread :: u32
  cs_users :: u32
  cs_sys :: u32
  cs_cusers :: u32
  cs_csys :: u32

definition total_line :: "string \<Rightarrow> u32 \<times> u32 \<Rightarrow> (u32 \<times> u32) res" where
  "total_line line = (\<lambda>(tot, cpus).
     bindR (vec_at (tokens line) 0) (\<lambda>t.
     Inr (if t = ''cpu'' then (fold (\<lambda>x a. a + atoi x) (tl (tokens line)) tot, cpus)
          else if take 3 t = ''cpu'' then (tot, cpus + 1)
          else (tot, cpus))))"

definition sched_line :: "u32 \<Rightarrow> string \<Rightarrow> serv_cpu \<times> cpu_sums \<Rightarrow> (serv_cpu \<times> cpu_sums) res" where
  "sched_line i line = (\<lambda>(k, u).
     let ts = tokens line in
     bindR (vec_at ts 0) (\<lambda>t0.
     if t0 = ''se.sum_exec_runtime'' then
       bindR (vec_at ts 2) (\<lambda>t2.
       bindR (stod t2) (\<lambda>v.
       Inr (k\<lparr>sc_values := mput i v (sc_values k)\<rparr>,
            case map_of (sc_values k) i of
              Some old \<Rightarrow> if dlt old v then u\<lparr>cs_sum := dadd (cs_sum u) (dsub v old)\<rparr> else u
            | None \<Rightarrow> u)))
     else if 2 < length ts \<and> ts ! 2 = ''#threads:'' then
       bindR (vec_at ts 3) (\<lambda>t3.
       Inr (k, u\<lparr>cs_thread := cs_thread u + atoi (take (length t3 - 1) t3)\<rparr>))
     else Inr (k, u)))"

text \<open>The increase of one counter of a process, and the counter for the next time.\<close>

definition tick :: "u32 \<Rightarrow> u32 \<Rightarrow> (u32, u32) smap \<Rightarrow> u32 \<Rightarrow> (u32, u32) smap \<times> u32" where
  "tick i v m acc =
     (mput i v m, case map_of m i of Some old \<Rightarrow> if old < v then acc + (v - old) else acc | None \<Rightarrow> acc)"

definition stat_line :: "u32 \<Rightarrow> string list \<Rightarrow> serv_cpu \<times> cpu_sums \<Rightarrow> serv_cpu \<times> cpu_sums" where
  "stat_line i ts = (\<lambda>(k, u).
     let (us, a) = tick i (atoi (ts ! 13)) (sc_users k) (cs_users u);
         (sy, b) = tick i (atoi (ts ! 14)) (sc_sys k) (cs_sys u);
         (cu, c) = tick i (atoi (ts ! 15)) (sc_cusers k) (cs_cusers u);
         (cy, d) = tick i (atoi (ts ! 16)) (sc_csys k) (cs_csys u) in
     (k\<lparr>sc_users := us, sc_sys := sy, sc_cusers := cu, sc_csys := cy\<rparr>,
      u\<lparr>cs_users := a, cs_sys := b, cs_cusers := c, cs_csys := d\<rparr>))"

definition cpu_of_pid :: "os \<Rightarrow> u32 \<Rightarrow> serv_cpu \<times> cpu_sums \<Rightarrow> (serv_cpu \<times> cpu_sums) res" where
  "cpu_of_pid w i ku =
     (case os_file w (proc_path i ''/sched'') of
        None \<Rightarrow> Inr ku
      | Some sched \<Rightarrow>
          bindR (foldR (sched_line i) (getlines sched) ku) (\<lambda>ku1.
          case os_file w (proc_path i ''/stat'') of
            None \<Rightarrow> Inr ku1
          | Some st \<Rightarrow>
              (case getlines st of
                 [] \<Rightarrow> Inr (fst ku1, (snd ku1)\<lparr>cs_process := cs_process (snd ku1) + 1\<rparr>)
               | line # _ \<Rightarrow>
                   if length (tokens line) < 17 then Inr ku1
                   else let (k, u) = stat_line i (tokens line) ku1 in Inr (k, u\<lparr>cs_process := cs_process u + 1\<rparr>))))"

text \<open>The time passed is a 32-bit sum minus a 64-bit one.\<close>

definition cpu_factor :: "u32 \<Rightarrow> u32 \<Rightarrow> u64 \<Rightarrow> double" where
  "cpu_factor cpus tot prev = ddiv (of_nat_d (unat (100 * cpus))) (of_nat_d (unat (ucast tot - prev)))"

definition cpu_report :: "'j jsonlib \<Rightarrow> double \<Rightarrow> double \<Rightarrow> double \<Rightarrow> cpu_sums \<Rightarrow> 'j cstate \<Rightarrow> 'j cstate res" where
  "cpu_report J now1 now2 p u =
     (let put = (\<lambda>r k x. on_ressource r (res_set J k x)); n = (\<lambda>x. j_uint J (unat (x :: u32)));
          sh = (\<lambda>x. j_double J (dmul (of_nat_d (unat (x :: u32))) p)) in
      seqR [on_ressource ''shed'' (res_next J now1),
            put ''shed'' ''exec_runtime'' (j_double J (cs_sum u)),
            put ''shed'' ''process'' (n (cs_process u)),
            put ''shed'' ''thread'' (n (cs_thread u)),
            on_ressource ''stat'' (res_next J now2),
            put ''stat'' ''user'' (sh (cs_users u)),
            put ''stat'' ''system'' (sh (cs_sys u)),
            put ''stat'' ''pct'' (sh (cs_sys u + cs_users u)),
            put ''stat'' ''cuser'' (sh (cs_cusers u)),
            put ''stat'' ''csystem'' (sh (cs_csys u))])"

definition no_sums :: cpu_sums where
  "no_sums = \<lparr>cs_sum = Fin 0, cs_process = 0, cs_thread = 0, cs_users = 0, cs_sys = 0, cs_cusers = 0, cs_csys = 0\<rparr>"

definition ServCpu_collect ::
  "'j jsonlib \<Rightarrow> os \<Rightarrow> double \<Rightarrow> double \<Rightarrow> 'j service option \<times> serv_cpu \<times> 'j cstate
     \<Rightarrow> ('j service option \<times> serv_cpu \<times> 'j cstate) res" where
  "ServCpu_collect J w now1 now2 = (\<lambda>(srv, k, s).
     case (srv, os_file w ''/proc/stat'') of
       (Some sv, Some st) \<Rightarrow>
         bindR (foldR total_line (getlines st) (0, 0)) (\<lambda>(tot, cpus).
         let (sv', pids) = getPIDs w sv in
         bindR (foldR (cpu_of_pid w) pids (k, no_sums)) (\<lambda>(k', u).
         bindR (if sc_prev k \<noteq> 0
                then cpu_report J now1 now2 (cpu_factor (if cpus = 0 then 1 else cpus) tot (sc_prev k)) u s
                else Inr s) (\<lambda>s'.
         Inr (Some sv', k'\<lparr>sc_prev := ucast tot\<rparr>, s'))))
     | _ \<Rightarrow> Inr (srv, k, s))"

section \<open>Memory of a service\<close>

lemma atoi_padded:
  assumes "n < 2 ^ 63" "no_digit_first 10 rest"
  shows "atoi (replicate a (CHR '' '') @ to_string n @ rest) = of_nat n"
proof -
  have "dropWhile is_space (replicate a (CHR '' '') @ to_string n @ rest) = dropWhile is_space (to_string n @ rest)"
    by (induction a) (simp_all add: is_space_def)
  then have "strtol10 (replicate a (CHR '' '') @ to_string n @ rest) = int n"
    using scan_show_nat[OF _ _ assms(2), of n] assms(1) by (simp add: strtol10_def)
  then show ?thesis by (simp add: atoi_def)
qed

lemma find_kB: "CHR ''k'' \<notin> set pre \<Longrightarrow> find_at '' kB'' (pre @ '' kB'') i = i + length pre"
proof (induction pre arbitrary: i)
  case (Cons c pre)
  then have "take (Suc (Suc (Suc 0))) (c # pre @ '' kB'') \<noteq> '' kB''" by (cases pre) auto
  then show ?case using Cons by (simp del: take_Suc_Cons)
qed simp

text \<open>A line of /proc/[pid]/smaps that gives a size: its name, the spaces after the colon and the number.\<close>

type_synonym size_line = "string \<times> nat \<times> nat"

definition size_text :: "size_line \<Rightarrow> string" where
  "size_text = (\<lambda>(k, a, n). k @ '':'' @ replicate a (CHR '' '') @ to_string n @ '' kB'')"

definition size_line_ok :: "size_line \<Rightarrow> bool" where
  "size_line_ok = (\<lambda>(k, a, n). CHR '':'' \<notin> set k \<and> newline \<notin> set k \<and> n < 2 ^ 32 \<and> fits (size_text (k, a, n)))"

definition add_size :: "size_line \<Rightarrow> mem_use \<Rightarrow> mem_use" where
  "add_size = (\<lambda>(k, a, n) u.
     if k = ''Rss'' then u\<lparr>mu_total := mu_total u + of_nat n\<rparr>
     else if k = ''Swap'' then u\<lparr>mu_swap := mu_swap u + of_nat n\<rparr>
     else if k = ''Shared_Clean'' then u\<lparr>mu_shared := mu_shared u + of_nat n\<rparr>
     else u)"

lemma to_string_no: "\<not> is_digit c \<Longrightarrow> c \<notin> set (to_string n)"
  using show_nat_all_digits[of 10 c n] by (auto simp: digit_val_def digit_of_def is_digit_def Let_def split: if_splits)

lemma size_value:
  assumes "CHR ''k'' \<notin> set k" "CHR '':'' \<notin> set k" "n < 2 ^ 32"
  shows "str_find (size_text (k, a, n)) '' kB'' 0 = length k + 1 + a + length (to_string n)"
    "atoi (take (length k + 1 + a + length (to_string n)) (drop (length k + 1) (size_text (k, a, n)))) = of_nat n"
proof -
  let ?pre = "k @ '':'' @ replicate a (CHR '' '') @ to_string n"
  have "CHR ''k'' \<notin> set ?pre" using assms(1) to_string_no[of "CHR ''k''" n] by (auto simp: is_digit_def)
  from find_kB[OF this, of 0] show "str_find (size_text (k, a, n)) '' kB'' 0 = length k + 1 + a + length (to_string n)"
    by (simp add: size_text_def str_find_def)
  have "drop (length k + 1) (size_text (k, a, n)) = replicate a (CHR '' '') @ to_string n @ '' kB''"
    by (simp add: size_text_def)
  then have "take (length k + 1 + a + length (to_string n)) (drop (length k + 1) (size_text (k, a, n))) =
      replicate a (CHR '' '') @ to_string n @ take (length k + 1) '' kB''" by simp
  moreover have "no_digit_first 10 (take (length k + 1) '' kB'')" by (simp add: no_digit_first_def digit_val_def digit_of_def)
  ultimately show "atoi (take (length k + 1 + a + length (to_string n)) (drop (length k + 1) (size_text (k, a, n)))) = of_nat n"
    using atoi_padded[of n] assms(3) by simp
qed

lemma smaps_line_value:
  assumes "str_find line '' kB'' 0 = p" "p \<noteq> npos" "str_find line '':'' 0 = length k" "take (length k) line = k" "length k < length line"
  shows "smaps_line line u = Inr (let v = atoi (take p (drop (length k + 1) line)) in
     if k = ''Rss'' then u\<lparr>mu_total := mu_total u + v\<rparr>
     else if k = ''Swap'' then u\<lparr>mu_swap := mu_swap u + v\<rparr>
     else if k = ''Shared_Clean'' then u\<lparr>mu_shared := mu_shared u + v\<rparr> else u)"
  using assms unfolding smaps_line_def by (simp add: Let_def)

lemma smaps_line_adds:
  assumes "size_line_ok l"
  shows "smaps_line (size_text l) u = Inr (add_size l u)"
proof -
  obtain k a n where l: "l = (k, a, n)" by (cases l)
  let ?line = "size_text (k, a, n)" and ?p = "length k + 1 + a + length (to_string n)"
  have k: "CHR '':'' \<notin> set k" "n < 2 ^ 32" "fits ?line" using assms by (auto simp: l size_line_ok_def)
  have colon: "str_find ?line '':'' 0 = length k" using str_find_char[OF k(1)] by (simp add: size_text_def)
  have key: "take (length k) ?line = k" "length k < length ?line" by (simp_all add: size_text_def)
  show ?thesis
  proof (cases "k \<in> {''Rss'', ''Swap'', ''Shared_Clean''}")
    case True
    then have "CHR ''k'' \<notin> set k" by auto
    note v = size_value[OF this k(1,2), of a]
    have "?p \<noteq> npos" using k(3) by (simp add: size_text_def npos_def)
    from smaps_line_value[OF v(1) this colon key] v(2) show ?thesis by (simp only: l Let_def add_size_def prod.case)
  next
    case False
    then show ?thesis
      using smaps_line_value[OF refl _ colon key, of u] by (cases "str_find ?line '' kB'' 0 = npos") (simp_all add: l add_size_def smaps_line_def)
  qed
qed

text \<open>The text of such lines, and of the other lines the file has between them, which give no size.\<close>

definition smaps_text :: "(string + size_line) list \<Rightarrow> string" where
  "smaps_text ls = concat (map (\<lambda>l. (case l of Inl t \<Rightarrow> t | Inr x \<Rightarrow> size_text x) @ [newline]) ls)"

definition smaps_ok :: "(string + size_line) list \<Rightarrow> bool" where
  "smaps_ok ls = list_all (\<lambda>l. case l of
      Inl t \<Rightarrow> t \<noteq> [] \<and> newline \<notin> set t \<and> str_find t '' kB'' 0 = npos
    | Inr x \<Rightarrow> size_line_ok x) ls"

definition sizes :: "string \<Rightarrow> (string + size_line) list \<Rightarrow> nat" where
  "sizes key ls = sum_list (map (\<lambda>l. case l of Inl t \<Rightarrow> 0 | Inr (k, a, n) \<Rightarrow> if k = key then n else 0) ls)"

lemma size_text_line: "size_line_ok x \<Longrightarrow> newline \<notin> set (size_text x) \<and> size_text x \<noteq> []"
  using to_string_no[of newline] by (auto simp: size_text_def size_line_ok_def is_digit_def)

lemma smaps_lines:
  "smaps_ok ls \<Longrightarrow> getlines (smaps_text ls) = map (\<lambda>l. case l of Inl t \<Rightarrow> t | Inr x \<Rightarrow> size_text x) ls"
proof (induction ls)
  case (Cons l ls)
  let ?l = "case l of Inl t \<Rightarrow> t | Inr x \<Rightarrow> size_text x"
  have "newline \<notin> set ?l" "?l \<noteq> []" using Cons.prems size_text_line by (auto simp: smaps_ok_def split: sum.splits)
  from getlines_line[OF this, of "smaps_text ls"] show ?case using Cons by (simp add: smaps_text_def smaps_ok_def)
qed (simp add: smaps_text_def getlines.simps)

lemma smaps_sums:
  assumes "smaps_ok ls"
  shows "foldR smaps_line (getlines (smaps_text ls)) u =
    Inr (u\<lparr>mu_total := mu_total u + of_nat (sizes ''Rss'' ls), mu_shared := mu_shared u + of_nat (sizes ''Shared_Clean'' ls),
           mu_swap := mu_swap u + of_nat (sizes ''Swap'' ls)\<rparr>)"
  unfolding smaps_lines[OF assms] using assms
proof (induction ls arbitrary: u)
  case (Cons l ls)
  then have ok: "smaps_ok ls" by (simp add: smaps_ok_def)
  show ?case
  proof (cases l)
    case (Inl t)
    then have "smaps_line t u = Inr u" using Cons.prems by (simp add: smaps_ok_def smaps_line_def)
    then show ?thesis using Cons.IH[OF ok] Inl by (simp add: sizes_def)
  next
    case (Inr x)
    obtain k a n where x: "x = (k, a, n)" by (cases x)
    have "smaps_line (size_text x) u = Inr (add_size x u)" using Cons.prems Inr by (simp add: smaps_ok_def smaps_line_adds)
    then show ?thesis using Cons.IH[OF ok, of "add_size x u"] Inr by (simp add: x add_size_def sizes_def)
  qed
qed (simp add: sizes_def)

text \<open>
  C35: The memory of a service is the sum of the resident, swapped and shared sizes of all the regions of its
  processes, modulo 2 to the 32 kilobytes.
\<close>

theorem service_memory_sums:
  assumes "\<forall>i \<in> set pids. os_file w (proc_path i ''/smaps'') = Some (smaps_text (regions i)) \<and> smaps_ok (regions i)"
  shows "mem_of w pids = Inr \<lparr>mu_total = of_nat (\<Sum>i\<leftarrow>pids. sizes ''Rss'' (regions i)),
      mu_shared = of_nat (\<Sum>i\<leftarrow>pids. sizes ''Shared_Clean'' (regions i)), mu_swap = of_nat (\<Sum>i\<leftarrow>pids. sizes ''Swap'' (regions i))\<rparr>"
proof -
  have "foldR (\<lambda>i. foldR smaps_line (file_lines w (proc_path i ''/smaps''))) pids u =
      Inr (u\<lparr>mu_total := mu_total u + of_nat (\<Sum>i\<leftarrow>pids. sizes ''Rss'' (regions i)),
        mu_shared := mu_shared u + of_nat (\<Sum>i\<leftarrow>pids. sizes ''Shared_Clean'' (regions i)),
        mu_swap := mu_swap u + of_nat (\<Sum>i\<leftarrow>pids. sizes ''Swap'' (regions i))\<rparr>)" for u
    using assms
  proof (induction pids arbitrary: u)
    case (Cons i pids)
    then have "file_lines w (proc_path i ''/smaps'') = getlines (smaps_text (regions i))" "smaps_ok (regions i)"
      by (simp_all add: file_lines_def)
    then show ?case using Cons smaps_sums by (simp add: add.assoc)
  qed simp
  then show ?thesis by (simp add: mem_of_def)
qed

definition smaps_os :: os where
  "smaps_os = bare_os\<lparr>os_file := \<lambda>f. if f = proc_path 42 ''/smaps'' then
     Some (smaps_text [Inl ''00400000-0048a000 r-xp'', Inr (''Rss'', 3, 120), Inr (''Swap'', 2, 8), Inl ''VmFlags: rd'', Inr (''Rss'', 1, 30)])
     else None\<rparr>"

theorem service_memory_sums_witness:
  "mem_of smaps_os [42] = Inr \<lparr>mu_total = 150, mu_shared = 0, mu_swap = 8\<rparr>"
proof -
  let ?r = "[Inl ''00400000-0048a000 r-xp'', Inr (''Rss'', 3, 120), Inr (''Swap'', 2, 8), Inl ''VmFlags: rd'', Inr (''Rss'', 1, 30)]"
  have "smaps_ok ?r" by (simp add: smaps_ok_def size_line_ok_def size_text_def str_find_def show_nat.simps)
  then have "\<forall>i \<in> set [42 :: u32]. os_file smaps_os (proc_path i ''/smaps'') = Some (smaps_text ((\<lambda>_. ?r) i)) \<and> smaps_ok ((\<lambda>_. ?r) i)"
    by (simp add: smaps_os_def)
  from service_memory_sums[OF this] show ?thesis by (simp add: sizes_def)
qed

section \<open>Bytes read and written\<close>

lemma ucast_low: "ucast (of_nat y :: u32) = (of_nat (y mod 2 ^ 32) :: u64)"
  by (simp add: unsigned_of_nat take_bit_nat_eq_self_iff take_bit_eq_mod flip: of_nat_mod)

lemma to_string_short: "n < 2 ^ 63 \<Longrightarrow> length (to_string n) \<le> 20"
  using length_show_nat[of 10 n 19] by simp

lemma io_line_reads:
  assumes "y < 2 ^ 63"
  shows "io_line J i (''read_bytes: '' @ to_string y) r = setPidValue J ''rd'' (ucast i) (of_nat (y mod 2 ^ 32)) r"
proof -
  let ?line = "''read_bytes'' @ CHR '':'' # CHR '' '' # to_string y"
  have colon: "str_find ?line '':'' 0 = length ''read_bytes''" by (rule str_find_char) simp
  have "fits ?line" using to_string_short[OF assms] by simp
  then have "substr_from ?line (length ''read_bytes'' + 1) = Inr (CHR '' '' # to_string y)"
    by (subst substr_from_Inr) simp_all
  moreover have "atoi (CHR '' '' # to_string y) = of_nat y"
    using atoi_padded[OF assms, of "[]" 1] by (simp add: no_digit_first_def)
  moreover have "substr ?line 0 (length ''read_bytes'') = Inr ''read_bytes''" by simp
  ultimately show ?thesis
    using colon by (simp add: io_line_def npos_def ucast_low del: substr_Inr)
qed

text \<open>
  The bytes a process read since the last collection are counted modulo 2 to the 32: their increase is added
  when the low 32 bits of the counter grew, and lost as a whole when they did not, as when the counter
  passes a multiple of 4 GiB.
\<close>

theorem io_counts_low_bits:
  assumes "rkind r = RPid vals (Fin 1)" "map_of (pid_row vals ''rd'') (ucast i) = Some (of_nat (x mod 2 ^ 32))"
    and "rv r = e # es" "j_asDouble J (j_get J e ''rd'') = Inr (Fin d)" "y < 2 ^ 63"
  shows "\<exists>r'. io_line J i (''read_bytes: '' @ to_string y) r = Inr r' \<and>
    rv r' = (if x mod 2 ^ 32 < y mod 2 ^ 32
      then j_set J e ''rd'' (j_double J (dadd (Fin d) (dmul (Fin 1) (of_nat_d (y mod 2 ^ 32 - x mod 2 ^ 32))))) # es
      else e # es)"
proof -
  have u: "unat (of_nat (n mod 2 ^ 32) :: u64) = n mod 2 ^ 32" for n :: nat
    using mod_less_divisor[of "2 ^ 32" n] by (simp add: unat_of_nat)
  have lt: "(of_nat (x mod 2 ^ 32) :: u64) < of_nat (y mod 2 ^ 32) \<longleftrightarrow> x mod 2 ^ 32 < y mod 2 ^ 32"
    by (simp only: word_less_nat_alt u)
  show ?thesis
  proof (cases "x mod 2 ^ 32 < y mod 2 ^ 32")
    case True
    then have "unat (of_nat (y mod 2 ^ 32) - of_nat (x mod 2 ^ 32) :: u64) = y mod 2 ^ 32 - x mod 2 ^ 32"
      using lt by (simp only: unat_sub_if' word_le_nat_alt u less_imp_le if_True)
    then show ?thesis
      unfolding io_line_reads[OF assms(5)] using setPidValue_known[OF assms(1,3,2,4)] lt True by simp
  next
    case False
    then show ?thesis unfolding io_line_reads[OF assms(5)]
      using setPidValue_quiet[OF assms(1), where k = "''rd''" and p = "ucast i" and y = "of_nat (y mod 2 ^ 32)" and J = J] lt assms(2,3)
      by (simp add: not_less)
  qed
qed

definition io_res :: "jv ressource" where
  "io_res = (fst (new_ressource (RPid [(''rd'', [(42, 4294967000)])] (Fin 1)) 5 ''service_io'' []))\<lparr>rv := [JObj [(''rd'', JDbl (Fin 0))]]\<rparr>"

theorem io_counts_low_bits_witness:
  "\<exists>r'. io_line ref_json 42 (''read_bytes: '' @ to_string 4294968000) io_res = Inr r' \<and> rv r' = [JObj [(''rd'', JDbl (Fin 0))]]"
  using io_counts_low_bits[of io_res "[(''rd'', [(42, 4294967000)])]" 42 4294967000 "JObj [(''rd'', JDbl (Fin 0))]" "[]" ref_json 0 4294968000]
  by (simp add: io_res_def new_ressource_def pid_row_def)

end
