(* ===== verification/LuaPlugins.thy ===== *)
theory LuaPlugins
  imports Pages ServiceCollectors
begin

text \<open>
  The plugins written in Lua (src/luacollectors.cpp). A script is run by the Lua interpreter, which is a parameter:
  what counts of it is the sequence of calls it makes to the methods the agent gives it, and the
  values it returns. Each class keeps its interpreter until its destructor runs, so \<open>have_state\<close> is true
  in every call modelled here that does not take it as an argument. The interpreter's own errors are not modelled.
\<close>

section \<open>Collectors\<close>

datatype lua_call =
    AddRes string string string
  | AddProp string string string string
  | NextVal string
  | SetProp string string int
  | SetPropD string string double

text \<open>\<open>now\<close> is the time of the call; the calls of a script come with the times they are made at.\<close>

fun lua_step :: "'j jsonlib \<Rightarrow> double \<Rightarrow> lua_call \<Rightarrow> 'j cstate \<Rightarrow> 'j cstate res" where
  "lua_step J now (AddRes p_name p_desc p_typeName) = addRessource J p_name p_desc p_typeName"
| "lua_step J now (AddProp p_res p_name p_desc p_type) = on_ressource p_res (res_prop p_name p_desc p_type)"
| "lua_step J now (NextVal p_res) = on_ressource p_res (res_next J now)"
| "lua_step J now (SetProp p_res p_name val) = on_ressource p_res (res_set J p_name (j_int J val))"
| "lua_step J now (SetPropD p_res p_name val) = on_ressource p_res (res_set J p_name (j_double J val))"

definition lua_run :: "'j jsonlib \<Rightarrow> (double \<times> lua_call) list \<Rightarrow> 'j cstate \<Rightarrow> 'j cstate res" where
  "lua_run J calls = foldR (\<lambda>(now, call). lua_step J now call) calls"

text \<open>The script's table \<^verbatim>\<open>cfg\<close> and the calls its \<^verbatim>\<open>declare\<close> makes.\<close>

record lua_script =
  ls_history :: int
  ls_poolfreq :: int
  ls_name :: string
  ls_declare :: "(double \<times> lua_call) list"

definition lua_defaults :: "'j jsonlib \<Rightarrow> lua_script \<Rightarrow> 'j \<Rightarrow> 'j" where
  "lua_defaults J l c =
     (let c1 = (if j_member J c ''history'' then c else j_set J c ''history'' (j_int J (ls_history l))) in
      if j_member J c1 ''poll-frequency'' then c1 else j_set J c1 ''poll-frequency'' (j_int J (ls_poolfreq l)))"

definition new_LuaCollector :: "'j jsonlib \<Rightarrow> lua_script \<Rightarrow> 'j \<Rightarrow> string option \<Rightarrow> counters \<Rightarrow> 'j cstate res" where
  "new_LuaCollector J l p_cfg p_serv cs =
     (let (c, cs1) = new_collector J ''lua'' p_cfg 0 0 p_serv cs;
          c1 = c\<lparr>c_cfg := lua_defaults J l (c_cfg c), c_name := ls_name l\<rparr> in
      bindR (lua_run J (ls_declare l) (c1, count_add ''LuaCollector'' 1 cs1)) with_route)"

text \<open>What \<^verbatim>\<open>getPIDList\<close> puts into the script's table of processes; it prunes the children of the service.\<close>

definition getPIDList :: "os \<Rightarrow> 'j service option \<Rightarrow> 'j service option \<times> u32 list" where
  "getPIDList w srv = (case srv of None \<Rightarrow> (None, []) | Some s \<Rightarrow> let (s', ps) = getPIDs w s in (Some s', ps))"

section \<open>Log parsers\<close>

definition new_LuaParser :: "'j jsonlib \<Rightarrow> lua_script \<Rightarrow> string \<Rightarrow> 'j \<Rightarrow> counters \<Rightarrow> 'j logParser \<times> counters" where
  "new_LuaParser J l p_logname p_cfg cs =
     (let (p, cs1) = new_logParser J p_logname p_cfg 0 0 cs in
      (p\<lparr>lp_cfg := lua_defaults J l (lp_cfg p)\<rparr>, count_add ''LuaParser'' 1 cs1))"

text \<open>The level numbers a script is told, and what it returns read as a level, when it is one.\<close>

definition lua_levels :: "level list" where
  "lua_levels = [Lvl_ok, Lvl_info, Lvl_notice, Lvl_warning, Lvl_error, Lvl_critical]"

definition level_number :: "level \<Rightarrow> nat" where
  "level_number l = length (takeWhile (\<lambda>x. x \<noteq> l) lua_levels)"

definition lua_prelude :: string where
  "lua_prelude =
     ''ok='' @ to_string (level_number Lvl_ok) @ '';notice='' @ to_string (level_number Lvl_notice) @
     '';info='' @ to_string (level_number Lvl_info) @ '';warning='' @ to_string (level_number Lvl_warning) @
     '';error='' @ to_string (level_number Lvl_error) @ '';critical='' @ to_string (level_number Lvl_critical)"

definition lua_getLevel :: "(string \<Rightarrow> int) \<Rightarrow> string \<Rightarrow> level option" where
  "lua_getLevel script line =
     (let r = script line in if 0 \<le> r \<and> nat r < length lua_levels then Some (lua_levels ! nat r) else None)"

definition lua_getDate :: "bool \<Rightarrow> (string \<Rightarrow> string) \<Rightarrow> string \<Rightarrow> string" where
  "lua_getDate have_state script p_line = (if have_state then script p_line else [])"

section \<open>Handlers\<close>

text \<open>The service is held by a weak pointer, \<open>None\<close> once it is gone; the script can only read it.\<close>

definition lua_isBlackout :: "bool \<Rightarrow> ('j service \<Rightarrow> bool) \<Rightarrow> 'j service option \<Rightarrow> bool" where
  "lua_isBlackout have_state script serv =
     (if \<not> have_state then False else case serv of None \<Rightarrow> False | Some s \<Rightarrow> script s)"

section \<open>Which plugins a file holds\<close>

text \<open>The strings of the script's table \<^verbatim>\<open>types\<close>; past its end the interpreter gives the empty string.\<close>

fun isType :: "string list \<Rightarrow> string \<Rightarrow> bool" where
  "isType [] p_typename = (p_typename = [])"
| "isType (y # ys) p_typename = (y = p_typename \<or> (y \<noteq> [] \<and> isType ys p_typename))"

section \<open>Enhancers\<close>

datatype serv_call =
    AddCollector string
  | SetType string
  | SetSubType string
  | SetUniqKey string
  | SetHost string
  | SetHandler string
  | AddLogMonitor string string
  | UpdateBasePaths
  | SetName string

fun serv_step ::
  "'j jsonlib \<Rightarrow> os \<Rightarrow> string \<Rightarrow> serv_call \<Rightarrow> 'j factories \<times> 'j service \<times> counters \<Rightarrow> ('j factories \<times> 'j service \<times> counters) res" where
  "serv_step J w lg (AddCollector n) (F, s, cs) = bindR (addCollector J F n (s, cs)) (\<lambda>sc. Inr (F, sc))"
| "serv_step J w lg (SetType t) (F, s, cs) = Inr (F, s\<lparr>s_type := t\<rparr>, cs)"
| "serv_step J w lg (SetSubType t) (F, s, cs) = Inr (F, s\<lparr>s_subType := t\<rparr>, cs)"
| "serv_step J w lg (SetUniqKey k) (F, s, cs) = Inr (F, s\<lparr>s_uniqName := k\<rparr>, cs)"
| "serv_step J w lg (SetHost h) (F, s, cs) = Inr (F, s\<lparr>s_host := h\<rparr>, cs)"
| "serv_step J w lg (SetHandler n) (F, s, cs) = bindR (setHandler n (F, s)) (\<lambda>(F', s'). Inr (F', s', cs))"
| "serv_step J w lg (AddLogMonitor n f) (F, s, cs) = bindR (addLogMonitor J w F lg n f (s, cs)) (\<lambda>sc. Inr (F, sc))"
| "serv_step J w lg UpdateBasePaths (F, s, cs) = Inr (F, updateBasePaths s, cs)"
| "serv_step J w lg (SetName n) (F, s, cs) = Inr (F, s\<lparr>s_name := n\<rparr>, cs)"

text \<open>
  \<^verbatim>\<open>enhance\<close> changes the service it is given and returns a null pointer. \<open>script\<close> is the calls the script makes
  for a service; a call that fails ends the script, and what it had changed itself before failing is not followed.
\<close>

definition lua_enhance ::
  "'j jsonlib \<Rightarrow> os \<Rightarrow> string \<Rightarrow> ('j service \<Rightarrow> serv_call list) \<Rightarrow> 'j factories \<times> 'j service \<times> counters \<Rightarrow> ('j factories \<times> 'j service \<times> counters) res" where
  "lua_enhance J w lg script = (\<lambda>(F, s, cs). foldR (serv_step J w lg) (script s) (F, s, cs))"

text \<open>
  A script as the enhancer that \<^verbatim>\<open>addService\<close> uses. It is meant for scripts whose calls all end normally: after a failing call the
  service of the program has the changes of the calls before it and the exception leaves \<^verbatim>\<open>enhance\<close>, where the round of detection is not followed any further;
  \<open>None\<close> stands for this.
\<close>

definition lua_enhancer ::
  "'j jsonlib \<Rightarrow> os \<Rightarrow> string \<Rightarrow> ('j service \<Rightarrow> serv_call list) \<Rightarrow> 'j factories \<Rightarrow> counters \<Rightarrow> 'j enhancer" where
  "lua_enhancer J w lg script F cs s =
     (case lua_enhance J w lg script (F, s, cs) of Inr (F', s', cs') \<Rightarrow> Some s' | Inl e \<Rightarrow> None)"

section \<open>Any script keeps the measures\<close>

text \<open>A call that does not overwrite the time of an entry with an integer.\<close>

fun keeps_time :: "lua_call \<Rightarrow> bool" where
  "keeps_time (SetProp r p x) = (p \<noteq> ''timestamp'')"
| "keeps_time _ = True"

context json_laws
begin

lemma lua_step_keeps: "keeps_time call \<Longrightarrow> keeps J (lua_step J now call)"
  by (cases call) (simp_all add: inv_intros)

lemma lua_run_keeps: "list_all (\<lambda>(now, call). keeps_time call) calls \<Longrightarrow> keeps J (lua_run J calls)"
proof (induction calls)
  case (Cons c calls)
  have "lua_run J (c # calls) = (\<lambda>s. bindR (lua_step J (fst c) (snd c) s) (lua_run J calls))"
    by (simp add: lua_run_def fun_eq_iff case_prod_unfold)
  then show ?case using keeps_comp[OF lua_step_keeps Cons.IH, of "snd c" "fst c"] Cons.prems by (simp add: case_prod_unfold)
qed (simp add: lua_run_def keeps_def)

end

text \<open>
  A collector script can make any calls in any order: if they end normally, every measure stays within
  its size and every entry keeps its time, as long as the script does not overwrite the time itself with an
  integer.
\<close>

theorem lua_script_keeps_measures:
  assumes "json_laws J" "list_all (\<lambda>(now, call). keeps_time call) calls" "cstate_ok J s" "lua_run J calls s = Inr s'"
  shows "cstate_ok J s'"
  using keepsD[OF json_laws.lua_run_keeps[OF assms(1,2)] assms(3,4)] .

definition lua_demo :: "(double \<times> lua_call) list" where
  "lua_demo = [(Fin 1, AddRes ''m'' ''a measure'' ''t''), (Fin 2, NextVal ''m''), (Fin 3, SetProp ''m'' ''x'' 5)]"

theorem lua_script_keeps_measures_witness:
  "\<exists>s'. lua_run ref_json lua_demo (base_collector ref_json ''demo'' (JObj []) 5 5 []) = Inr s' \<and> cstate_ok ref_json s'"
proof -
  let ?s = "base_collector ref_json ''demo'' (JObj []) 5 5 []"
  have "\<exists>s'. lua_run ref_json lua_demo ?s = Inr s'"
    by (simp add: lua_run_def lua_demo_def base_collector_def new_collector_def plugin_defaults_def j_default_def Let_def addRessource_def
        mhas_def on_ressource_def res_next_def nextValue_def next_entry_def res_set_def setProperty_def new_ressource_def)
  then obtain s' where s': "lua_run ref_json lua_demo ?s = Inr s'" by blast
  have "cstate_ok ref_json ?s" by (simp add: cstate_ok_def base_collector_def new_collector_def Let_def)
  from lua_script_keeps_measures[OF ref.json_laws_axioms _ this s'] show ?thesis using s' by (simp add: lua_demo_def)
qed

section \<open>An enhancer adds and takes nothing away\<close>

text \<open>
  What a script leaves of a service: its processes and sockets as they are, every collector it had with its measures, and every
  log parser it had.
\<close>

definition grown :: "'j service \<Rightarrow> 'j service \<Rightarrow> bool" where
  "grown s s' \<longleftrightarrow> s_main s' = s_main s \<and> s_sub s' = s_sub s \<and> s_sockets s' = s_sockets s \<and>
     (\<forall>k c. map_of (s_collectors s) k = Some c \<longrightarrow> (\<exists>c'. map_of (s_collectors s') k = Some c' \<and> c_ressources c' = c_ressources c)) \<and>
     (\<forall>f p. map_of (s_parsers s) f = Some p \<longrightarrow> map_of (s_parsers s') f = Some p)"

lemma grown_refl [simp]: "grown s s"
  by (simp add: grown_def)

lemma grown_trans: "grown s t \<Longrightarrow> grown t u \<Longrightarrow> grown s u"
  by (fastforce simp: grown_def)

lemma grown_ok: "grown s s' \<Longrightarrow> serv_ok s \<Longrightarrow> serv_ok s'"
  by (simp add: grown_def serv_ok_def)

lemma plugin_cfg_grown:
  "getCollectorCfg J n s = (s1, cfg) \<Longrightarrow> \<exists>v. s1 = s\<lparr>s_cfg := v\<rparr>" "getParserCfg J n s = (s1, cfg) \<Longrightarrow> \<exists>v. s1 = s\<lparr>s_cfg := v\<rparr>"
  by (auto simp: getCollectorCfg_def getParserCfg_def Let_def intro: exI[of _ "s_cfg s"])

lemma mput_grown:
  "\<not> mhas (s_collectors s) n \<Longrightarrow> grown s (s\<lparr>s_collectors := mput n c (s_collectors s), s_cfg := v\<rparr>)"
  "\<not> mhas (s_parsers s) f \<Longrightarrow> grown s (s\<lparr>s_parsers := mput f p (s_parsers s), s_cfg := v\<rparr>)"
  by (auto simp: grown_def mhas_map_of)

lemma addCollector_grown:
  assumes "addCollector J F n (s, cs) = Inr (s', cs')"
  shows "grown s s'"
proof (cases "mhas (s_collectors s) n \<or> map_of (f_collector F) n = None")
  case False
  then obtain maker fname where m: "map_of (f_collector F) n = Some (Some maker, fname)"
    using assms by (auto simp: addCollector_def split: option.splits)
  obtain s1 cfg where c: "getCollectorCfg J n s = (s1, cfg)" by fastforce
  obtain v where s1: "s1 = s\<lparr>s_cfg := v\<rparr>" using plugin_cfg_grown(1)[OF c] by blast
  obtain d cs1 where d: "maker cfg (getID s1) fname cs = Inr (d, cs1)"
    using assms False m c by (cases "maker cfg (getID s1) fname cs") (auto simp: addCollector_def)
  obtain d' where "col_startThread J d = Inr d'"
    using assms False m c d by (cases "col_startThread J d") (auto simp: addCollector_def)
  then show ?thesis using assms False m c d mput_grown(1)[where s = s and n = n and c = d'] by (auto simp: addCollector_def s1)
qed (use assms in \<open>auto simp: addCollector_def split: if_splits\<close>)

lemma addLogMonitor_grown:
  assumes "addLogMonitor J w F lg n f (s, cs) = Inr (s', cs')"
  shows "grown s s'"
proof (cases "mhas (s_parsers s) f \<or> map_of (f_parser F) n = None")
  case False
  then obtain maker luafile where m: "map_of (f_parser F) n = Some (maker, luafile)" by auto
  obtain found where fo: "monitored_file w lg f s = Inr found"
    using assms False m by (cases "monitored_file w lg f s") (auto simp: addLogMonitor_def)
  show ?thesis
  proof (cases found)
    case None
    then show ?thesis using assms False m fo by (simp add: addLogMonitor_def)
  next
    case (Some logfile)
    obtain mk where mk: "maker = Some mk" using assms False m fo Some by (cases maker) (auto simp: addLogMonitor_def)
    obtain s1 cfg where c: "getParserCfg J n s = (s1, cfg)" by fastforce
    obtain v where s1: "s1 = s\<lparr>s_cfg := v\<rparr>" using plugin_cfg_grown(2)[OF c] by blast
    obtain p cs1 where p: "mk logfile cfg luafile cs = Inr (p, cs1)"
      using assms False m fo Some mk c by (cases "mk logfile cfg luafile cs") (auto simp: addLogMonitor_def)
    obtain p' where "lp_startThread J p = Inr p'"
      using assms False m fo Some mk c p by (cases "lp_startThread J p") (auto simp: addLogMonitor_def)
    then show ?thesis using assms False m fo Some mk c p mput_grown(2)[where s = s and f = f and p = p'] by (auto simp: addLogMonitor_def s1)
  qed
qed (use assms in \<open>auto simp: addLogMonitor_def split: if_splits\<close>)

lemma setHandler_grown: "setHandler n (F, s) = Inr (F', s') \<Longrightarrow> grown s s'"
  by (auto simp: setHandler_def grown_def split: if_splits option.splits prod.splits)

lemma updateBasePaths_grown: "grown s (updateBasePaths s)"
  by (auto simp: grown_def updateBasePaths_def map_of_map setService_def)

lemma serv_step_grown: "serv_step J w lg call (F, s, cs) = Inr (F', s', cs') \<Longrightarrow> grown s s'"
proof (cases call)
  case (AddCollector n)
  then show "serv_step J w lg call (F, s, cs) = Inr (F', s', cs') \<Longrightarrow> grown s s'"
    using addCollector_grown[of J F n s cs s' cs'] by (auto simp: bindR_Inr_iff)
next
  case (AddLogMonitor n f)
  then show "serv_step J w lg call (F, s, cs) = Inr (F', s', cs') \<Longrightarrow> grown s s'"
    using addLogMonitor_grown[of J w F lg n f s cs s' cs'] by (auto simp: bindR_Inr_iff)
next
  case (SetHandler n)
  then show "serv_step J w lg call (F, s, cs) = Inr (F', s', cs') \<Longrightarrow> grown s s'"
    using setHandler_grown[of n F s F' s'] by (auto simp: bindR_Inr_iff)
qed (auto simp: updateBasePaths_grown, auto simp: grown_def)

lemma lua_calls_grown:
  "foldR (serv_step J w lg) calls (F, s, cs) = Inr (F', s', cs') \<Longrightarrow> grown s s'"
proof (induction calls arbitrary: F s cs)
  case (Cons c calls)
  then obtain F1 s1 cs1 where 1: "serv_step J w lg c (F, s, cs) = Inr (F1, s1, cs1)"
    by (cases "serv_step J w lg c (F, s, cs)") auto
  then show ?case using Cons grown_trans[OF serv_step_grown[OF 1]] by simp
qed simp

text \<open>
  C39: at any point of a Lua enhancer, after its whole script or before a call that fails, the service it was given has the main
  processes, children and sockets it had, is well formed if it was, and still has each of its collectors, with the measures in it,
  and each of its log parsers. So every enhancer script meets what the detection of services relies on.
\<close>

theorem lua_enhancers_ok:
  "enhancer_ok (lua_enhancer J w lg script F cs) \<and>
   (\<forall>n s F' s' cs'. foldR (serv_step J w lg) (take n (script s)) (F, s, cs) = Inr (F', s', cs') \<longrightarrow>
      s_main s' = s_main s \<and> s_sub s' = s_sub s \<and> s_sockets s' = s_sockets s \<and> (serv_ok s \<longrightarrow> serv_ok s') \<and>
      (\<forall>k c. map_of (s_collectors s) k = Some c \<longrightarrow> (\<exists>c'. map_of (s_collectors s') k = Some c' \<and> c_ressources c' = c_ressources c)) \<and>
      (\<forall>f p. map_of (s_parsers s) f = Some p \<longrightarrow> map_of (s_parsers s') f = Some p))"
proof -
  have "grown a a'" if e: "lua_enhancer J w lg script F cs a = Some a'" for a a'
  proof -
    obtain F' cs' where "foldR (serv_step J w lg) (script a) (F, a, cs) = Inr (F', a', cs')"
      using e unfolding lua_enhancer_def lua_enhance_def by (auto split: sum.splits prod.splits)
    then show ?thesis by (rule lua_calls_grown)
  qed
  then have "s_main a' = s_main a \<and> s_sub a' = s_sub a \<and> (serv_ok a \<longrightarrow> serv_ok a')"
    if "lua_enhancer J w lg script F cs a = Some a'" for a a'
    using that grown_ok[of a a'] by (simp add: grown_def)
  then have "enhancer_ok (lua_enhancer J w lg script F cs)" by (simp add: enhancer_ok_def)
  moreover have "grown s s' \<and> (serv_ok s \<longrightarrow> serv_ok s')"
    if "foldR (serv_step J w lg) (take n (script s)) (F, s, cs) = Inr (F', s', cs')" for n s F' s' cs'
    using lua_calls_grown[OF that] grown_ok by blast
  ultimately show ?thesis unfolding grown_def by blast
qed

text \<open>A script that renames the service, asks for a collector whose function is missing, which fails, and would then set the host.\<close>

definition demo_script :: "jv service \<Rightarrow> serv_call list" where
  "demo_script s = [SetName ''web'', AddCollector ''broken'', SetHost ''h'']"

definition broken_factories :: "jv factories" where
  "broken_factories = \<lparr>f_collector = [(''broken'', None, [])], f_parser = [], f_handler = []\<rparr>"

theorem lua_enhancers_ok_witness:
  "lua_enhance ref_json demo_os [] demo_script (broken_factories, demo_up, []) = Inl Undefined \<and>
   (\<exists>s'. foldR (serv_step ref_json demo_os []) (take 1 (demo_script demo_up)) (broken_factories, demo_up, []) = Inr (broken_factories, s', []) \<and>
     s_name s' = ''web'' \<and> s_main s' = [demo_process 0] \<and> s_sockets s' = [demo_socket] \<and> serv_ok s')"
proof -
  let ?s = "demo_up\<lparr>s_name := ''web''\<rparr>"
  have r: "foldR (serv_step ref_json demo_os []) (take 1 (demo_script demo_up)) (broken_factories, demo_up, []) =
      Inr (broken_factories, ?s, [])"
    by (simp add: demo_script_def)
  have "serv_ok demo_up" by (simp add: demo_up_def blank_service_def serv_ok_def)
  moreover have "lua_enhance ref_json demo_os [] demo_script (broken_factories, demo_up, []) = Inl Undefined"
    by (simp add: lua_enhance_def demo_script_def addCollector_def broken_factories_def demo_up_def blank_service_def mhas_def)
  ultimately show ?thesis
    using lua_enhancers_ok[of ref_json demo_os "[]" demo_script broken_factories "[]"] r by (auto simp: demo_up_sel)
qed

end
