(* ===== verification/SystemdPlugin.thy ===== *)
theory SystemdPlugin
  imports ServicesManager ServiceStatus
begin

text \<open>
  The systemd plugin (src/services/sdbus/systemdbus.cpp): it finds the services systemd runs, gives them a
  handler that tells a planned stop from a failure, and names a service after its unit. The
  bus is a parameter: the record \<open>bus\<close> says what a call returns, \<open>None\<close> being a failed call. The
  handler of a unit is kept as its plugin name and the object path it asks for. \<^verbatim>\<open>std::regex\<close> on unit names is the
  parameter \<open>rxm\<close>.
\<close>

section \<open>Reading from the bus\<close>

record bus =
  b_ExecMainPID :: "string \<Rightarrow> u32 option"
  b_ActiveState :: "string \<Rightarrow> string option"
  b_SubState :: "string \<Rightarrow> string option"
  b_Type :: "string \<Rightarrow> string option"
  b_Restart :: "string \<Rightarrow> string option"
  b_GetUnitByPID :: "u32 \<Rightarrow> string option"
  b_Introspect :: "string option"

text \<open>
  The readers return 0 when a call fails: a number, or for a text a \<^verbatim>\<open>std::string\<close> made from a null pointer,
  which is undefined.
\<close>

definition sd_getPID :: "bus \<Rightarrow> string \<Rightarrow> u32" where
  "sd_getPID b path = (case b_ExecMainPID b path of Some n \<Rightarrow> n | None \<Rightarrow> 0)"

definition dbus_string :: "string option \<Rightarrow> string res" where
  "dbus_string r = (case r of Some s \<Rightarrow> Inr s | None \<Rightarrow> Inl Undefined)"

definition findByPID :: "bus \<Rightarrow> u32 \<Rightarrow> string" where
  "findByPID b i =
     (case b_GetUnitByPID b i of
        None \<Rightarrow> []
      | Some s \<Rightarrow> drop (sz_add (str_rfind s (CHR ''/'')) 1) s)"

section \<open>Handler\<close>

definition systemd_handler :: "string \<Rightarrow> handler_obj" where
  "systemd_handler p_id = \<lparr>h_plugin = ''systemd'', h_file = p_id\<rparr>"

text \<open>
  A stopped unit is a blackout. An active one was restarted: its new main process is added to the
  service, when the service still lives.
\<close>

definition systemd_isBlackout :: "os \<Rightarrow> bus option \<Rightarrow> string \<Rightarrow> 'j service option \<Rightarrow> ('j service option \<times> bool) res" where
  "systemd_isBlackout w bus p_id srv =
     (case bus of
        None \<Rightarrow> Inr (srv, False)
      | Some b \<Rightarrow>
          bindR (dbus_string (b_ActiveState b p_id)) (\<lambda>st.
          if st = ''active'' then
            (case srv of
               None \<Rightarrow> Inr (srv, True)
             | Some s \<Rightarrow>
                 (let i = sd_getPID b p_id in
                  if i = 0 \<or> havePID s i then Inr (srv, True)
                  else bindR (process_of_pid w i) (\<lambda>p.
                    if base_name p = [] then Inr (srv, True)
                    else bindR (updateMainProcess w p s) (\<lambda>s'. Inr (Some s', True)))))
          else Inr (srv, st = ''inactive'')))"

section \<open>Detector\<close>

definition serviceDetector_cfg :: "'j jsonlib \<Rightarrow> 'j \<Rightarrow> 'j" where
  "serviceDetector_cfg J cfg = j_default J ''enable'' (j_bool J True) cm_enable commentAfterOnSameLine cfg"

definition list_default :: "'j jsonlib \<Rightarrow> string \<Rightarrow> string \<Rightarrow> (nat \<times> string \<times> string) list \<Rightarrow> 'j \<Rightarrow> 'j" where
  "list_default J k txt rows cfg =
     (if j_member J cfg k then cfg
      else run_writes J (map (\<lambda>(n, f, v). ([Key k, Idx n, Key f], j_string J v)) rows)
             (j_set J cfg k (j_setComment J (j_array J) txt commentBefore)))"

definition white_rows :: "(nat \<times> string \<times> string) list" where
  "white_rows =
     [(0, ''unit-name'', ''rsyslog_2eservice''), (1, ''unit-name'', ''watched_2eback_2eservice''), (2, ''type'', ''forking''),
      (3, ''type'', ''simple''), (4, ''type'', ''dbus''), (5, ''type'', ''notify''), (5, ''restart'', ''on-failure'')]"

definition black_rows :: "(nat \<times> string \<times> string) list" where
  "black_rows =
     [(0, ''type'', ''dbus''), (0, ''restart'', ''no''), (1, ''unit-name'', ''systemd_2d.*_2eservice'')]"

definition systemdDetector_cfg :: "'j jsonlib \<Rightarrow> 'j \<Rightarrow> 'j" where
  "systemdDetector_cfg J cfg =
     list_default J ''blackList'' (''/*'' @ [CHR 0x09] @ ''Configure the services that should not be detected */'') black_rows
       (list_default J ''whiteList'' (''/*'' @ [CHR 0x09] @ ''Configure the services that could be detected */'') white_rows
         (serviceDetector_cfg J cfg))"

text \<open>One criterion of a line of a list: when the line has it, it alone decides what the line says so far.\<close>

definition criterion :: "'j jsonlib \<Rightarrow> string \<Rightarrow> (string \<Rightarrow> bool) \<Rightarrow> 'j \<Rightarrow> bool \<Rightarrow> bool res" where
  "criterion J k test l matched =
     (if j_member J l k then bindR (j_asString J (j_get J l k)) (\<lambda>x. Inr (test x)) else Inr matched)"

fun sd_match_lines :: "'j jsonlib \<Rightarrow> (string \<Rightarrow> string \<Rightarrow> bool) \<Rightarrow> string \<Rightarrow> string \<Rightarrow> string \<Rightarrow> 'j list \<Rightarrow> bool res" where
  "sd_match_lines J rxm p_small ty re [] = Inr False"
| "sd_match_lines J rxm p_small ty re (l # ls) =
     bindR (criterion J ''unit-name'' (\<lambda>x. rxm x p_small) l False) (\<lambda>m1.
     bindR (criterion J ''type'' (\<lambda>x. ty = x) l m1) (\<lambda>m2.
     bindR (criterion J ''restart'' (\<lambda>x. re = x) l m2) (\<lambda>m3.
     if m3 then Inr True else sd_match_lines J rxm p_small ty re ls)))"

definition unit_path :: "string \<Rightarrow> string" where
  "unit_path p_small = ''/org/freedesktop/systemd1/unit/'' @ p_small"

definition sd_matchList :: "'j jsonlib \<Rightarrow> (string \<Rightarrow> string \<Rightarrow> bool) \<Rightarrow> bus \<Rightarrow> string \<Rightarrow> 'j \<Rightarrow> bool res" where
  "sd_matchList J rxm b p_small p_list =
     bindR (dbus_string (b_Type b (unit_path p_small))) (\<lambda>ty.
     bindR (dbus_string (b_Restart b (unit_path p_small))) (\<lambda>re.
     sd_match_lines J rxm p_small ty re (j_elems J p_list)))"

text \<open>The unit of a line of the introspection, which is the first to the last quotation mark.\<close>

definition node_name :: "string \<Rightarrow> string option res" where
  "node_name line =
     bindR (substr line 1 5) (\<lambda>t.
     if t = ''<node'' \<and> str_find line ''service'' 0 \<noteq> npos then
       (let q = str_find line [CHR 0x22] 0; r = str_rfind line (CHR 0x22) in
        bindR (substr line (sz_add q 1) (sz_sub (sz_sub r q) 1)) (\<lambda>s. Inr (Some s)))
     else Inr None)"

definition give_handler :: "string \<Rightarrow> 'j service \<Rightarrow> 'j service" where
  "give_handler p_id s = (if s_handler s = None then s\<lparr>s_handler := Some (systemd_handler p_id)\<rparr> else s)"

definition wanted_unit :: "'j jsonlib \<Rightarrow> (string \<Rightarrow> string \<Rightarrow> bool) \<Rightarrow> bus \<Rightarrow> 'j \<Rightarrow> string \<Rightarrow> bool res" where
  "wanted_unit J rxm b cfg small =
     (if sd_getPID b (unit_path small) = 0 then Inr False
      else bindR (dbus_string (b_SubState b (unit_path small))) (\<lambda>st.
        if st = ''exited'' \<or> st = ''dead'' \<or> st = [] then Inr False
        else bindR (sd_matchList J rxm b small (j_get J cfg ''whiteList'')) (\<lambda>wl.
          if \<not> wl then Inr False
          else bindR (sd_matchList J rxm b small (j_get J cfg ''blackList'')) (\<lambda>bl. Inr (\<not> bl)))))"

definition add_unit ::
  "'j jsonlib \<Rightarrow> os \<Rightarrow> 'j enhancer list \<Rightarrow> string \<Rightarrow> string \<Rightarrow> u32 \<Rightarrow> 'j manager \<Rightarrow> 'j manager res" where
  "add_unit J w es dir small i m =
     (if mgr_havePID m i
      then bindR (update_firstR (\<lambda>s. havePID s i) (\<lambda>s. Inr (give_handler (unit_path small) s)) (m_services m)) (\<lambda>sv.
           Inr (m\<lparr>m_services := sv\<rparr>))
      else
        bindR (process_of_pid w i) (\<lambda>p.
        if base_name p = [] then Inr m
        else
          (let (s0, cs) = new_service J w (m_counters m) in
           bindR (addMainProcess w p (s0\<lparr>s_uniqName := small\<rparr>)) (\<lambda>s1.
           addService J w es dir (s1\<lparr>s_handler := Some (systemd_handler (unit_path small))\<rparr>) (m\<lparr>m_counters := cs\<rparr>)))))"

definition find_unit ::
  "'j jsonlib \<Rightarrow> os \<Rightarrow> (string \<Rightarrow> string \<Rightarrow> bool) \<Rightarrow> bus \<Rightarrow> 'j enhancer list \<Rightarrow> string \<Rightarrow> 'j \<Rightarrow> string \<Rightarrow> 'j manager \<Rightarrow> 'j manager res" where
  "find_unit J w rxm b es dir cfg line m =
     bindR (node_name line) (\<lambda>n.
     case n of
       None \<Rightarrow> Inr m
     | Some small \<Rightarrow>
         bindR (wanted_unit J rxm b cfg small) (\<lambda>want.
         if want then add_unit J w es dir small (sd_getPID b (unit_path small)) m else Inr m))"

definition systemd_find ::
  "'j jsonlib \<Rightarrow> os \<Rightarrow> (string \<Rightarrow> string \<Rightarrow> bool) \<Rightarrow> bus option \<Rightarrow> 'j enhancer list \<Rightarrow> string \<Rightarrow> 'j \<Rightarrow> 'j manager \<Rightarrow> 'j manager res" where
  "systemd_find J w rxm bus es dir cfg m =
     (case bus of
        None \<Rightarrow> Inr m
      | Some b \<Rightarrow> (case b_Introspect b of
          None \<Rightarrow> Inr m
        | Some xml \<Rightarrow> foldR (find_unit J w rxm b es dir cfg) (getlines xml) m))"

text \<open>
  The connection to the bus, opened by the constructor of the detector and closed by its destructor; \<open>r\<close> is what opening it returns, and an
  error is logged.
\<close>

definition systemd_open :: "(int \<Rightarrow> string) \<Rightarrow> int \<Rightarrow> bus \<Rightarrow> bus option \<times> (string \<times> string) option" where
  "systemd_open strerror r b =
     (if r < 0 then (None, Some (''systemdDetector::'', ''Failed to connect to system bus: '' @ strerror (- r) @ ''. disabling systemD integration.''))
      else (Some b, None))"

definition systemd_close :: "bus option \<Rightarrow> bus option" where
  "systemd_close bus = None"

section \<open>Enhancer\<close>

definition systemd_enhance :: "bus option \<Rightarrow> 'j service \<Rightarrow> 'j service" where
  "systemd_enhance bus s =
     (case (bus, getMainProcess s) of
        (Some b, Some p) \<Rightarrow>
          if s_handler s \<noteq> None then s
          else let name = findByPID b (pid p) in
            if 7 < length name \<and> drop (length name - 7) name = ''service''
            then s\<lparr>s_uniqName := name, s_handler := Some (systemd_handler name)\<rparr>
            else s
      | _ \<Rightarrow> s)"

section \<open>What a run of the detector does\<close>

lemma systemd_enhancer_ok: "enhancer_ok (\<lambda>s. Some (systemd_enhance bus s))"
  by (auto simp: enhancer_ok_def systemd_enhance_def serv_ok_def Let_def split: option.splits)

lemma give_handler_same: "tracked (give_handler p s) = tracked s" "serv_ok s \<Longrightarrow> serv_ok (give_handler p s)"
  by (auto simp: give_handler_def tracked_def serv_ok_def)

lemma add_unit_step:
  assumes "add_unit J w es dir small i m = Inr m'" "mgr_inv ex m" "list_all enhancer_ok es" "alive w i"
  shows "mgr_inv ex m' \<and> keeps_live w m m' \<and>
    ((\<exists>p. process_of_pid w i = Inr p \<and> base_name p \<noteq> []) \<longrightarrow> mgr_havePID m' i)"
proof (cases "mgr_havePID m i")
  case True
  then obtain sv where sv: "update_firstR (\<lambda>s. havePID s i) (\<lambda>s. Inr (give_handler (unit_path small) s)) (m_services m) = Inr sv"
      "m_services m' = sv"
    using assms(1) by (auto simp: add_unit_def bindR_Inr_iff)
  have "tracked s' = tracked s \<and> serv_ok s'"
    if "s \<in> set (m_services m)" "Inr (give_handler (unit_path small) s) = (Inr s' :: 'a service res)" for s s'
    using that assms(2) by (auto simp: mgr_inv_def give_handler_same)
  then have "sr.reg_ok ex sv \<and> owned tracked sv = owned tracked (m_services m)"
    using sr.same_first[OF _ sv(1)] assms(2) by (simp add: mgr_inv_reg)
  then show ?thesis using sv(2) True by (simp add: mgr_inv_reg keeps_live_owned mgr_havePID_owned)
next
  case False
  then obtain p where p: "process_of_pid w i = Inr p" "pid p = i"
    using assms(1) process_of_pid_pid by (auto simp: add_unit_def bindR_Inr_iff)
  show ?thesis
  proof (cases "base_name p = []")
    case True
    then show ?thesis using assms(1,2) p(1) False by (simp add: add_unit_def keeps_live_def)
  next
    case named: False
    obtain s0 cs where n: "new_service J w (m_counters m) = (s0, cs)" by fastforce
    obtain s1 where s1: "addMainProcess w p (s0\<lparr>s_uniqName := small\<rparr>) = Inr s1"
      and add: "addService J w es dir (s1\<lparr>s_handler := Some (systemd_handler (unit_path small))\<rparr>) (m\<lparr>m_counters := cs\<rparr>) = Inr m'"
      using assms(1) False p(1) named n by (auto simp: add_unit_def bindR_Inr_iff)
    have s0: "s_main s0 = []" "s_sub s0 = []" "serv_ok s0"
      using n by (auto simp: new_service_def setDefaultHost_def blank_service_def serv_ok_def split: option.splits)
    let ?s = "s1\<lparr>s_handler := Some (systemd_handler (unit_path small))\<rparr>"
    have s: "s_main ?s = [p]" "s_sub ?s = []" "serv_ok ?s"
      using addMain_empty[OF s1] addMainProcess_step(2)[OF s1] s0 by (simp_all add: same_ident_def serv_ok_def)
    have "mgr_inv ex (m\<lparr>m_counters := cs\<rparr>)" using assms(2) by (simp add: mgr_inv_def)
    moreover have "pid p \<notin> owned tracked (m_services m)" using False p(2) by (simp add: mgr_havePID_owned)
    ultimately show ?thesis
      using addService_step[OF add _ assms(3) s(3,2)] assms(4) s(1) p(2) by (simp add: keeps_live_owned mgr_havePID_owned)
  qed
qed

text \<open>The unit of a line is wanted and its process can be read; its process is tracked.\<close>

definition unit_found :: "'j jsonlib \<Rightarrow> os \<Rightarrow> (string \<Rightarrow> string \<Rightarrow> bool) \<Rightarrow> bus \<Rightarrow> 'j \<Rightarrow> string \<Rightarrow> u32 \<Rightarrow> bool" where
  "unit_found J w rxm b cfg line i \<longleftrightarrow>
     (\<exists>small p. node_name line = Inr (Some small) \<and> wanted_unit J rxm b cfg small = Inr True \<and>
        i = sd_getPID b (unit_path small) \<and> process_of_pid w i = Inr p \<and> base_name p \<noteq> [])"

definition units_alive :: "'j jsonlib \<Rightarrow> os \<Rightarrow> (string \<Rightarrow> string \<Rightarrow> bool) \<Rightarrow> bus \<Rightarrow> 'j \<Rightarrow> string list \<Rightarrow> bool" where
  "units_alive J w rxm b cfg lines \<longleftrightarrow>
     (\<forall>line \<in> set lines. \<forall>small. node_name line = Inr (Some small) \<and> wanted_unit J rxm b cfg small = Inr True
        \<longrightarrow> alive w (sd_getPID b (unit_path small)))"

lemma find_unit_step:
  assumes "find_unit J w rxm b es dir cfg line m = Inr m'" "mgr_inv ex m" "list_all enhancer_ok es" "units_alive J w rxm b cfg [line]"
  shows "mgr_inv ex m' \<and> keeps_live w m m' \<and> (\<forall>i. unit_found J w rxm b cfg line i \<longrightarrow> mgr_havePID m' i)"
proof -
  obtain n where n: "node_name line = Inr n" using assms(1) by (auto simp: find_unit_def bindR_Inr_iff)
  show ?thesis
  proof (cases n)
    case None
    then show ?thesis using assms(1,2) n by (simp add: find_unit_def keeps_live_def unit_found_def)
  next
    case (Some small)
    obtain want where want: "wanted_unit J rxm b cfg small = Inr want"
      using assms(1) n Some by (auto simp: find_unit_def bindR_Inr_iff)
    show ?thesis
    proof (cases want)
      case True
      then have "add_unit J w es dir small (sd_getPID b (unit_path small)) m = Inr m'"
        using assms(1) n Some want by (simp add: find_unit_def)
      from add_unit_step[OF this assms(2,3)] assms(4) n Some want True show ?thesis
        by (auto simp: unit_found_def units_alive_def)
    next
      case False
      then show ?thesis using assms(1,2) n Some want by (simp add: find_unit_def keeps_live_def unit_found_def)
    qed
  qed
qed

lemma find_units_step:
  assumes "foldR (find_unit J w rxm b es dir cfg) lines m = Inr m'" "mgr_inv ex m" "list_all enhancer_ok es"
    and "units_alive J w rxm b cfg lines"
  shows "mgr_inv ex m' \<and> keeps_live w m m' \<and> (\<forall>line \<in> set lines. \<forall>i. unit_found J w rxm b cfg line i \<longrightarrow> mgr_havePID m' i)"
  using assms
proof (induction lines arbitrary: m)
  case (Cons line lines)
  then obtain t where t: "find_unit J w rxm b es dir cfg line m = Inr t" "foldR (find_unit J w rxm b es dir cfg) lines t = Inr m'"
    by (auto simp: bindR_Inr_iff)
  have al: "units_alive J w rxm b cfg [line]" "units_alive J w rxm b cfg lines" using Cons.prems(4) by (simp_all add: units_alive_def)
  note 1 = find_unit_step[OF t(1) Cons.prems(2,3) al(1)]
  have 2: "mgr_inv ex m' \<and> keeps_live w t m' \<and> (\<forall>line \<in> set lines. \<forall>i. unit_found J w rxm b cfg line i \<longrightarrow> mgr_havePID m' i)"
    using Cons.IH[OF t(2) _ Cons.prems(3) al(2)] 1 by blast
  have "mgr_havePID m' i" if "unit_found J w rxm b cfg line i" for i
  proof -
    have "alive w i" using that al(1) by (auto simp: unit_found_def units_alive_def)
    then show ?thesis using 1 2 that by (auto simp: keeps_live_def)
  qed
  then show ?case using 1 2 keeps_live_trans by auto
qed (simp add: keeps_live_def)

text \<open>
  C23: One run of the systemd detector tracks the main process of every unit that is running, on the white list and
  not on the black list, as long as its executable can be read; it loses no running process that was tracked, keeps the
  services well formed and no process in two of them.
\<close>

theorem systemd_find_complete:
  assumes "systemd_find J w rxm (Some b) es dir cfg m = Inr m'" "mgr_ok m" "list_all enhancer_ok es" "b_Introspect b = Some xml"
    and "units_alive J w rxm b cfg (getlines xml)"
  shows "mgr_ok m' \<and> (\<forall>i. mgr_havePID m i \<and> alive w i \<longrightarrow> mgr_havePID m' i) \<and>
    (\<forall>line \<in> set (getlines xml). \<forall>i. unit_found J w rxm b cfg line i \<longrightarrow> mgr_havePID m' i)"
proof -
  have "foldR (find_unit J w rxm b es dir cfg) (getlines xml) m = Inr m'" using assms(1,4) by (simp add: systemd_find_def)
  from find_units_step[OF this assms(2)[unfolded mgr_ok_inv] assms(3,5)] show ?thesis by (simp add: keeps_live_def mgr_ok_inv)
qed

text \<open>
  The criteria of a line of a list are not combined: the last one the line has decides alone. A line of the
  black list with a restart policy excludes every unit with that policy, whatever its name and type; so
  the default line for units of type \<^verbatim>\<open>dbus\<close> that are not restarted excludes every unit that is not restarted.
\<close>

theorem restart_decides:
  assumes "j_elems J (j_get J cfg ''blackList'') = l # ls" "j_member J l ''restart''" "j_asString J (j_get J l ''restart'') = Inr policy"
    and "b_Restart b (unit_path small) = Some policy"
  shows "wanted_unit J rxm b cfg small \<noteq> Inr True"
proof -
  have "sd_match_lines J rxm small ty policy (l # ls) \<noteq> Inr False" for ty
    using assms(2,3) by (auto simp: criterion_def bindR_Inr_iff)
  then have "sd_matchList J rxm b small (j_get J cfg ''blackList'') \<noteq> Inr False"
    using assms(1,4) by (cases "b_Type b (unit_path small)") (simp_all add: sd_matchList_def dbus_string_def del: sd_match_lines.simps)
  then show ?thesis by (auto simp: wanted_unit_def bindR_Inr_iff split: if_splits)
qed

section \<open>The handler the enhancer gives\<close>

lemma findByPID_no_slash:
  assumes "b_GetUnitByPID b i = Some s" "fits s"
  shows "CHR ''/'' \<notin> set (findByPID b i)"
proof (cases "CHR ''/'' \<in> set s")
  case True
  then obtain us vs where s: "s = us @ CHR ''/'' # vs" "CHR ''/'' \<notin> set vs" using split_list_last by metis
  then have "sz_add (length us) 1 = length us + 1" using assms(2) by simp
  then show ?thesis using assms(1) s by (simp add: findByPID_def)
next
  case False
  then show ?thesis using assms(1) sz_add_npos[of 1] by (simp add: findByPID_def str_rfind_none)
qed

text \<open>
  The detector gives a handler the object path of the unit, the enhancer its last component only. A bus
  rejects an object path that does not begin with a slash, so asking such a handler about a blackout makes a text from a
  null pointer.
\<close>

theorem enhanced_handler_undefined:
  assumes "getMainProcess s = Some p" "s_handler s = None" "b_GetUnitByPID b (pid p) = Some unit" "fits unit"
    and "7 < length (findByPID b (pid p))" "drop (length (findByPID b (pid p)) - 7) (findByPID b (pid p)) = ''service''"
    and "\<forall>path. take 1 path \<noteq> ''/'' \<longrightarrow> b_ActiveState b path = None"
  shows "\<exists>h. s_handler (systemd_enhance (Some b) s) = Some h \<and> systemd_isBlackout w (Some b) (h_file h) srv = Inl Undefined"
proof -
  let ?n = "findByPID b (pid p)"
  obtain c cs where c: "?n = c # cs" using assms(5) by (cases ?n) auto
  then have "c \<noteq> CHR ''/''" using findByPID_no_slash[OF assms(3,4)] by auto
  then have "b_ActiveState b ?n = None" using assms(7) c by simp
  then show ?thesis
    using assms(1,2,5,6) by (simp add: systemd_enhance_def systemd_isBlackout_def systemd_handler_def dbus_string_def Let_def)
qed

section \<open>A machine with one unit\<close>

definition demo_bus :: bus where
  "demo_bus = \<lparr>b_ExecMainPID = (\<lambda>_. Some 42), b_ActiveState = (\<lambda>p. if take 1 p = ''/'' then Some ''active'' else None),
     b_SubState = (\<lambda>_. Some ''running''), b_Type = (\<lambda>_. Some ''forking''), b_Restart = (\<lambda>_. Some ''always''),
     b_GetUnitByPID = (\<lambda>_. Some ''/org/freedesktop/systemd1/unit/nginx_2eservice''),
     b_Introspect = Some ('' <node name='' @ [CHR 0x22] @ ''nginx_2eservice'' @ [CHR 0x22] @ ''/>'')\<rparr>"

definition demo_lists :: jv where
  "demo_lists = JObj [(''blackList'', JArr []), (''whiteList'', JArr [JObj [(''type'', JStr ''forking'')]])]"

definition demo_node :: string where
  "demo_node = '' <node name='' @ [CHR 0x22] @ ''nginx_2eservice'' @ [CHR 0x22] @ ''/>''"

lemma demo_node_name: "node_name demo_node = Inr (Some ''nginx_2eservice'')" "getlines demo_node = [demo_node]"
  by (simp_all add: node_name_def demo_node_def str_find_def str_rfind_def npos_def sz_add_def sz_sub_def getlines.simps Let_def)

lemma demo_bus_sel:
  "b_ActiveState demo_bus path = (if take 1 path = ''/'' then Some ''active'' else None)" "b_SubState demo_bus path = Some ''running''"
  "b_Type demo_bus path = Some ''forking''" "b_Restart demo_bus path = Some ''always''"
  "b_GetUnitByPID demo_bus i = Some ''/org/freedesktop/systemd1/unit/nginx_2eservice''" "b_Introspect demo_bus = Some demo_node"
  by (simp_all add: demo_bus_def demo_node_def)

lemma demo_bus_pid: "sd_getPID demo_bus path = 42"
  by (simp add: sd_getPID_def demo_bus_def)

lemma demo_wanted: "wanted_unit ref_json rxm demo_bus demo_lists ''nginx_2eservice'' = Inr True"
  by (simp add: wanted_unit_def demo_bus_pid sd_matchList_def dbus_string_def demo_bus_sel demo_lists_def criterion_def mhas_def)

lemma demo_systemd_found: "\<exists>m'. systemd_find ref_json web_os rxm (Some demo_bus) [] ''/etc'' demo_lists no_services = Inr m'"
proof -
  have "base_name web_process \<noteq> []" by (simp add: web_process_def)
  then show ?thesis
    by (simp add: systemd_find_def demo_bus_sel demo_node_name find_unit_def demo_wanted demo_bus_pid add_unit_def mgr_havePID_def no_services_def
        web_process_of_pid new_service_def setDefaultHost_def web_os_sel blank_service_def addMainProcess_def web_getPPID
        addService_def enhance_all_def saveConfigTemplate_def Let_def)
qed

theorem systemd_find_complete_witness:
  "\<exists>m'. systemd_find ref_json web_os (\<lambda>_ _. False) (Some demo_bus) [] ''/etc'' demo_lists no_services = Inr m' \<and> mgr_havePID m' 42"
proof -
  obtain m' where m': "systemd_find ref_json web_os (\<lambda>_ _. False) (Some demo_bus) [] ''/etc'' demo_lists no_services = Inr m'"
    using demo_systemd_found by blast
  have "mgr_ok no_services" by (simp add: mgr_ok_def no_services_def)
  moreover have "units_alive ref_json web_os (\<lambda>_ _. False) demo_bus demo_lists (getlines demo_node)"
    by (simp add: units_alive_def demo_node_name demo_bus_pid alive_def web_os_sel proc_path_42)
  moreover have "unit_found ref_json web_os (\<lambda>_ _. False) demo_bus demo_lists demo_node 42"
    using web_process_of_pid by (simp add: unit_found_def demo_node_name demo_wanted demo_bus_pid web_process_def)
  ultimately show ?thesis using systemd_find_complete[OF m'] m' by (simp add: demo_bus_sel demo_node_name)
qed

lemma default_black_list:
  "jv_elems (jv_get (systemdDetector_cfg ref_json (JObj [])) ''blackList'') =
     [JObj [(''restart'', JStr ''no''), (''type'', JStr ''dbus'')], JObj [(''unit-name'', JStr ''systemd_2d.*_2eservice'')]]"
  by (simp add: systemdDetector_cfg_def list_default_def serviceDetector_cfg_def j_default_def run_writes_def white_rows_def black_rows_def
      jv_at_def jv_set_at_def Let_def mhas_def)

theorem restart_decides_witness:
  "wanted_unit ref_json (\<lambda>_ _. False) (demo_bus\<lparr>b_Restart := \<lambda>_. Some ''no''\<rparr>) (systemdDetector_cfg ref_json (JObj [])) ''nginx_2eservice'' \<noteq> Inr True"
  using restart_decides[of ref_json "systemdDetector_cfg ref_json (JObj [])" "JObj [(''restart'', JStr ''no''), (''type'', JStr ''dbus'')]"
      "[JObj [(''unit-name'', JStr ''systemd_2d.*_2eservice'')]]" "''no''" "demo_bus\<lparr>b_Restart := \<lambda>_. Some ''no''\<rparr>" "''nginx_2eservice''" "\<lambda>_ _. False"]
  by (simp add: default_black_list mhas_def)

theorem enhanced_handler_undefined_witness:
  "\<exists>h. s_handler (systemd_enhance (Some demo_bus) demo_up) = Some h \<and> systemd_isBlackout demo_os (Some demo_bus) (h_file h) (Some demo_up) = Inl Undefined"
proof -
  have n: "findByPID demo_bus i = ''nginx_2eservice''" for i
    by (simp add: findByPID_def demo_bus_sel str_rfind_def npos_def sz_add_def)
  have "b_GetUnitByPID demo_bus (pid (demo_process 0)) = Some ''/org/freedesktop/systemd1/unit/nginx_2eservice''"
    "getMainProcess demo_up = Some (demo_process 0)" "s_handler demo_up = None"
    by (simp_all add: demo_bus_sel getMainProcess_def demo_up_sel)
  from enhanced_handler_undefined[OF this(2,3,1), of demo_os] show ?thesis by (simp add: n demo_bus_sel)
qed

end
