(* ===== verification/Headers.thy ===== *)
theory Headers
  imports Http
begin

text \<open>
  The container of header fields and query arguments (sws/utility.hpp): an \<^verbatim>\<open>std::unordered_multimap\<close> whose keys are hashed and compared
  without regard to case. The rest of the library keeps the fields as a list and looks them up by comparison alone; here the two
  are shown to agree.
\<close>

unbundle bit_operations_syntax

section \<open>The hash of a key\<close>

text \<open>A character is signed; \<open>hi\<close> is \<^verbatim>\<open>std::hash<int>\<close>.\<close>

definition char_int :: "char \<Rightarrow> int" where
  "char_int c = (let n = (of_char c :: int) in if n < 128 then n else n - 256)"

definition CaseInsensitiveHash :: "(int \<Rightarrow> u64) \<Rightarrow> string \<Rightarrow> u64" where
  "CaseInsensitiveHash hi str =
     fold (\<lambda>c h. h XOR (hi (char_int (lower c)) + 0x9e3779b9 + push_bit 6 h + drop_bit 2 h)) str 0"

section \<open>Buckets\<close>

text \<open>What the standard asks of the two functions of such a container, and what a lookup gives then.\<close>

locale hashed_keys =
  fixes eq :: "'k \<Rightarrow> 'k \<Rightarrow> bool" and hash :: "'k \<Rightarrow> nat"
  assumes eq_refl: "eq x x"
    and eq_sym: "eq x y \<Longrightarrow> eq y x"
    and eq_trans: "eq x y \<Longrightarrow> eq y z \<Longrightarrow> eq x z"
    and eq_hash: "eq x y \<Longrightarrow> hash x = hash y"

text \<open>
  A new element is put at the end of its bucket. The standard leaves the order of elements with equal keys open, so this is one of the orders a hash table may
  have; which of several fields of a name a lookup takes is the parameter of type \<open>selector\<close> of the definitions of the server.
\<close>

definition bucket_insert :: "('k \<Rightarrow> nat) \<Rightarrow> nat \<Rightarrow> 'k \<times> 'v \<Rightarrow> (nat \<Rightarrow> ('k \<times> 'v) list) \<Rightarrow> nat \<Rightarrow> ('k \<times> 'v) list" where
  "bucket_insert hash n kv t = (let b = hash (fst kv) mod n in t(b := t b @ [kv]))"

definition bucket_range :: "('k \<Rightarrow> 'k \<Rightarrow> bool) \<Rightarrow> ('k \<Rightarrow> nat) \<Rightarrow> nat \<Rightarrow> (nat \<Rightarrow> ('k \<times> 'v) list) \<Rightarrow> 'k \<Rightarrow> 'v list" where
  "bucket_range eq hash n t k = map snd (filter (\<lambda>(k', v). eq k' k) (t (hash k mod n)))"

lemma bucket_content:
  "fold (bucket_insert hash n) fs t b = t b @ filter (\<lambda>kv. hash (fst kv) mod n = b) fs"
  by (induction fs arbitrary: t) (auto simp: bucket_insert_def Let_def)

context hashed_keys
begin

lemma range_by_comparison:
  "bucket_range eq hash n (fold (bucket_insert hash n) fs (\<lambda>_. [])) k = map snd (filter (\<lambda>(k', v). eq k' k) fs)"
proof -
  have "filter (\<lambda>(k', v). eq k' k) (filter (\<lambda>kv. hash (fst kv) mod n = hash k mod n) fs) = filter (\<lambda>(k', v). eq k' k) fs"
    by (induction fs) (use eq_hash in auto)
  then show ?thesis by (simp add: bucket_range_def bucket_content del: filter_filter)
qed

end

section \<open>Keys without regard to case\<close>

lemma case_insensitive_lower: "case_insensitive_equal a b \<longleftrightarrow> map lower a = map lower b"
  by (auto simp: case_insensitive_equal_def list_all2_conv_all_nth list_eq_iff_nth_eq)

lemma hash_of_lower: "CaseInsensitiveHash hi str =
    fold (\<lambda>c h. h XOR (hi (char_int c) + 0x9e3779b9 + push_bit 6 h + drop_bit 2 h)) (map lower str) 0"
  by (simp add: CaseInsensitiveHash_def fold_map comp_def)

interpretation fields: hashed_keys case_insensitive_equal "\<lambda>k. unat (CaseInsensitiveHash hi k)" for hi
  by unfold_locales (simp_all add: case_insensitive_lower hash_of_lower)

text \<open>
  C18: The header fields of a message, kept in the buckets of a hash table under the hash of the source, are found as if all of them were compared without regard to
  case: equal keys have equal hashes, whatever hash the library has for numbers and however many buckets there are.
\<close>

theorem fields_found_by_hash:
  "bucket_range case_insensitive_equal (\<lambda>k. unat (CaseInsensitiveHash hi k)) n
     (fold (bucket_insert (\<lambda>k. unat (CaseInsensitiveHash hi k)) n) h (\<lambda>_. [])) k = header_range h k"
  unfolding header_range_def by (rule fields.range_by_comparison)

end
