(* ===== verification/Connections.thy ===== *)
theory Connections
  imports Headers
begin

text \<open>
  A connection to the server of sws/server_http.hpp: the requests read from it one after the other by
  \<^verbatim>\<open>read_request_and_content\<close> and the responses \<^verbatim>\<open>write_response\<close> sends. The socket is the list of the pieces the
  reads get, cut wherever the network likes; its end stands for a closed connection, an error or a timeout alike,
  after each of which the connection is dropped.
\<close>

section \<open>Reading\<close>

text \<open>\<^verbatim>\<open>async_read_until\<close> ends with the first empty line in the buffer, which may hold more than that.\<close>

fun header_cut :: "string \<Rightarrow> (string \<times> string) option" where
  "header_cut [] = None"
| "header_cut (c # cs) =
     (if take 4 (c # cs) = crlf @ crlf then Some (crlf @ crlf, drop 4 (c # cs))
      else map_option (\<lambda>(h, x). (c # h, x)) (header_cut cs))"

fun read_until :: "string \<Rightarrow> string list \<Rightarrow> (string \<times> string \<times> string list) option" where
  "read_until buf segs =
     (case header_cut buf of
        Some (h, x) \<Rightarrow> Some (h, x, segs)
      | None \<Rightarrow> (case segs of [] \<Rightarrow> None | s # ss \<Rightarrow> read_until (buf @ s) ss))"

declare read_until.simps [simp del]

text \<open>\<^verbatim>\<open>transfer_exactly\<close> leaves the rest of a piece in the socket.\<close>

fun read_exactly :: "nat \<Rightarrow> string list \<Rightarrow> string list option" where
  "read_exactly n segs =
     (if n = 0 then Some segs
      else case segs of
        [] \<Rightarrow> None
      | s # ss \<Rightarrow> if n < length s then Some (drop n s # ss) else read_exactly (n - length s) ss)"

declare read_exactly.simps [simp del]

text \<open>The content of a request is read and not used by the agent's handlers.\<close>

definition read_content :: "selector \<Rightarrow> string \<Rightarrow> nat \<Rightarrow> string list \<Rightarrow> string list option" where
  "read_content sel input num_additional_bytes segs =
     (case parse_request input of
        None \<Rightarrow> None
      | Some req \<Rightarrow> (case content_step sel req num_additional_bytes of
          ReadContent n \<Rightarrow> read_exactly n segs
        | Dispatch \<Rightarrow> Some segs
        | ProtocolError \<Rightarrow> None))"

lemma read_until_shorter: "read_until buf segs = Some (h, x, segs') \<Longrightarrow> header_cut buf = None \<Longrightarrow> length segs' < length segs"
proof (induction buf segs rule: read_until.induct)
  case (1 buf segs)
  then obtain s ss where s: "segs = s # ss" "read_until (buf @ s) ss = Some (h, x, segs')"
    by (subst (asm) (2) read_until.simps) (auto split: list.splits)
  show ?case
  proof (cases "header_cut (buf @ s)")
    case None
    then show ?thesis using 1(1)[OF 1(3) s(1,2)] s(1) by simp
  next
    case (Some hx)
    then show ?thesis using s by (subst (asm) read_until.simps) (auto split: prod.splits)
  qed
qed

lemma read_exactly_shorter: "read_exactly n segs = Some segs' \<Longrightarrow> length segs' \<le> length segs"
proof (induction n segs rule: read_exactly.induct)
  case (1 n segs)
  show ?case
  proof (cases segs)
    case Nil
    then show ?thesis using 1(2) by (subst (asm) read_exactly.simps) (auto split: if_splits)
  next
    case (Cons s ss)
    then show ?thesis using 1 by (subst (asm) (2) read_exactly.simps) (auto split: if_splits)
  qed
qed

lemma read_content_shorter: "read_content sel input n segs = Some segs' \<Longrightarrow> length segs' \<le> length segs"
  by (auto simp: read_content_def dest: read_exactly_shorter split: option.splits next_read.splits)

section \<open>A connection\<close>

text \<open>
  The responses sent, in their order. Every request gets a buffer of its own, so that what was read past
  the end of a request is gone when the next one is read.
\<close>

function serve_connection :: "selector \<Rightarrow> regex \<Rightarrow> resource \<Rightarrow> (string, handler) smap \<Rightarrow> string list \<Rightarrow> string list res" where
  "serve_connection sel rx rs defaults segs =
     (case read_until [] segs of
        None \<Rightarrow> Inr []
      | Some (h, x, segs1) \<Rightarrow>
          (case read_content sel (h @ x) (length x) segs1 of
             None \<Rightarrow> Inr []
           | Some segs2 \<Rightarrow>
               bindR (serve_request sel (length x) rx rs defaults (h @ x)) (\<lambda>r.
               case r of
                 None \<Rightarrow> Inr []
               | Some (s, keep) \<Rightarrow>
                   if keep then bindR (serve_connection sel rx rs defaults segs2) (\<lambda>ss. Inr (s # ss)) else Inr [s])))"
  by pat_completeness auto
termination
proof (relation "measure (\<lambda>(sel, rx, rs, defaults, segs). length segs)", goal_cases)
  case (2 sel rx rs defaults segs p h q x segs1 segs2 r y s keep)
  then have "read_until [] segs = Some (h, x, segs1)" "read_content sel (h @ x) (length x) segs1 = Some segs2" by simp_all
  then show ?case using read_until_shorter read_content_shorter by fastforce
qed simp

declare serve_connection.simps [simp del]

section \<open>Where a header ends\<close>

lemma header_cut_append: "header_cut p = Some (h, x) \<Longrightarrow> header_cut (p @ q) = Some (h, x @ q)"
proof (induction p arbitrary: h)
  case (Cons c p)
  show ?case
  proof (cases "take 4 (c # p) = crlf @ crlf")
    case True
    then have "p = [newline, CHR 0x0D, newline] @ drop 3 p" by (cases p; cases "tl p"; cases "tl (tl p)") auto
    then obtain p' where "p = [newline, CHR 0x0D, newline] @ p'" by blast
    then show ?thesis using Cons.prems True by auto
  next
    case False
    then obtain h' where h': "header_cut p = Some (h', x)" "h = c # h'" using Cons.prems by auto
    have "take 4 (c # p @ q) \<noteq> crlf @ crlf"
    proof
      assume a: "take 4 (c # p @ q) = crlf @ crlf"
      have "length p < 3" using False a by (cases "length p < 3") simp_all
      then have "header_cut p = None" by (cases p; cases "tl p"; cases "tl (tl p)") auto
      then show False using h' by simp
    qed
    then show ?thesis using Cons.IH[OF h'(1)] h'(2) by auto
  qed
qed simp

lemma header_cut_line:
  "newline \<notin> set l \<Longrightarrow> header_cut (l @ CHR 0x0D # cs) = map_option (\<lambda>(h, x). (l @ h, x)) (header_cut (CHR 0x0D # cs))"
proof (induction l)
  case Nil
  show ?case by (cases "header_cut (CHR 0x0D # cs)") auto
next
  case (Cons c l)
  have "take 4 (c # l @ CHR 0x0D # cs) \<noteq> crlf @ crlf" using Cons.prems by (cases l) auto
  then show ?case using Cons by (cases "header_cut (CHR 0x0D # cs)") (auto simp del: header_cut.simps simp: header_cut.simps(2)[of c])
qed

lemma header_cut_lines:
  assumes "ls \<noteq> []" "\<forall>l \<in> set ls. newline \<notin> set l \<and> l \<noteq> []"
  shows "header_cut (concat (map (\<lambda>l. l @ crlf) ls) @ crlf @ rest) = Some (concat (map (\<lambda>l. l @ crlf) ls) @ crlf, rest)"
  using assms
proof (induction ls rule: list_nonempty_induct)
  case (single l)
  then show ?case using header_cut_line[of l "newline # crlf @ rest"] by (simp add: eval_nat_numeral)
next
  case (cons l ls)
  let ?cs = "concat (map (\<lambda>l. l @ crlf) ls) @ crlf @ rest"
  obtain l2 ls2 where l2: "ls = l2 # ls2" "newline \<notin> set l2" "l2 \<noteq> []" using cons by (cases ls) auto
  then have "take 2 ?cs \<noteq> crlf" by (cases l2; cases "tl l2") auto
  then have "header_cut (CHR 0x0D # newline # ?cs) = map_option (\<lambda>(h, x). (CHR 0x0D # newline # h, x)) (header_cut ?cs)"
    by (cases "header_cut ?cs") (auto simp: eval_nat_numeral)
  moreover have "header_cut ?cs = Some (concat (map (\<lambda>l. l @ crlf) ls) @ crlf, rest)" using cons by simp
  ultimately show ?case using header_cut_line[of l "newline # ?cs"] cons.prems by simp
qed

lemma header_cut_request:
  assumes "sendable meth path version h"
  shows "header_cut (request_text meth path version h @ rest) = Some (request_text meth path version h, rest)"
proof -
  let ?ls = "(meth @ '' '' @ path @ '' HTTP/'' @ version) # map (\<lambda>(k, v). k @ '': '' @ v) h"
  have "concat (map (\<lambda>l. l @ crlf) ?ls) @ crlf = request_text meth path version h"
    by (simp add: request_text_def header_line_def case_prod_unfold comp_def)
  moreover have "\<forall>l \<in> set ?ls. newline \<notin> set l \<and> l \<noteq> []"
    using assms by (auto simp: sendable_def list_all_iff)
  ultimately show ?thesis using header_cut_lines[of ?ls rest] by (metis append.assoc list.discI)
qed

text \<open>The pieces of a header: it is complete with the first piece that makes the buffer hold an empty line.\<close>

lemma header_cut_none: "header_cut (p @ q) = None \<Longrightarrow> header_cut p = None"
  using header_cut_append[of p _ _ q] by (cases "header_cut p") auto

lemma read_until_pieces:
  "header_cut (buf @ concat pre) = None \<Longrightarrow> header_cut (buf @ concat pre @ s) = Some (h, x) \<Longrightarrow>
   read_until buf (pre @ s # rest) = Some (h, x, rest)"
proof (induction pre arbitrary: buf)
  case Nil
  then show ?case by (simp add: read_until.simps[of buf] read_until.simps[of "buf @ s"])
next
  case (Cons p pre)
  then show ?case using header_cut_none[of buf "p @ concat pre"] by (simp add: read_until.simps[of buf])
qed

lemma read_until_none: "header_cut (buf @ concat ss) = None \<Longrightarrow> read_until buf ss = None"
proof (induction ss arbitrary: buf)
  case Nil
  then show ?case by (simp add: read_until.simps)
next
  case (Cons s ss)
  then show ?case using header_cut_none[of buf "concat (s # ss)"] by (simp add: read_until.simps[of buf])
qed

lemma header_piece:
  "header_cut (concat pre) \<noteq> None \<Longrightarrow>
   \<exists>pre1 s pre2. pre = pre1 @ s # pre2 \<and> header_cut (concat pre1) = None \<and> header_cut (concat pre1 @ s) \<noteq> None"
proof (induction pre rule: rev_induct)
  case (snoc s pre)
  show ?case
  proof (cases "header_cut (concat pre)")
    case None
    then show ?thesis using snoc.prems by (intro exI[of _ pre] exI[of _ s] exI[of _ "[]"]) simp
  next
    case (Some hx)
    then obtain pre1 s' pre2 where "pre = pre1 @ s' # pre2" "header_cut (concat pre1) = None" "header_cut (concat pre1 @ s') \<noteq> None"
      using snoc.IH by blast
    then show ?thesis by (intro exI[of _ pre1] exI[of _ s'] exI[of _ "pre2 @ [s]"]) simp
  qed
qed simp

lemma read_exactly_pieces:
  "p \<noteq> [] \<Longrightarrow> read_exactly (length (concat pre @ p)) (pre @ (p @ q) # rest) = Some (if q = [] then rest else q # rest)"
proof (induction pre)
  case Nil
  then show ?case by (cases "q = []") (simp_all add: read_exactly.simps[of "length p"] read_exactly.simps[of 0])
next
  case (Cons s pre)
  then show ?case by (simp add: read_exactly.simps[of "length s + (length (concat pre) + length p)"])
qed

section \<open>Requests one after the other\<close>

text \<open>What a client expects: each request answered in turn until one closes the connection.\<close>

fun one_by_one :: "('t \<Rightarrow> (string \<times> bool) option res) \<Rightarrow> 't list \<Rightarrow> string list res" where
  "one_by_one f [] = Inr []"
| "one_by_one f (t # ts) =
     bindR (f t) (\<lambda>r. case r of
       None \<Rightarrow> Inr []
     | Some (s, keep) \<Rightarrow> if keep then bindR (one_by_one f ts) (\<lambda>ss. Inr (s # ss)) else Inr [s])"

text \<open>The header \<open>t\<close> and the content \<open>c\<close> of a request: without a length there is no content, otherwise the length given is that of the content.\<close>

definition complete_request :: "selector \<Rightarrow> string \<Rightarrow> string \<Rightarrow> bool" where
  "complete_request sel t c \<longleftrightarrow>
     (\<exists>meth path version h. t = request_text meth path version h \<and> sendable meth path version h \<and>
        (case header_find sel h ''Content-Length'' of None \<Rightarrow> c = [] | Some v \<Rightarrow> stoull v = Inr (length c)))"

text \<open>
  How the bytes of requests come out of the network, in pieces cut anywhere. The last piece of a request is \<open>p @ q\<close>, where \<open>q\<close> is what
  lies behind the end of the request. If its header was not complete before this piece, \<open>q\<close> is gone and the next
  request is what comes with the pieces after it; otherwise the content was read to its length, and \<open>q\<close> comes first. At the end there may be the beginning of a header.
\<close>

inductive arrivals :: "selector \<Rightarrow> (string \<times> string) list \<Rightarrow> string list \<Rightarrow> bool" for sel where
  silence: "header_cut (concat segs) = None \<Longrightarrow> arrivals sel [] segs"
| tail_dropped: "complete_request sel t c \<Longrightarrow> concat pre @ p = t @ c \<Longrightarrow> header_cut (concat pre) = None \<Longrightarrow>
    arrivals sel ts rest \<Longrightarrow> arrivals sel ((t, c) # ts) (pre @ (p @ q) # rest)"
| tail_kept: "complete_request sel t c \<Longrightarrow> concat pre @ p = t @ c \<Longrightarrow> header_cut (concat pre) \<noteq> None \<Longrightarrow> p \<noteq> [] \<Longrightarrow>
    arrivals sel ts (q # rest) \<Longrightarrow> arrivals sel ((t, c) # ts) (pre @ (p @ q) # rest)"

lemma arrivals_empty_piece: "arrivals sel ts segs \<Longrightarrow> arrivals sel ts ([] # segs)"
proof (induction rule: arrivals.cases)
  case (silence segs)
  then show ?case using arrivals.silence[of "[] # segs"] by simp
next
  case (tail_dropped t c pre p ts rest q)
  then show ?case using arrivals.tail_dropped[of sel t c "[] # pre" p ts rest q] by simp
next
  case (tail_kept t c pre p ts q rest)
  then show ?case using arrivals.tail_kept[of sel t c "[] # pre" p ts q rest] by simp
qed

lemma complete_request_read:
  assumes "complete_request sel t c"
  shows "header_cut (t @ x) = Some (t, x)" "t \<noteq> []"
    "read_content sel (t @ x) (length x) segs = (if length x < length c then read_exactly (length c - length x) segs else Some segs)"
    "serve_request sel n rx rs defaults (t @ x) = serve_request sel (length c) rx rs defaults (t @ c)"
proof -
  obtain meth path version h where t: "t = request_text meth path version h" "sendable meth path version h"
      "case header_find sel h ''Content-Length'' of None \<Rightarrow> c = [] | Some v \<Rightarrow> stoull v = Inr (length c)"
    using assms unfolding complete_request_def by blast
  show "header_cut (t @ x) = Some (t, x)" using header_cut_request[OF t(2)] t(1) by simp
  show "t \<noteq> []" by (simp add: t(1) request_text_def)
  have p: "parse_request (t @ x) = Some \<lparr>r_method = meth, r_path = path, r_http_version = version, r_header = h, r_path_match = None\<rparr>" for x
    using parse_request_text[OF t(2), of x] t(1) by simp
  show "read_content sel (t @ x) (length x) segs = (if length x < length c then read_exactly (length c - length x) segs else Some segs)"
    using t(3) by (auto simp: read_content_def p content_step_def split: option.splits)
  show "serve_request sel n rx rs defaults (t @ x) = serve_request sel (length c) rx rs defaults (t @ c)"
    using t(3) p[of x] p[of c] by (auto simp: serve_request_def content_step_def split: option.splits)
qed

lemma serve_empty_piece: "serve_connection sel rx rs defaults ([] # segs) = serve_connection sel rx rs defaults segs"
  by (simp add: serve_connection.simps[of _ _ _ _ "[] # segs"] serve_connection.simps[of _ _ _ _ segs] read_until.simps[of "[]" "[] # segs"])

lemma serve_next:
  assumes "complete_request sel t c" "read_until [] segs = Some (t, x, segs1)" "read_content sel (t @ x) (length x) segs1 = Some segs2"
    and "serve_connection sel rx rs defaults segs2 = one_by_one (\<lambda>(t, c). serve_request sel (length c) rx rs defaults (t @ c)) ts"
  shows "serve_connection sel rx rs defaults segs =
    one_by_one (\<lambda>(t, c). serve_request sel (length c) rx rs defaults (t @ c)) ((t, c) # ts)"
  unfolding one_by_one.simps assms(4)[symmetric]
  using assms(2,3) complete_request_read(4)[OF assms(1), of "length x" rx rs defaults x] by (subst serve_connection.simps) simp

lemma arrivals_served:
  "arrivals sel ts segs \<Longrightarrow>
   serve_connection sel rx rs defaults segs = one_by_one (\<lambda>(t, c). serve_request sel (length c) rx rs defaults (t @ c)) ts"
proof (induction rule: arrivals.induct)
  case (silence segs)
  then have "read_until [] segs = None" using read_until_none[of "[]" segs] by simp
  then show ?case by (simp add: serve_connection.simps)
next
  case (tail_dropped t c pre p ts rest q)
  note r = complete_request_read[OF tail_dropped.hyps(1)]
  have "header_cut ([] @ concat pre @ p @ q) = Some (t, c @ q)" using r(1)[of "c @ q"] tail_dropped.hyps(2) by (metis append.assoc append_Nil)
  with tail_dropped.hyps(3) have "read_until [] (pre @ (p @ q) # rest) = Some (t, c @ q, rest)"
    using read_until_pieces[of "[]" pre "p @ q" t "c @ q" rest] by simp
  moreover have "read_content sel (t @ c @ q) (length (c @ q)) rest = Some rest" using r(3)[of "c @ q" rest] by simp
  ultimately show ?case by (rule serve_next[OF tail_dropped.hyps(1) _ _ tail_dropped.IH])
next
  case (tail_kept t c pre p ts q rest)
  note r = complete_request_read[OF tail_kept.hyps(1)]
  obtain pre1 s pre2 where pre: "pre = pre1 @ s # pre2" "header_cut (concat pre1) = None" "header_cut (concat pre1 @ s) \<noteq> None"
    using header_piece[OF tail_kept.hyps(3)] by blast
  then obtain t' x where x: "header_cut (concat pre1 @ s) = Some (t', x)" by auto
  have "Some (t', x @ concat pre2 @ p) = header_cut (t @ c)"
    using header_cut_append[OF x, of "concat pre2 @ p"] tail_kept.hyps(2) by (simp add: pre(1))
  then have t': "t' = t" and c: "c = x @ concat pre2 @ p" using r(1)[of c] by simp_all
  have "read_until [] (pre @ (p @ q) # rest) = Some (t, x, pre2 @ (p @ q) # rest)"
    using read_until_pieces[of "[]" pre1 s t x "pre2 @ (p @ q) # rest"] pre x t' by simp
  moreover have "read_content sel (t @ x) (length x) (pre2 @ (p @ q) # rest) = Some (if q = [] then rest else q # rest)"
    using r(3)[of x "pre2 @ (p @ q) # rest"] read_exactly_pieces[OF tail_kept.hyps(4), of pre2 q rest] tail_kept.hyps(4) by (simp add: c)
  moreover have "serve_connection sel rx rs defaults (if q = [] then rest else q # rest) =
      one_by_one (\<lambda>(t, c). serve_request sel (length c) rx rs defaults (t @ c)) ts"
    using tail_kept.IH serve_empty_piece[of sel rx rs defaults rest] by (cases "q = []") simp_all
  ultimately show ?case by (rule serve_next[OF tail_kept.hyps(1)])
qed

text \<open>A client that waits for an answer before it sends again: no piece has bytes of two requests.\<close>

lemma arrivals_waiting:
  "list_all2 (\<lambda>(t, c) ss. complete_request sel t c \<and> concat ss = t @ c \<and> [] \<notin> set ss) ts sss \<Longrightarrow> arrivals sel ts (concat sss)"
proof (induction ts sss rule: list_all2_induct)
  case Nil
  then show ?case using arrivals.silence[of "[]" sel] by simp
next
  case (Cons tc ts ss sss)
  obtain t c where tc: "tc = (t, c)" by fastforce
  have a: "complete_request sel t c" "concat ss = t @ c" "[] \<notin> set ss" using Cons.hyps(1) tc by auto
  then have "ss \<noteq> []" using complete_request_read(2)[OF a(1)] by auto
  then have s: "ss = butlast ss @ [last ss]" by simp
  have l: "last ss \<noteq> []" using a(3) last_in_set[OF \<open>ss \<noteq> []\<close>] by metis
  have e: "concat (butlast ss) @ last ss = t @ c" using a(2) s by (metis append_Nil2 concat.simps concat_append)
  have c: "concat (ss # sss) = butlast ss @ (last ss @ []) # concat sss" using s by (metis append.assoc append_Cons append_Nil append_Nil2 concat.simps(2))
  show ?case unfolding tc c
    using arrivals.tail_dropped[OF a(1) e _ Cons.IH, of "[]"] arrivals.tail_kept[OF a(1) e _ l arrivals_empty_piece[OF Cons.IH]] by blast
qed

text \<open>
  C8: the requests of a connection, with a content or without, are answered one after the other in their order until one of them closes the connection.
  First, for a client that waits for each answer: however the network cuts each request into pieces, every one is answered. Second, for pieces cut anywhere, so that a
  piece may have bytes of several requests: what lies behind the end of a request is dropped exactly when it comes with the piece that completes the header of this request,
  and the requests answered are those that remain, provided that a request begins again after what was dropped.
\<close>

theorem connection_in_order:
  "(list_all2 (\<lambda>(t, c) ss. complete_request sel t c \<and> concat ss = t @ c \<and> [] \<notin> set ss) ts sss \<longrightarrow>
      serve_connection sel rx rs defaults (concat sss) = one_by_one (\<lambda>(t, c). serve_request sel (length c) rx rs defaults (t @ c)) ts) \<and>
   (arrivals sel ts segs \<longrightarrow>
      serve_connection sel rx rs defaults segs = one_by_one (\<lambda>(t, c). serve_request sel (length c) rx rs defaults (t @ c)) ts)"
  using arrivals_served arrivals_waiting by blast

text \<open>
  A request that arrives in the same piece as the one before it is never answered: what is read past the end of a request is
  dropped with its buffer.
\<close>

theorem pipelined_lost:
  assumes "complete_request sel t []" "serve_request sel 0 rx rs defaults t = Inr (Some (s, keep))"
  shows "serve_connection sel rx rs defaults [t @ later] = Inr [s]"
proof -
  have "arrivals sel [(t, [])] ([] @ (t @ later) # [])"
    using assms(1) by (rule arrivals.tail_dropped) (simp_all add: arrivals.silence)
  from arrivals_served[OF this] show ?thesis using assms(2) by simp
qed

section \<open>A connection with several requests\<close>

definition ping :: string where
  "ping = request_text ''GET'' ''/ping'' ''1.1'' []"

definition post :: string where
  "post = request_text ''POST'' ''/ping'' ''1.1'' [(''Content-Length'', ''5'')]"

definition pong_routes :: "(string, handler) smap" where
  "pong_routes = [(''GET'', \<lambda>req. Inr ''pong''), (''POST'', \<lambda>req. Inr ''posted'')]"

lemma stoull_to_string:
  assumes "n < 2 ^ 64"
  shows "stoull (to_string n) = Inr n"
  using dropWhile_show_nat[of 10 n "[]"] scan_sign_show_nat[of 10 n "[]"] scan_show_nat[of 10 "[]" n] show_nat_nonempty[of 10 n] assms
  by (simp add: stoull_def no_digit_first_def del: show_nat_nonempty)

lemma five_read: "stoull ''5'' = Inr 5"
  using stoull_to_string[of 5] by (simp add: show_nat.simps digit_char_def)

lemma pings_complete: "complete_request hd ping []" "complete_request hd post ''hello''"
proof -
  have p: "sendable ''GET'' ''/ping'' ''1.1'' []" "header_find hd [] ''Content-Length'' = None"
    "sendable ''POST'' ''/ping'' ''1.1'' [(''Content-Length'', ''5'')]"
    "header_find hd [(''Content-Length'', ''5'')] ''Content-Length'' = Some ''5''"
    by (simp_all add: sendable_def header_find_def case_insensitive_equal_def)
  have "stoull ''5'' = Inr (length ''hello'')" using five_read by simp
  then show "complete_request hd ping []" "complete_request hd post ''hello''"
    using p unfolding complete_request_def ping_def post_def by fastforce+
qed

lemma pings_served:
  "serve_request hd n regex [] pong_routes ping = Inr (Some (''pong'', True))"
  "serve_request hd n regex [] pong_routes (post @ ''hello'') = Inr (Some (''posted'', True))"
proof -
  have "parse_request ping = Some \<lparr>r_method = ''GET'', r_path = ''/ping'', r_http_version = ''1.1'', r_header = [], r_path_match = None\<rparr>"
    using parse_request_text[of "''GET''" "''/ping''" "''1.1''" "[]" "[]"] by (simp add: ping_def sendable_def)
  then show "serve_request hd n regex [] pong_routes ping = Inr (Some (''pong'', True))"
    by (simp add: serve_request_def content_step_def header_find_def find_resource_def pong_routes_def write_response_def
      keep_connection_def header_range_def)
  have "parse_request (post @ ''hello'') = Some \<lparr>r_method = ''POST'', r_path = ''/ping'', r_http_version = ''1.1'',
      r_header = [(''Content-Length'', ''5'')], r_path_match = None\<rparr>"
    using parse_request_text[of "''POST''" "''/ping''" "''1.1''" "[(''Content-Length'', ''5'')]" "''hello''"]
    by (simp add: post_def sendable_def)
  moreover have "content_step hd \<lparr>r_method = ''POST'', r_path = ''/ping'', r_http_version = ''1.1'',
      r_header = [(''Content-Length'', ''5'')], r_path_match = None\<rparr> n \<noteq> ProtocolError"
    using five_read by (simp add: content_step_def header_find_def case_insensitive_equal_def)
  ultimately show "serve_request hd n regex [] pong_routes (post @ ''hello'') = Inr (Some (''posted'', True))"
    by (simp add: serve_request_def find_resource_def pong_routes_def write_response_def
      keep_connection_def header_range_def case_insensitive_equal_def)
qed

text \<open>
  A request with a content whose last piece has the beginning of the next request, which is kept; the piece that completes that request
  has another one behind it, which is dropped; the fourth is answered, and then a header begins.
\<close>

definition demo_pieces :: "string list" where
  "demo_pieces = [take 7 post, drop 7 post @ ''he'', ''llo'' @ take 3 ping, drop 3 ping @ ping, ping, ''GET'']"

lemma demo_arrivals: "arrivals hd [(post, ''hello''), (ping, []), (ping, [])] demo_pieces"
proof -
  have 0: "arrivals hd [] [''GET'']" by (rule arrivals.silence) simp
  have 1: "arrivals hd [(ping, [])] ([] @ (ping @ []) # [''GET''])"
    by (rule arrivals.tail_dropped[OF pings_complete(1) _ _ 0]) simp_all
  have 2: "arrivals hd [(ping, []), (ping, [])] ([take 3 ping] @ (drop 3 ping @ ping) # [ping, ''GET''])"
    using 1 by (intro arrivals.tail_dropped[OF pings_complete(1)]) (simp_all add: ping_def request_text_def)
  have h: "header_cut (concat [take 7 post, drop 7 post @ ''he'']) \<noteq> None"
    using complete_request_read(1)[OF pings_complete(2), of "''he''"] by (simp flip: append.assoc)
  have "arrivals hd [(post, ''hello''), (ping, []), (ping, [])]
      ([take 7 post, drop 7 post @ ''he''] @ (''llo'' @ take 3 ping) # [drop 3 ping @ ping, ping, ''GET''])"
    using 2 by (intro arrivals.tail_kept[OF pings_complete(2) _ h]) simp_all
  then show ?thesis by (simp add: demo_pieces_def)
qed

theorem connection_in_order_witness:
  "serve_connection hd (\<lambda>_ _. None) [] pong_routes (concat [[take 7 post, drop 7 post @ ''hello''], [take 7 ping, drop 7 ping]]) = Inr [''posted'', ''pong''] \<and>
   serve_connection hd (\<lambda>_ _. None) [] pong_routes demo_pieces = Inr [''posted'', ''pong'', ''pong'']"
proof -
  have "list_all2 (\<lambda>(t, c) ss. complete_request hd t c \<and> concat ss = t @ c \<and> [] \<notin> set ss) [(post, ''hello''), (ping, [])]
      [[take 7 post, drop 7 post @ ''hello''], [take 7 ping, drop 7 ping]]"
    using pings_complete by (simp add: append_take_drop_id flip: append.assoc) (simp add: ping_def post_def request_text_def)
  from connection_in_order[THEN conjunct1, rule_format, OF this, of "\<lambda>_ _. None" "[]" pong_routes]
    connection_in_order[THEN conjunct2, rule_format, OF demo_arrivals, of "\<lambda>_ _. None" "[]" pong_routes]
  show ?thesis by (simp add: pings_served)
qed

theorem pipelined_lost_witness: "serve_connection hd (\<lambda>_ _. None) [] pong_routes [ping @ ping] = Inr [''pong'']"
  using pipelined_lost[OF pings_complete(1) pings_served(1), where later = ping] .

end
