(* ===== verification/TlsServer.thy ===== *)
theory TlsServer
  imports Connections Settings
begin

text \<open>
  The servers the agent can run: the configuration of a server of the library and its start (sws/server_http.hpp), the
  encrypted one (sws/server_https.hpp), and the constructor of \<^verbatim>\<open>HttpServer\<close> that makes one of them (src/server.cpp). OpenSSL is a
  parameter: \<open>ssllib\<close> tells which files it can load, and a handshake is a function of the context and the peer that gives an error
  or nothing.
\<close>

section \<open>Configuration of a server\<close>

record server_config =
  sc_port :: u16
  sc_thread_pool_size :: size_t
  sc_timeout_request :: size_t
  sc_timeout_content :: size_t
  sc_address :: string
  sc_reuse_address :: bool

definition default_config :: "u16 \<Rightarrow> server_config" where
  "default_config prt = \<lparr>sc_port = prt, sc_thread_pool_size = 1, sc_timeout_request = 5, sc_timeout_content = 300,
     sc_address = [], sc_reuse_address = True\<rparr>"

text \<open>The constructors that the agent uses; a port that does not fit is cut to sixteen bits at the call.\<close>

definition server_of :: "u16 \<Rightarrow> int \<Rightarrow> size_t \<Rightarrow> size_t \<Rightarrow> size_t \<Rightarrow> server_config" where
  "server_of default_port prt thread_pool_size timeout_request timeout_content =
     (default_config default_port)\<lparr>sc_port := word_of_int prt, sc_thread_pool_size := thread_pool_size,
        sc_timeout_request := timeout_request, sc_timeout_content := timeout_content\<rparr>"

text \<open>
  What a started server does: it listens on an address, and runs the io service in as many threads, the calling one included, as
  its configuration says. \<open>from_string\<close> reads an address and throws for a text that is none.
\<close>

record 'a listening =
  li_address :: 'a
  li_port :: u16
  li_reuse_address :: bool
  li_runners :: nat

definition server_start :: "(string \<Rightarrow> 'a res) \<Rightarrow> 'a \<Rightarrow> server_config \<Rightarrow> 'a listening res" where
  "server_start from_string any_v4 c =
     bindR (if 0 < length (sc_address c) then from_string (sc_address c) else Inr any_v4) (\<lambda>a.
     Inr \<lparr>li_address = a, li_port = sc_port c, li_reuse_address = sc_reuse_address c,
       li_runners = length [1..<sc_thread_pool_size c] + (if 0 < sc_thread_pool_size c then 1 else 0)\<rparr>)"

section \<open>Encryption\<close>

datatype verify_flag = Verify_peer | Verify_fail_if_no_peer_cert | Verify_client_once

record ssl_context =
  ctx_certificate :: "string option"
  ctx_private_key :: "string option"
  ctx_verify_host :: "string option"
  ctx_verify_file :: "string option"
  ctx_default_paths :: bool
  ctx_verify_mode :: "verify_flag list"

definition new_context :: ssl_context where
  "new_context = \<lparr>ctx_certificate = None, ctx_private_key = None, ctx_verify_host = None, ctx_verify_file = None,
     ctx_default_paths = False, ctx_verify_mode = []\<rparr>"

record ssllib =
  ssl_certificate_ok :: "string \<Rightarrow> bool"
  ssl_key_ok :: "string \<Rightarrow> bool"
  ssl_verify_ok :: "string \<Rightarrow> bool"

definition use_certificate_chain_file :: "ssllib \<Rightarrow> string \<Rightarrow> ssl_context \<Rightarrow> ssl_context res" where
  "use_certificate_chain_file ssl f c = (if ssl_certificate_ok ssl f then Inr (c\<lparr>ctx_certificate := Some f\<rparr>) else Inl SystemError)"

definition use_private_key_file :: "ssllib \<Rightarrow> string \<Rightarrow> ssl_context \<Rightarrow> ssl_context res" where
  "use_private_key_file ssl f c = (if ssl_key_ok ssl f then Inr (c\<lparr>ctx_private_key := Some f\<rparr>) else Inl SystemError)"

definition load_verify_file :: "ssllib \<Rightarrow> string \<Rightarrow> ssl_context \<Rightarrow> ssl_context res" where
  "load_verify_file ssl f c = (if ssl_verify_ok ssl f then Inr (c\<lparr>ctx_verify_file := Some f\<rparr>) else Inl SystemError)"

text \<open>The context of the encrypted server, and whether it has a session identifier.\<close>

definition server_context :: "ssllib \<Rightarrow> string \<Rightarrow> string \<Rightarrow> string \<Rightarrow> (ssl_context \<times> bool) res" where
  "server_context ssl cert_file private_key_file verify_file =
     bindR (use_certificate_chain_file ssl cert_file new_context) (\<lambda>c1.
     bindR (use_private_key_file ssl private_key_file c1) (\<lambda>c2.
     if 0 < length verify_file then
       bindR (load_verify_file ssl verify_file c2) (\<lambda>c3.
       Inr (c3\<lparr>ctx_verify_mode := [Verify_peer, Verify_fail_if_no_peer_cert, Verify_client_once]\<rparr>, True))
     else Inr (c2, False)))"

text \<open>\<open>max_len\<close> is the longest identifier OpenSSL takes.\<close>

definition session_id_context :: "nat \<Rightarrow> server_config \<Rightarrow> string" where
  "session_id_context max_len c =
     (let s = to_string (unat (sc_port c)) @ '':'' @ rev (sc_address c) in take (min (length s) max_len) s)"

section \<open>The server of the agent\<close>

datatype agent_server = Plain server_config | Encrypted server_config ssl_context bool

definition new_HttpServer ::
  "'j jsonlib \<Rightarrow> installed \<Rightarrow> ssllib \<Rightarrow> os \<Rightarrow> 'j \<Rightarrow> 'j \<Rightarrow> (agent_server \<times> 'j logger) res" where
  "new_HttpServer J inst ssl w cfg logcfg =
     bindR (j_asInt J (j_get J cfg ''port'')) (\<lambda>port_i.
     bindR (server_useSSL J w cfg) (\<lambda>useSSL.
     bindR (new_log J inst logcfg) (\<lambda>l.
     if useSSL then
       bindR (j_asString J (j_get J cfg ''SSL_key'')) (\<lambda>sslkey.
       bindR (j_asString J (j_get J cfg ''SSL_cert'')) (\<lambda>sslcert.
       bindR (j_asString J (j_get J cfg ''SSL_verify'')) (\<lambda>sslvrf.
       bindR (server_context ssl sslcert sslkey sslvrf) (\<lambda>(ctx, sid).
       bindR (j_asString J (j_get J cfg ''host'')) (\<lambda>host.
       Inr (Encrypted ((server_of 443 port_i 1 5 300)\<lparr>sc_address := host\<rparr>) ctx sid, l))))))
     else
       bindR (j_asString J (j_get J cfg ''host'')) (\<lambda>host.
       Inr (Plain ((server_of 80 port_i 1 5 300)\<lparr>sc_address := host\<rparr>), l)))))"

text \<open>The start of the agent's server: what it listens on and, when it is encrypted, the identifier of its sessions.\<close>

definition HttpServer_start :: "(string \<Rightarrow> 'a res) \<Rightarrow> 'a \<Rightarrow> nat \<Rightarrow> agent_server \<Rightarrow> (string option \<times> 'a listening) res" where
  "HttpServer_start from_string any_v4 max_len srv =
     (case srv of
        Plain c \<Rightarrow> bindR (server_start from_string any_v4 c) (\<lambda>li. Inr (None, li))
      | Encrypted c ctx sid \<Rightarrow>
          bindR (server_start from_string any_v4 c) (\<lambda>li. Inr (if sid then Some (session_id_context max_len c) else None, li)))"

section \<open>Accepting a connection\<close>

text \<open>
  An error of the system: its message and, when it is one of OpenSSL, the numbers of the library, the function and the
  reason, and OpenSSL's own text.
\<close>

record error_code =
  ec_message :: string
  ec_ssl :: "(nat \<times> nat \<times> nat \<times> string) option"

definition https_error_text :: "error_code \<Rightarrow> string" where
  "https_error_text ec =
     (case ec_ssl ec of
        None \<Rightarrow> ec_message ec
      | Some (lib, func, reason, txt) \<Rightarrow>
          '' ('' @ to_string lib @ '','' @ to_string func @ '','' @ to_string reason @ '') '' @ take 127 txt)"

definition https_on_error :: "error_code \<Rightarrow> string \<Rightarrow> request \<Rightarrow> (string \<times> string) option" where
  "https_on_error ec remote req =
     (let err = https_error_text ec in
      if err = ''Operation aborted.'' \<and> r_path req = [] \<and> r_http_version req = [] then None
      else Some (''HttpServer::httpsOnError'',
        err @ '' for (R)'' @ remote @ '' -> '' @ r_method req @ ''('' @ r_http_version req @ ''):'' @ r_path req))"

definition no_request :: request where
  "no_request = \<lparr>r_method = [], r_path = [], r_http_version = [], r_header = [], r_path_match = None\<rparr>"

text \<open>
  The answers a new connection gets, and what is logged when it does not come to requests. \<open>accepted\<close> is the error of
  accepting it, if there was one, and \<open>handshake\<close> that of the handshake with the peer.
\<close>

definition http_accept :: "error_code option \<Rightarrow> string \<Rightarrow> string list res \<Rightarrow> string list res \<times> (string \<times> string) option" where
  "http_accept accepted remote requests =
     (case accepted of None \<Rightarrow> (requests, None) | Some ec \<Rightarrow> (Inr [], http_on_error (ec_message ec) remote no_request))"

definition https_accept ::
  "error_code option \<Rightarrow> error_code option \<Rightarrow> string \<Rightarrow> string list res \<Rightarrow> string list res \<times> (string \<times> string) option" where
  "https_accept accepted handshake remote requests =
     (case accepted of
        None \<Rightarrow> (case handshake of None \<Rightarrow> (requests, None) | Some ec \<Rightarrow> (Inr [], https_on_error ec remote no_request))
      | Some ec \<Rightarrow> (Inr [], https_on_error ec remote no_request))"

definition server_accept ::
  "(ssl_context \<Rightarrow> 'p \<Rightarrow> error_code option) \<Rightarrow> agent_server \<Rightarrow> 'p \<Rightarrow> error_code option \<Rightarrow> string \<Rightarrow> string list res
     \<Rightarrow> string list res \<times> (string \<times> string) option" where
  "server_accept handshake srv peer accepted remote requests =
     (case srv of
        Plain _ \<Rightarrow> http_accept accepted remote requests
      | Encrypted _ ctx _ \<Rightarrow> https_accept accepted (handshake ctx peer) remote requests)"

section \<open>What the agent's server is\<close>

lemma server_context_verifies:
  assumes "server_context ssl cert key vrf = Inr (ctx, sid)" "vrf \<noteq> []"
  shows "ctx_certificate ctx = Some cert \<and> ctx_private_key ctx = Some key \<and> ctx_verify_file ctx = Some vrf \<and>
    ctx_verify_mode ctx = [Verify_peer, Verify_fail_if_no_peer_cert, Verify_client_once] \<and> \<not> ctx_default_paths ctx \<and> sid"
  using assms
  by (auto simp: server_context_def new_context_def use_certificate_chain_file_def use_private_key_file_def load_verify_file_def split: if_splits)

lemma useSSL_files:
  assumes "server_useSSL J w cfg = Inr True"
  shows "\<exists>key cert vrf. j_asString J (j_get J cfg ''SSL_key'') = Inr key \<and> j_asString J (j_get J cfg ''SSL_cert'') = Inr cert \<and>
    j_asString J (j_get J cfg ''SSL_verify'') = Inr vrf \<and> os_stat w cert \<noteq> None \<and> os_stat w vrf \<noteq> None \<and> os_stat w key \<noteq> None"
  using assms by (auto simp: server_useSSL_def res_simps)

text \<open>
  The laws of an encrypted handshake that the server relies on: with a peer that has to be verified and must send a certificate, and a context that does not trust
  the certificates of the system as well, a handshake succeeds only when the certificate is trusted by the file the context has loaded.
\<close>

definition handshake_verifies :: "(ssl_context \<Rightarrow> 'p \<Rightarrow> error_code option) \<Rightarrow> (string \<Rightarrow> 'p \<Rightarrow> bool) \<Rightarrow> bool" where
  "handshake_verifies handshake trusted =
     (\<forall>ctx peer. handshake ctx peer = None \<and> {Verify_peer, Verify_fail_if_no_peer_cert} \<subseteq> set (ctx_verify_mode ctx) \<and> \<not> ctx_default_paths ctx \<longrightarrow>
        (\<exists>f. ctx_verify_file ctx = Some f \<and> trusted f peer))"

text \<open>
  C20: An agent that is configured for encryption, and finds its three files, answers nobody but the owners of a certificate that the
  configured chain trusts: a connection of anybody else is dropped before a request is read, whatever it sends.
\<close>

theorem only_trusted_served:
  assumes "new_HttpServer J inst ssl w cfg logcfg = Inr (srv, l)" "server_useSSL J w cfg = Inr True" "os_stat w [] = None"
    and "handshake_verifies handshake trusted" "j_asString J (j_get J cfg ''SSL_verify'') = Inr vrf" "\<not> trusted vrf peer"
  shows "fst (server_accept handshake srv peer accepted remote (serve_connection sel rx rs defaults segs)) = Inr []"
proof -
  obtain key cert where f: "j_asString J (j_get J cfg ''SSL_key'') = Inr key" "j_asString J (j_get J cfg ''SSL_cert'') = Inr cert"
      "os_stat w vrf \<noteq> None" using useSSL_files[OF assms(2)] assms(5) by auto
  then have "vrf \<noteq> []" using assms(3) by auto
  moreover obtain c ctx sid where srv: "srv = Encrypted c ctx sid" "server_context ssl cert key vrf = Inr (ctx, sid)"
    using assms(1,2,5) f by (auto simp: new_HttpServer_def res_simps)
  ultimately have "{Verify_peer, Verify_fail_if_no_peer_cert} \<subseteq> set (ctx_verify_mode ctx)" "\<not> ctx_default_paths ctx" "ctx_verify_file ctx = Some vrf"
    using server_context_verifies by fastforce+
  then have "handshake ctx peer \<noteq> None" using assms(4,6) unfolding handshake_verifies_def by fastforce
  then show ?thesis by (auto simp: srv server_accept_def https_accept_def split: option.splits)
qed

lemma new_HttpServer_made:
  assumes "new_HttpServer J inst ssl w cfg logcfg = Inr (srv, l)"
  shows "\<exists>p host use. j_asInt J (j_get J cfg ''port'') = Inr p \<and> j_asString J (j_get J cfg ''host'') = Inr host \<and>
    server_useSSL J w cfg = Inr use \<and>
    (if use then \<exists>ctx b. srv = Encrypted ((server_of 443 p 1 5 300)\<lparr>sc_address := host\<rparr>) ctx b
     else srv = Plain ((server_of 80 p 1 5 300)\<lparr>sc_address := host\<rparr>))"
proof -
  obtain p use where p: "j_asInt J (j_get J cfg ''port'') = Inr p" "server_useSSL J w cfg = Inr use"
    using assms unfolding new_HttpServer_def by (auto simp: res_simps simp del: if_split)
  show ?thesis
    by (cases use) (use assms p in \<open>auto simp: new_HttpServer_def res_simps\<close>)
qed

lemma server_start_made:
  assumes "server_start from_string any_v4 ((server_of q p 1 5 300)\<lparr>sc_address := host\<rparr>) = Inr li"
  shows "(if host = [] then Inr any_v4 else from_string host) = Inr (li_address li) \<and> li_port li = word_of_int p \<and> li_runners li = 1"
  using assms by (cases "host = []") (auto simp: server_start_def server_of_def default_config_def res_simps)

text \<open>
  The server of the agent listens on the configured port, cut to sixteen bits, and host, and always runs in one thread, whatever
  the configuration says about threads; it is encrypted exactly when this is asked for and the three files exist, and a plain server
  otherwise.
\<close>

lemma server_settings_used:
  assumes "new_HttpServer J inst ssl w cfg logcfg = Inr (srv, l)" "HttpServer_start from_string any_v4 max_len srv = Inr (sid, li)"
  shows "\<exists>p host useSSL. j_asInt J (j_get J cfg ''port'') = Inr p \<and> j_asString J (j_get J cfg ''host'') = Inr host \<and>
    server_useSSL J w cfg = Inr useSSL \<and> (useSSL \<longleftrightarrow> (\<exists>c ctx b. srv = Encrypted c ctx b)) \<and>
    (if host = [] then Inr any_v4 else from_string host) = Inr (li_address li) \<and> li_port li = word_of_int p \<and> li_runners li = 1"
proof -
  obtain p host useSSL where made: "j_asInt J (j_get J cfg ''port'') = Inr p" "j_asString J (j_get J cfg ''host'') = Inr host"
      "server_useSSL J w cfg = Inr useSSL"
      "if useSSL then \<exists>ctx b. srv = Encrypted ((server_of 443 p 1 5 300)\<lparr>sc_address := host\<rparr>) ctx b
       else srv = Plain ((server_of 80 p 1 5 300)\<lparr>sc_address := host\<rparr>)"
    using new_HttpServer_made[OF assms(1)] by blast
  have "\<exists>q. server_start from_string any_v4 ((server_of q p 1 5 300)\<lparr>sc_address := host\<rparr>) = Inr li"
    using made(4) assms(2) by (auto simp: HttpServer_start_def res_simps split: if_splits)
  then show ?thesis using made server_start_made by (cases useSSL) fastforce+
qed

section \<open>Instances\<close>

definition ssl_cfg :: "bool \<Rightarrow> jv" where
  "ssl_cfg use = JObj [(''SSL_cert'', JStr ''c''), (''SSL_key'', JStr ''k''), (''SSL_verify'', JStr ''v''), (''host'', JStr ''::1''),
     (''port'', JInt 9080), (''threads'', JInt 8), (''useSSL'', JBool use)]"

definition ssl_os :: os where
  "ssl_os = bare_os\<lparr>os_stat := \<lambda>f. if f = [] then None else Some False\<rparr>"

definition ssl_any :: ssllib where
  "ssl_any = \<lparr>ssl_certificate_ok = \<lambda>_. True, ssl_key_ok = \<lambda>_. True, ssl_verify_ok = \<lambda>_. True\<rparr>"

text \<open>A peer is the file its certificate is trusted by.\<close>

definition ssl_handshake :: "ssl_context \<Rightarrow> string \<Rightarrow> error_code option" where
  "ssl_handshake ctx peer =
     (if Verify_peer \<in> set (ctx_verify_mode ctx) \<and> ctx_verify_file ctx \<noteq> Some peer then Some \<lparr>ec_message = ''no'', ec_ssl = None\<rparr> else None)"

lemma ssl_log: "\<exists>l. new_log ref_json demo_paths (JObj []) = Inr l"
  by (simp add: new_log_def j_default_def Let_def)

lemma ssl_use: "server_useSSL ref_json ssl_os (ssl_cfg use) = Inr use"
  by (cases use) (simp_all add: server_useSSL_def ssl_cfg_def ssl_os_def ex_bool_eq)

lemma ssl_cfg_get:
  "jv_get (ssl_cfg use) ''port'' = JInt 9080" "jv_get (ssl_cfg use) ''host'' = JStr ''::1''"
  "jv_get (ssl_cfg use) ''SSL_cert'' = JStr ''c''" "jv_get (ssl_cfg use) ''SSL_key'' = JStr ''k''"
  "jv_get (ssl_cfg use) ''SSL_verify'' = JStr ''v''"
  by (simp_all add: ssl_cfg_def)

lemma ssl_server:
  "\<exists>l. new_HttpServer ref_json demo_paths ssl_any ssl_os (ssl_cfg use) (JObj []) =
     Inr (if use then Encrypted ((server_of 443 9080 1 5 300)\<lparr>sc_address := ''::1''\<rparr>)
       \<lparr>ctx_certificate = Some ''c'', ctx_private_key = Some ''k'', ctx_verify_host = None, ctx_verify_file = Some ''v'',
        ctx_default_paths = False, ctx_verify_mode = [Verify_peer, Verify_fail_if_no_peer_cert, Verify_client_once]\<rparr> True
       else Plain ((server_of 80 9080 1 5 300)\<lparr>sc_address := ''::1''\<rparr>), l)"
proof -
  obtain l where l: "new_log ref_json demo_paths (JObj []) = Inr l" using ssl_log by blast
  then show ?thesis
    by (simp add: new_HttpServer_def ssl_cfg_get ssl_use ssl_any_def server_context_def use_certificate_chain_file_def use_private_key_file_def
        load_verify_file_def new_context_def)
qed

theorem only_trusted_served_witness:
  "\<exists>srv l. new_HttpServer ref_json demo_paths ssl_any ssl_os (ssl_cfg True) (JObj []) = Inr (srv, l) \<and>
     fst (server_accept ssl_handshake srv ''other'' None ''1.2.3.4'' (serve_connection hd (\<lambda>_ _. Some []) [] [] [])) = Inr []"
proof -
  obtain srv l where srv: "new_HttpServer ref_json demo_paths ssl_any ssl_os (ssl_cfg True) (JObj []) = Inr (srv, l)"
    using ssl_server[of True] by blast
  have "handshake_verifies ssl_handshake (\<lambda>f peer. f = peer)" by (auto simp: handshake_verifies_def ssl_handshake_def)
  moreover have "os_stat ssl_os [] = None" "j_asString ref_json (j_get ref_json (ssl_cfg True) ''SSL_verify'') = Inr ''v''"
    "\<not> ''v'' = ''other''" by (simp_all add: ssl_os_def ssl_cfg_get)
  ultimately show ?thesis
    using srv only_trusted_served[OF srv ssl_use, where handshake = ssl_handshake and trusted = "\<lambda>f peer. f = peer" and vrf = "''v''"] by blast
qed

end
