(* ===== verification/Startup.thy ===== *)
theory Startup
  imports LuaPlugins SystemdPlugin TlsServer
begin

text \<open>
  The start of the agent: \<^verbatim>\<open>main\<close> (src/agent.cpp), \<^verbatim>\<open>servicesManager::init\<close> and the detectors' constructors
  (src/servicesManager.cpp), and the constructor of \<^verbatim>\<open>CollectorsManager\<close> (src/collectors.cpp), which read the configuration
  of the services and load the plugins. Shared libraries and Lua files are parameters: \<open>e_dl\<close> is what the static
  initialisers of a library do to the factories, \<open>e_types\<close> and \<open>e_script\<close> what a Lua file declares. The log messages are left out.
\<close>

section \<open>State\<close>

datatype detector_obj = PluginDetector string | LuaDetectorObj string string | SocketDetector

datatype enhancer_obj = PluginEnhancer string | LuaEnhancerObj string

record 'j startup =
  st_cfg :: 'j
  st_mgr :: "'j manager"
  st_fact :: "'j factories"
  st_detectorFactory :: "string list"
  st_enhancerFactory :: "string list"
  st_collectorFactory :: "(string, 'j \<Rightarrow> counters \<Rightarrow> 'j cstate res) smap"
  st_detectors :: "detector_obj list"
  st_enhancers :: "enhancer_obj list"
  st_collectors :: "'j collectors"

record 'j environment =
  e_os :: os
  e_mem :: socket
  e_dl :: "string \<Rightarrow> 'j startup \<Rightarrow> 'j startup"
  e_types :: "string \<Rightarrow> string list"
  e_script :: "string \<Rightarrow> lua_script"
  e_detector :: "string \<Rightarrow> 'j \<Rightarrow> 'j"
  e_ssl :: ssllib
  e_from_string :: "string \<Rightarrow> string res"
  e_session_id_max :: nat

section \<open>Reading a directory\<close>

text \<open>
  The loop all plugins are found with. The extension is everything from the last point on; a name without a point has
  none, and asking for it throws.
\<close>

definition dir_entry :: "os \<Rightarrow> string \<Rightarrow> string \<Rightarrow> (string \<Rightarrow> string \<Rightarrow> 's \<Rightarrow> 's res) \<Rightarrow> string \<Rightarrow> 's \<Rightarrow> 's res" where
  "dir_entry w directory ext act file_name st =
     (let full_file_name = directory @ ''/'' @ file_name in
      if take 1 file_name = ''.'' then Inr st
      else case os_stat w full_file_name of
        None \<Rightarrow> Inr st
      | Some True \<Rightarrow> Inr st
      | Some False \<Rightarrow>
          bindR (substr_from file_name (str_rfind file_name (CHR ''.''))) (\<lambda>e.
          if e = ext then act file_name full_file_name st else Inr st))"

definition walk :: "os \<Rightarrow> string \<Rightarrow> string \<Rightarrow> (string \<Rightarrow> string \<Rightarrow> 's \<Rightarrow> 's res) \<Rightarrow> 's \<Rightarrow> 's res" where
  "walk w directory ext act st =
     (case os_readdir w directory of None \<Rightarrow> Inr st | Some files \<Rightarrow> foldR (dir_entry w directory ext act) files st)"

definition cfg_text :: "'j jsonlib \<Rightarrow> string \<Rightarrow> string \<Rightarrow> 'j startup \<Rightarrow> string res" where
  "cfg_text J sec k st = j_asString J (j_get J (j_get J (st_cfg st) sec) k)"

section \<open>Detectors\<close>

definition getDetectorCfg :: "'j jsonlib \<Rightarrow> string \<Rightarrow> 'j \<Rightarrow> 'j" where
  "getDetectorCfg J p_name d =
     j_set J d ''services'' (plugin_cfg J ''detectors'' (''/*'' @ [CHR 0x09] @ ''Configure the detectors plugins */'') p_name (j_get J d ''services''))"

definition socket_rows_cfg :: "(nat \<times> string \<times> string) list" where
  "socket_rows_cfg =
     [(0, ''interface'', ''loopback''), (1, ''path'', ''/sbin/dhclient''), (2, ''path'', ''/usr/sbin/avahi-daemon''),
      (3, ''path'', ''/sbin/rpc.statd''), (4, ''path'', ''/sbin/rpcbind''), (5, ''name'', ''cups-browsed'')]"

definition socketDetector_cfg :: "'j jsonlib \<Rightarrow> 'j \<Rightarrow> 'j" where
  "socketDetector_cfg J cfg =
     list_default J ''blackList'' (''/*'' @ [CHR 0x09] @ ''Configure the services that should not be detected */'') socket_rows_cfg
       (serviceDetector_cfg J cfg)"

text \<open>A new detector, and what its constructor writes to its part of the configuration.\<close>

definition add_detector :: "'j jsonlib \<Rightarrow> string \<Rightarrow> ('j \<Rightarrow> 'j) \<Rightarrow> detector_obj \<Rightarrow> 'j startup \<Rightarrow> 'j startup" where
  "add_detector J name ctor d st =
     (let c = getDetectorCfg J name (st_cfg st) in
      st\<lparr>st_cfg := j_put J [Key ''services'', Key ''detectors'', Key name]
                    (ctor (j_get J (j_get J (j_get J c ''services'') ''detectors'') name)) c,
         st_detectors := st_detectors st @ [d]\<rparr>)"

definition det_enabled :: "'j jsonlib \<Rightarrow> 'j \<Rightarrow> bool res" where
  "det_enabled J cfg = j_asBool J (j_get J cfg ''enable'')"

text \<open>One round of the discovery; \<open>run\<close> is what a detector of a plugin or script does.\<close>

definition mgr_find :: "'j jsonlib \<Rightarrow> ('d \<Rightarrow> 'j) \<Rightarrow> ('d \<Rightarrow> 'j manager \<Rightarrow> 'j manager res) \<Rightarrow> 'd list \<Rightarrow> 'j manager \<Rightarrow> 'j manager res" where
  "mgr_find J cfg_of run ds m =
     foldR (\<lambda>d m. bindR (det_enabled J (cfg_of d)) (\<lambda>en. if en then run d m else Inr m)) ds m"

definition enhanceFromFactory :: "(string, 'j service \<Rightarrow> 'j service) smap \<Rightarrow> string \<Rightarrow> 'j service \<Rightarrow> 'j service option" where
  "enhanceFromFactory F p_id s = map_option (\<lambda>maker. maker s) (map_of F p_id)"

section \<open>The manager's start\<close>

definition load_service :: "'j jsonlib \<Rightarrow> 'j environment \<Rightarrow> string \<Rightarrow> string \<Rightarrow> 'j startup \<Rightarrow> 'j startup res" where
  "load_service J env file_name full st =
     bindR (service_of_file J (e_os env) (e_mem env) full (m_counters (st_mgr st))) (\<lambda>(s, cs).
     Inr (st\<lparr>st_mgr := (st_mgr st)\<lparr>m_services := m_services (st_mgr st) @ [s], m_counters := cs\<rparr>\<rparr>))"

definition load_library :: "'j environment \<Rightarrow> string \<Rightarrow> string \<Rightarrow> 'j startup \<Rightarrow> 'j startup res" where
  "load_library env file_name full st = Inr (e_dl env full st)"

definition put_fact :: "string \<Rightarrow> 'm \<Rightarrow> 'm factory \<Rightarrow> string \<Rightarrow> 'm factory" where
  "put_fact name maker F file = (if mhas F name then F else mput name (Some maker, file) F)"

definition lua_plugin :: "'j jsonlib \<Rightarrow> 'j environment \<Rightarrow> string \<Rightarrow> string \<Rightarrow> 'j startup \<Rightarrow> 'j startup res" where
  "lua_plugin J env file_name full st =
     bindR (substr file_name 0 (str_rfind file_name (CHR ''.''))) (\<lambda>name.
     let ts = e_types env full; F = st_fact st;
         F1 = (if isType ts ''collector''
               then F\<lparr>f_collector := put_fact name (\<lambda>cfg i fname cs. new_LuaCollector J (e_script env fname) cfg (Some i) cs) (f_collector F) full\<rparr>
               else F);
         F2 = (if isType ts ''logParser''
               then F1\<lparr>f_parser := put_fact name (\<lambda>lg cfg fname cs. Inr (new_LuaParser J (e_script env fname) lg cfg cs)) (f_parser F1) full\<rparr>
               else F1);
         es = (if isType ts ''enhancer'' then st_enhancers st @ [LuaEnhancerObj full] else st_enhancers st);
         F3 = (if isType ts ''handler'' then F2\<lparr>f_handler := put_fact name () (f_handler F2) full\<rparr> else F2);
         st1 = st\<lparr>st_fact := F3, st_enhancers := es\<rparr> in
     Inr (if isType ts ''detector'' then add_detector J name (serviceDetector_cfg J) (LuaDetectorObj full name) st1 else st1))"

definition register_self :: "'j jsonlib \<Rightarrow> 'j startup \<Rightarrow> 'j startup" where
  "register_self J st =
     st\<lparr>st_fact := (st_fact st)\<lparr>f_collector := mput ''self'' (Some (\<lambda>cfg i fname cs. new_SelfCollector J cfg i cs), []) (f_collector (st_fact st))\<rparr>\<rparr>"

definition make_plugins :: "'j jsonlib \<Rightarrow> 'j environment \<Rightarrow> 'j startup \<Rightarrow> 'j startup" where
  "make_plugins J env st =
     (let st1 = fold (\<lambda>n. add_detector J n (e_detector env n) (PluginDetector n)) (st_detectorFactory st) st in
      st1\<lparr>st_enhancers := st_enhancers st1 @ map PluginEnhancer (st_enhancerFactory st1)\<rparr>)"

section \<open>The system collectors\<close>

text \<open>A collector of the factory or of a Lua file, with its part of the configuration.\<close>

definition add_system_collector ::
  "'j jsonlib \<Rightarrow> string \<Rightarrow> ('j \<Rightarrow> counters \<Rightarrow> 'j cstate res) \<Rightarrow> 'j startup \<Rightarrow> 'j startup res" where
  "add_system_collector J name maker st =
     (let d = cfg_getCollector J name (st_cfg st) in
      bindR (maker (j_get J (j_get J d ''collectors'') name) (m_counters (st_mgr st))) (\<lambda>(c, cs).
      Inr (st\<lparr>st_cfg := j_put J [Key ''collectors'', Key name] (c_cfg c) d,
              st_collectors := mput name c (st_collectors st), st_mgr := (st_mgr st)\<lparr>m_counters := cs\<rparr>\<rparr>)))"

definition lua_system_collector :: "'j jsonlib \<Rightarrow> 'j environment \<Rightarrow> string \<Rightarrow> string \<Rightarrow> 'j startup \<Rightarrow> 'j startup res" where
  "lua_system_collector J env file_name full st =
     bindR (substr file_name 0 (str_rfind file_name (CHR ''.''))) (\<lambda>name.
     if mhas (st_collectors st) name then Inr st
     else add_system_collector J name (\<lambda>cfg cs. new_LuaCollector J (e_script env full) cfg None cs) st)"

definition new_CollectorsManager :: "'j jsonlib \<Rightarrow> 'j environment \<Rightarrow> 'j startup \<Rightarrow> 'j startup res" where
  "new_CollectorsManager J env st =
     bindR (cfg_text J ''plugins'' ''collectors_cpp'' st) (\<lambda>directory.
     bindR (walk (e_os env) directory ''.so'' (load_library env) st) (\<lambda>st1.
     bindR (foldR (\<lambda>(n, maker). add_system_collector J n maker) (st_collectorFactory st1) st1) (\<lambda>st2.
     bindR (cfg_text J ''plugins'' ''collectors_lua'' st2) (\<lambda>dirlua.
     walk (e_os env) dirlua ''.lua'' (lua_system_collector J env) st2))))"

definition mgr_init :: "'j jsonlib \<Rightarrow> 'j environment \<Rightarrow> 'j startup \<Rightarrow> 'j startup res" where
  "mgr_init J env st =
     bindR (cfg_text J ''services'' ''config_dir'' st) (\<lambda>directory.
     bindR (walk (e_os env) directory ''.json'' (load_service J env) st) (\<lambda>st1.
     bindR (cfg_text J ''plugins'' ''services_cpp'' st1) (\<lambda>dircpp.
     bindR (walk (e_os env) dircpp ''.so'' (load_library env) st1) (\<lambda>st2.
     let st3 = make_plugins J env (register_self J st2) in
     bindR (cfg_text J ''plugins'' ''services_lua'' st3) (\<lambda>dirlua.
     bindR (walk (e_os env) dirlua ''.lua'' (lua_plugin J env) st3) (\<lambda>st4.
     new_CollectorsManager J env (add_detector J ''socket'' (socketDetector_cfg J) SocketDetector st4)))))))"

section \<open>Routes\<close>

text \<open>The patterns and handlers the manager registers, all for \<^verbatim>\<open>GET\<close>; a request sees the state at its time.\<close>

definition manager_handlers ::
  "'j jsonlib \<Rightarrow> os \<Rightarrow> 'j asks \<Rightarrow> double \<Rightarrow> 'j collectors \<Rightarrow> 'j manager \<Rightarrow> (string \<times> (string list \<Rightarrow> query_args \<Rightarrow> string res)) list" where
  "manager_handlers J w ask now sys m =
     (let reply = (\<lambda>f req args. bindR (f req args) (\<lambda>r. Inr (snd r)));
          doc = (\<lambda>req args. bindR (doGetJson J w sys m req args) (\<lambda>(_, _, s). Inr s)) in
      [(''^/$'', \<lambda>req args. bindR (doGetRootPage J w ask sys m req args) (\<lambda>(_, _, s). Inr s)),
       (''^/all$'', reply (doGetAllJson J w ask now sys m)),
       (''^/all.since=([0-9.]*)$'', reply (doGetAllJson J w ask now sys m)),
       (''^/service/(.*)/status$'', reply (doGetServiceStatus J w ask m)),
       (''^/service/(.*)/log$'', reply (doGetServiceLog J m)),
       (''^/service/(.*)/log.since=([0-9.]*)$'', reply (doGetServiceLog J m)),
       (''^/service/(.*)/html$'', reply (doGetServiceHtml J w ask m)),
       (''^/service/(.*)/(.*)/(.*)/history$'', doGetCollectorHistory J m),
       (''^/service/(.*)/(.*)/(.*)/history.since=([0-9.]*)$'', doGetCollectorHistory J m),
       (''^/service/(.*)/(.*)/(.*)/graph$'', doGetCollectorGraph J m),
       (''^/api/swagger.json$'', doc)])"

definition manager_routes ::
  "'j jsonlib \<Rightarrow> os \<Rightarrow> 'j asks \<Rightarrow> double \<Rightarrow> 'j collectors \<Rightarrow> 'j manager \<Rightarrow> resource \<Rightarrow> resource" where
  "manager_routes J w ask now sys m rs =
     fold (\<lambda>(p, f). setRegex ''GET'' p f) (manager_handlers J w ask now sys m) rs"

text \<open>The routes of a list of patterns and handlers, whatever was registered before.\<close>

lemma setRegex_key: "fst ` set (setRegex opt p f rs) = insert p (fst ` set rs)" "key_sorted rs \<Longrightarrow> key_sorted (setRegex opt p f rs)"
  by (simp_all add: setRegex_def fst_set_mput)

lemma routes_keys:
  "fst ` set (fold (\<lambda>(p, f). setRegex opt p f) hs rs) = fst ` set hs \<union> fst ` set rs"
  "key_sorted rs \<Longrightarrow> key_sorted (fold (\<lambda>(p, f). setRegex opt p f) hs rs)"
proof -
  show "fst ` set (fold (\<lambda>(p, f). setRegex opt p f) hs rs) = fst ` set hs \<union> fst ` set rs"
    by (induction hs arbitrary: rs) (simp_all add: setRegex_key case_prod_unfold)
  show "key_sorted rs \<Longrightarrow> key_sorted (fold (\<lambda>(p, f). setRegex opt p f) hs rs)"
    by (induction hs arbitrary: rs) (simp_all add: setRegex_key case_prod_unfold)
qed

lemma setRegex_at:
  "map_of (setRegex opt p f rs) q = (if q = p
     then Some (mput opt (\<lambda>req. bindR (request_query (r_path req)) (f (handler_args (r_path_match req))))
                  (case map_of rs p of Some ms \<Rightarrow> ms | None \<Rightarrow> []))
     else map_of rs q)"
  by (simp add: setRegex_def)

lemma routes_of:
  assumes "distinct (map fst hs)" "(p, f) \<in> set hs"
  shows "\<exists>ms. map_of (fold (\<lambda>(p, f). setRegex opt p f) hs rs) p = Some ms \<and>
    map_of ms opt = Some (\<lambda>req. bindR (request_query (r_path req)) (f (handler_args (r_path_match req))))"
  using assms
proof (induction hs arbitrary: rs)
  case (Cons h hs)
  have other: "map_of (fold (\<lambda>(p, f). setRegex opt p f) hs rs) p = map_of rs p" if "p \<notin> fst ` set hs" for rs
    using that by (induction hs arbitrary: rs) (auto simp: setRegex_at)
  show ?case
  proof (cases "h = (p, f)")
    case True
    then show ?thesis using Cons.prems(1) other by (auto simp: setRegex_at)
  next
    case False
    then show ?thesis using Cons by (auto simp: case_prod_unfold)
  qed
qed simp

section \<open>main\<close>

text \<open>
  What the agent has when it serves: its state, its server and what this one listens on, its log, and the configuration file
  it saved.
\<close>

record 'j running =
  run_state :: "'j startup"
  run_server :: agent_server
  run_listening :: "string listening"
  run_log :: "'j logger"
  run_saved :: "(string \<times> string) option"

definition agent_main ::
  "'j jsonlib \<Rightarrow> installed \<Rightarrow> (string \<Rightarrow> bool) \<Rightarrow> 'j environment \<Rightarrow> string \<Rightarrow> string option \<Rightarrow> 'j startup \<Rightarrow> 'j running res" where
  "agent_main J inst can env dflt arg st0 =
     (let cfgfile = (case arg of Some f \<Rightarrow> f | None \<Rightarrow> dflt) in
      bindR (new_Config J inst (e_os env) cfgfile) (\<lambda>d.
      let d1 = cfg_getLog J d in
      bindR (new_HttpServer J inst (e_ssl env) (e_os env) (j_get J d1 ''server'') (j_get J d1 ''log'')) (\<lambda>(server, l).
      bindR (mgr_init J env (st0\<lparr>st_cfg := j_set J d1 ''log'' (lg_cfg l)\<rparr>)) (\<lambda>st.
      let saved = cfg_save J can cfgfile (st_cfg st) in
      bindR (mgr_startThreads J (st_collectors st)) (\<lambda>cols.
      bindR (HttpServer_start (e_from_string env) ''0.0.0.0'' (e_session_id_max env) server) (\<lambda>(_, li).
      Inr \<lparr>run_state = st\<lparr>st_collectors := cols\<rparr>, run_server = server, run_listening = li, run_log = l, run_saved = saved\<rparr>))))))"

section \<open>The configured port and host\<close>

lemma server_setting_kept:
  assumes "json_null J" "cfg_ok J d" "view J d (''server'', k) = Some v" "k \<noteq> ''threads''"
  shows "j_get J (j_get J (cfg_getLog J (cfg_defaults J i d)) ''server'') k = v"
proof -
  have v: "view J (cfg_defaults J i d) = fold (map_step J) (all_settings J i) (view J d)"
    using json_null.cfg_defaults_view[OF assms(1,2)] by (simp add: all_settings_def)
  have "view J (cfg_defaults J i d) (''server'', k) = Some v"
  proof (cases "(''server'', k) \<in> target ` set (all_settings J i)")
    case True
    then obtain p where "(''server'', k) = target p" "p \<in> set (all_settings J i)" by (rule imageE)
    then obtain f t x c where m: "(f, ''server'', t, k, x, c) \<in> set (all_settings J i)" by (cases p) simp
    have "t = k" by (rule settings_tested[OF m assms(4)])
    then show ?thesis using fold_map_at[OF settings_targets, of f "''server''" k x c J i J "view J d"] m assms(3) by (simp add: v)
  next
    case False
    then show ?thesis using assms(3) by (simp add: v fold_map_other)
  qed
  moreover have "node_ok J (cfg_defaults J i d)"
    using json_null.fold_cfg_view[OF assms(1,2), of "all_settings J i"]
    by (simp add: cfg_defaults_def all_settings_def cfg_ok_def server_settings_def services_settings_def plugins_settings_def)
  ultimately show ?thesis
    using json_null.node_get_set[OF assms(1)] by (auto simp: view_def cfg_getLog_def j_default_def split: if_splits)
qed

text \<open>
  C21: An agent that has started listens on the port, cut to sixteen bits, and on the host that its configuration file names, and serves
  with one thread whatever the file says about threads. It is encrypted exactly when the file asks for it and
  the three files of keys and certificates exist; otherwise it answers in the clear.
\<close>

theorem agent_listens_as_configured:
  assumes "json_null J" "os_file (e_os env) cfgfile = Some txt" "j_read J txt = Inr d" "cfg_ok J d"
    and "view J d (''server'', ''port'') = Some pv" "view J d (''server'', ''host'') = Some hv"
    and "agent_main J inst can env dflt (Some cfgfile) st0 = Inr r"
  shows "\<exists>p host use. j_asInt J pv = Inr p \<and> j_asString J hv = Inr host \<and> li_port (run_listening r) = word_of_int p \<and>
    (if host = [] then Inr ''0.0.0.0'' else e_from_string env host) = Inr (li_address (run_listening r)) \<and>
    li_runners (run_listening r) = 1 \<and>
    server_useSSL J (e_os env) (j_get J (cfg_getLog J (cfg_defaults J inst d)) ''server'') = Inr use \<and>
    (use \<longleftrightarrow> (\<exists>c ctx b. run_server r = Encrypted c ctx b))"
proof -
  let ?d = "cfg_getLog J (cfg_defaults J inst d)"
  have "new_Config J inst (e_os env) cfgfile = Inr (cfg_defaults J inst d)" using assms(2,3) by (simp add: new_Config_def)
  then obtain sid where made: "new_HttpServer J inst (e_ssl env) (e_os env) (j_get J ?d ''server'') (j_get J ?d ''log'') = Inr (run_server r, run_log r)"
      "HttpServer_start (e_from_string env) ''0.0.0.0'' (e_session_id_max env) (run_server r) = Inr (sid, run_listening r)"
    using assms(7) by (auto simp: agent_main_def Let_def res_simps)
  have port_key: "''port'' \<noteq> ''threads''" and host_key: "''host'' \<noteq> ''threads''" by simp_all
  show ?thesis
    using server_settings_used[OF made] unfolding server_setting_kept[OF assms(1,4,5) port_key] server_setting_kept[OF assms(1,4,6) host_key] by blast
qed

section \<open>A file without an extension\<close>

lemma foldR_fails:
  assumes "x \<in> set xs" "\<And>s. \<exists>e. f x s = Inl e"
  shows "\<exists>e. foldR f xs s = Inl e"
  using assms
proof (induction xs arbitrary: s)
  case (Cons y xs)
  show ?case
  proof (cases "f y s")
    case (Inr t)
    then have "y \<noteq> x \<or> False" using Cons.prems(2)[of s] by auto
    then show ?thesis using Cons Inr by auto
  qed simp
qed simp

lemma walk_no_extension:
  assumes "os_readdir w directory = Some files" "f \<in> set files" "CHR ''.'' \<notin> set f" "os_stat w (directory @ ''/'' @ f) = Some False" "fits f"
  shows "\<exists>e. walk w directory ext act st = Inl e"
proof -
  have "take 1 f \<noteq> ''.''" using assms(3) by (cases f) auto
  moreover have "substr_from f npos = Inl OutOfRange" using assms(5) by (simp add: substr_def npos_def)
  ultimately have "\<exists>e. dir_entry w directory ext act f s = Inl e" for s
    using assms(3,4) by (simp add: dir_entry_def str_rfind_none Let_def)
  from foldR_fails[where f = "dir_entry w directory ext act", OF assms(2) this] show ?thesis using assms(1) by (simp add: walk_def)
qed

text \<open>
  C40: a regular file whose name has no point in the directory of the service configurations ends the start of the agent with an
  exception, which nothing in \<^verbatim>\<open>main\<close> catches: the agent does not start. The plugin directories are read by the same loop.
\<close>

theorem start_needs_extensions:
  assumes "cfg_text J ''services'' ''config_dir'' st = Inr directory" "os_readdir (e_os env) directory = Some files" "f \<in> set files"
    and "CHR ''.'' \<notin> set f" "os_stat (e_os env) (directory @ ''/'' @ f) = Some False" "fits f"
  shows "\<not> (\<exists>st'. mgr_init J env st = Inr st')"
proof -
  from walk_no_extension[OF assms(2-6), of "''.json''" "load_service J env" st]
  obtain e where "walk (e_os env) directory ''.json'' (load_service J env) st = Inl e" ..
  then show ?thesis using assms(1) by (simp add: mgr_init_def)
qed

definition readme_env :: "jv environment" where
  "readme_env = \<lparr>e_os = bare_os\<lparr>os_readdir := \<lambda>_. Some [''web.json'', ''README''], os_stat := \<lambda>_. Some False\<rparr>, e_mem = zeroed_socket,
     e_dl = (\<lambda>_ st. st), e_types = (\<lambda>_. []), e_script = (\<lambda>_. \<lparr>ls_history = 0, ls_poolfreq = 0, ls_name = [], ls_declare = []\<rparr>),
     e_detector = (\<lambda>_ c. c), e_ssl = ssl_any, e_from_string = Inr, e_session_id_max = 32\<rparr>"

definition readme_start :: "jv startup" where
  "readme_start = \<lparr>st_cfg = JObj [(''services'', JObj [(''config_dir'', JStr ''/etc/watched'')])], st_mgr = no_services,
     st_fact = demo_handlers, st_detectorFactory = [], st_enhancerFactory = [], st_collectorFactory = [], st_detectors = [],
     st_enhancers = [], st_collectors = []\<rparr>"

theorem start_needs_extensions_witness: "\<not> (\<exists>st'. mgr_init ref_json readme_env readme_start = Inr st')"
proof -
  have "cfg_text ref_json ''services'' ''config_dir'' readme_start = Inr ''/etc/watched''" by (simp add: cfg_text_def readme_start_def)
  from start_needs_extensions[OF this, of readme_env "[''web.json'', ''README'']" "''README''"] show ?thesis by (simp add: readme_env_def)
qed

text \<open>A start with a configuration file and without plugins.\<close>

definition written_cfg :: jv where
  "written_cfg = JObj [(''server'', JObj [(''host'', JStr []), (''port'', JInt 9090), (''threads'', JInt 16)])]"

definition file_json :: "jv jsonlib" where
  "file_json = ref_json\<lparr>j_read := \<lambda>_. Inr written_cfg\<rparr>"

lemma file_json_sel:
  "j_read file_json t = Inr written_cfg" "j_isObject file_json (JObj m)" "j_get file_json = jv_get" "j_asInt file_json = jv_asInt" "j_asString file_json = jv_asString"
   "j_asBool file_json = jv_asBool" "j_member file_json = jv_member" "j_set file_json = jv_set" "j_null file_json = JNull" "j_object file_json = JObj []"
   "j_string file_json = JStr" "j_int file_json = JInt" "j_bool file_json = JBool" "j_setComment file_json v c pl = v"
  by (simp_all add: file_json_def ref_json_def)

definition bare_env :: "jv environment" where
  "bare_env = readme_env\<lparr>e_os := bare_os\<lparr>os_file := \<lambda>_. Some []\<rparr>\<rparr>"

lemma file_null: "json_null file_json"
  unfolding file_json_def by unfold_locales (auto split: jv.splits option.splits)

definition full_cfg :: jv where
  "full_cfg = cfg_getLog file_json (cfg_defaults file_json demo_paths written_cfg)"

lemma full_cfg_eq:
  "full_cfg = JObj [(''log'', JObj []), (''plugins'', JObj [(''collectors_cpp'', JStr []), (''collectors_lua'', JStr []),
       (''services_cpp'', JStr []), (''services_lua'', JStr [])]),
     (''server'', JObj [(''SSL_cert'', JStr []), (''SSL_key'', JStr []), (''SSL_verify'', JStr []), (''host'', JStr []), (''port'', JInt 9090),
       (''threads'', JInt 8), (''useSSL'', JBool False), (''web_root'', JStr ''/www'')]),
     (''services'', JObj [(''config_dir'', JStr []), (''find_frequency'', JInt 120)])]"
  by (simp add: full_cfg_def cfg_getLog_def j_default_def cfg_defaults_def server_settings_def services_settings_def plugins_settings_def
      cfg_step_def written_cfg_def file_json_sel demo_paths_def)

lemma bare_walk: "walk (e_os bare_env) dir ext act st = Inr st"
  by (simp add: walk_def bare_env_def bare_os_def)

lemma bare_init:
  "\<exists>st. mgr_init file_json bare_env (readme_start\<lparr>st_cfg := j_set file_json full_cfg ''log'' l\<rparr>) = Inr st \<and> st_collectors st = []"
  by (simp add: mgr_init_def bare_walk cfg_text_def file_json_sel full_cfg_eq make_plugins_def register_self_def readme_start_def new_CollectorsManager_def
      add_detector_def Let_def getDetectorCfg_def j_default_def)

lemma bare_server:
  "\<exists>srv l. new_HttpServer file_json demo_paths ssl_any (e_os bare_env) (j_get file_json full_cfg ''server'') (j_get file_json full_cfg ''log'') =
       Inr (srv, l) \<and> (\<exists>sid li. HttpServer_start Inr ''0.0.0.0'' 32 srv = Inr (sid, li))"
  by (simp add: new_HttpServer_def server_useSSL_def file_json_sel full_cfg_eq new_log_def j_default_def Let_def HttpServer_start_def server_start_def
      server_of_def default_config_def)

lemma bare_main: "\<exists>r. agent_main file_json demo_paths can bare_env dflt (Some f) readme_start = Inr r"
proof -
  obtain srv l sid li where s: "new_HttpServer file_json demo_paths ssl_any (e_os bare_env) (j_get file_json full_cfg ''server'') (j_get file_json full_cfg ''log'') = Inr (srv, l)"
     "HttpServer_start Inr ''0.0.0.0'' 32 srv = Inr (sid, li)" using bare_server by blast
  obtain st where st: "mgr_init file_json bare_env (readme_start\<lparr>st_cfg := j_set file_json full_cfg ''log'' (lg_cfg l)\<rparr>) = Inr st" "st_collectors st = []" using bare_init by blast
  have "new_Config file_json demo_paths (e_os bare_env) f = Inr (cfg_defaults file_json demo_paths written_cfg)" by (simp add: new_Config_def bare_env_def file_json_sel)
  moreover have "e_ssl bare_env = ssl_any" "e_from_string bare_env = Inr" "e_session_id_max bare_env = 32" by (simp_all add: bare_env_def readme_env_def)
  ultimately show ?thesis using s st by (simp add: agent_main_def full_cfg_def mgr_startThreads_def Let_def)
qed

theorem agent_listens_as_configured_witness:
  "\<exists>r. agent_main file_json demo_paths (\<lambda>_. True) bare_env ''/etc/watched.json'' (Some ''agent.json'') readme_start = Inr r \<and>
     li_port (run_listening r) = 9090 \<and> li_runners (run_listening r) = 1"
proof -
  obtain r where r: "agent_main file_json demo_paths (\<lambda>_. True) bare_env ''/etc/watched.json'' (Some ''agent.json'') readme_start = Inr r"
    using bare_main by blast
  have "os_file (e_os bare_env) ''agent.json'' = Some []" "cfg_ok file_json written_cfg" "view file_json written_cfg (''server'', ''port'') = Some (JInt 9090)"
    "view file_json written_cfg (''server'', ''host'') = Some (JStr [])"
    by (simp_all add: bare_env_def cfg_ok_def node_ok_def view_def written_cfg_def file_json_sel mhas_def)
  from agent_listens_as_configured[OF file_null this(1) file_json_sel(1) this(2-4) r] r show ?thesis by (auto simp: file_json_sel)
qed

end
