(* ===== verification/ReadingSeries.thy ===== *)
theory ReadingSeries
  imports Ressources
begin

text \<open>
  What a measure promises, without its representation: a series of at most \<open>n\<close> readings, newest first, each a finite map
  from names to values. A reading starts as a copy of the one before it with the new time, a value is written to the newest
  reading, and writing when there is none is the only error. The measures of src/collectors.cpp implement it step by step.
\<close>

section \<open>The operations a collector makes on a measure\<close>

datatype 'j mop =
    Reading double
  | Put string 'j
  | Describe string string string

fun mop_step :: "'j jsonlib \<Rightarrow> 'j mop \<Rightarrow> 'j ressource \<times> counters \<Rightarrow> ('j ressource \<times> counters) res" where
  "mop_step J (Reading now) s = Inr (nextValue J now s)"
| "mop_step J (Put k x) (r, cs) = bindR (setProperty J k x r) (\<lambda>r'. Inr (r', cs))"
| "mop_step J (Describe k d t) (r, cs) = Inr (addProperty k d t r, cs)"

section \<open>The series\<close>

type_synonym 'j reading = "string \<rightharpoonup> 'j"

fun series_step :: "'j jsonlib \<Rightarrow> nat \<Rightarrow> 'j mop \<Rightarrow> 'j reading list \<Rightarrow> 'j reading list res" where
  "series_step J n (Reading now) xs =
     Inr (take n ((case xs of [] \<Rightarrow> Map.empty | x # _ \<Rightarrow> x)(''timestamp'' \<mapsto> j_double J now) # xs))"
| "series_step J n (Put k v) [] = Inl Undefined"
| "series_step J n (Put k v) (x # xs) = Inr (x(k \<mapsto> v) # xs)"
| "series_step J n (Describe k d t) xs = Inr xs"

definition reading_of :: "'j jsonlib \<Rightarrow> 'j \<Rightarrow> 'j reading" where
  "reading_of J e = (\<lambda>k. if j_member J e k then Some (j_get J e k) else None)"

definition series_of :: "'j jsonlib \<Rightarrow> 'j ressource \<Rightarrow> 'j reading list" where
  "series_of J r = map (reading_of J) (rv r)"

definition objects :: "'j jsonlib \<Rightarrow> 'j ressource \<Rightarrow> bool" where
  "objects J r \<longleftrightarrow> list_all (j_isObject J) (rv r)"

section \<open>The measures implement the series\<close>

context json_laws
begin

lemma reading_set: "j_isObject J e \<Longrightarrow> reading_of J (j_set J e k x) = (reading_of J e)(k \<mapsto> x)"
  by (auto simp: reading_of_def get_set member_set)

lemma reading_object: "reading_of J (j_object J) = Map.empty"
  by (simp add: reading_of_def member_object)

lemma reading_next:
  assumes "list_all (j_isObject J) v"
  shows "j_isObject J (next_entry J now v)" "reading_of J (next_entry J now v) =
    (case map (reading_of J) v of [] \<Rightarrow> Map.empty | x # _ \<Rightarrow> x)(''timestamp'' \<mapsto> j_double J now)"
  using assms by (cases v; simp add: next_entry_def obj_set obj_object reading_set reading_object)+

lemma mop_simulates:
  assumes "objects J (fst s)"
  shows "map_sum (\<lambda>e. e) (\<lambda>s'. series_of J (fst s')) (mop_step J op s) =
      series_step J (unat (rsize (fst s))) op (series_of J (fst s))"
    and "mop_step J op s = Inr s' \<Longrightarrow> objects J (fst s') \<and> rsize (fst s') = rsize (fst s)"
proof -
  obtain r cs where s: "s = (r, cs)" by fastforce
  note nv = nv.hist_record[of J _ "(r, cs)"] nv.cap_record[of J _ "(r, cs)"] reading_next[of "rv r"]
  have "map_sum (\<lambda>e. e) (\<lambda>s'. series_of J (fst s')) (mop_step J op s) =
      series_step J (unat (rsize (fst s))) op (series_of J (fst s)) \<and>
    (mop_step J op s = Inr s' \<longrightarrow> objects J (fst s') \<and> rsize (fst s') = rsize (fst s))"
  proof (cases op)
    case (Reading now)
    have ok: "list_all (j_isObject J) (rv r)" using assms s by (simp add: objects_def)
    have "series_of J (fst (nextValue J now s)) =
        take (unat (rsize r)) (map (reading_of J) (next_entry J now (rv r) # rv r))"
      by (simp only: series_of_def s nv(1) fst_conv take_map)
    moreover have "objects J (fst (nextValue J now s))"
      using ok nv(1)[of now] nv(3)[OF ok] by (auto simp: objects_def s list_all_iff dest!: in_set_takeD)
    ultimately show ?thesis
      using Reading nv(4)[OF ok] nextValue_rsize[of J "[now]" s] by (auto simp: series_of_def s)
  next
    case (Put k x)
    then show ?thesis using assms s
      by (cases "rv r") (auto simp: setProperty_def series_of_def objects_def reading_set obj_set)
  next
    case (Describe k d t)
    then show ?thesis using assms s by (auto simp: addProperty_def series_of_def objects_def)
  qed
  then show "map_sum (\<lambda>e. e) (\<lambda>s'. series_of J (fst s')) (mop_step J op s) =
      series_step J (unat (rsize (fst s))) op (series_of J (fst s))"
    "mop_step J op s = Inr s' \<Longrightarrow> objects J (fst s') \<and> rsize (fst s') = rsize (fst s)" by blast+
qed

lemma mops_simulate:
  assumes "objects J (fst s)"
  shows "map_sum (\<lambda>e. e) (\<lambda>s'. series_of J (fst s')) (foldR (mop_step J) ops s) =
    foldR (series_step J (unat (rsize (fst s)))) ops (series_of J (fst s))"
  using assms
proof (induction ops arbitrary: s)
  case (Cons op ops)
  show ?case
  proof (cases "mop_step J op s")
    case (Inl e)
    then show ?thesis using mop_simulates(1)[OF Cons.prems, of op, symmetric] by (simp add: Inl)
  next
    case (Inr s1)
    then show ?thesis using mop_simulates(1)[OF Cons.prems, of op, symmetric] mop_simulates(2)[OF Cons.prems Inr] Cons.IH[of s1]
      by (simp add: Inr)
  qed
qed simp

end

text \<open>
  C4: A measure implements a series of at most as many readings as its size: any sequence of new readings, values and
  descriptions gives the readings the series gives, and it fails exactly when the series does.
\<close>

theorem measure_implements_series:
  assumes "json_laws J" "objects J r"
  shows "map_sum (\<lambda>e. e) (\<lambda>(r', cs'). series_of J r') (foldR (mop_step J) ops (r, cs)) =
    foldR (series_step J (unat (rsize r))) ops (series_of J r)"
  using json_laws.mops_simulate[OF assms(1), of "(r, cs)" ops] assms(2) by (simp add: case_prod_unfold)

theorem measure_implements_series_witness:
  "map_sum (\<lambda>e. e) (\<lambda>(r', cs'). map (\<lambda>m. m ''x'') (series_of ref_json r'))
     (foldR (mop_step ref_json) [Reading (Fin 1), Put ''x'' (JInt 5), Reading (Fin 2)] (new_ressource RPlain 2 ''t'' [])) =
   Inr [Some (JInt 5), Some (JInt 5)]"
proof -
  let ?r = "fst (new_ressource RPlain 2 ''t'' []) :: jv ressource" and ?cs = "snd (new_ressource RPlain 2 ''t'' [] :: jv ressource \<times> counters)"
  let ?ops = "[Reading (Fin 1), Put ''x'' (JInt 5), Reading (Fin 2)]"
  have "foldR (series_step ref_json 2) ?ops [] =
      Inr [[''timestamp'' \<mapsto> JDbl (Fin 2), ''x'' \<mapsto> JInt 5], [''timestamp'' \<mapsto> JDbl (Fin 1), ''x'' \<mapsto> JInt 5]]"
    by (auto simp: numeral_2_eq_2 fun_upd_twist)
  with measure_implements_series[OF ref.json_laws_axioms, of ?r ?ops ?cs]
  have "map_sum (\<lambda>e. e) (\<lambda>(r', cs'). series_of ref_json r') (foldR (mop_step ref_json) ?ops (new_ressource RPlain 2 ''t'' [])) =
      Inr [[''timestamp'' \<mapsto> JDbl (Fin 2), ''x'' \<mapsto> JInt 5], [''timestamp'' \<mapsto> JDbl (Fin 1), ''x'' \<mapsto> JInt 5]]"
    by (simp add: new_ressource_def objects_def series_of_def)
  then show ?thesis by (cases "foldR (mop_step ref_json) ?ops (new_ressource RPlain 2 ''t'' [])") auto
qed

end
