(* ===== verification/Responses.thy ===== *)
theory Responses
  imports Connections
begin

text \<open>
  The status codes of sws/status_code.hpp and the convenience writers of the class \<^verbatim>\<open>Response\<close> of sws/server_http.hpp: a
  status line, header fields and a content. A header is the list of its fields in the order the multimap hands them out.
\<close>

section \<open>Status codes\<close>

datatype (plugins only: code) StatusCode =
    SC_unknown
  | SC_information_continue
  | SC_information_switching_protocols
  | SC_information_processing
  | SC_success_ok
  | SC_success_created
  | SC_success_accepted
  | SC_success_non_authoritative_information
  | SC_success_no_content
  | SC_success_reset_content
  | SC_success_partial_content
  | SC_success_multi_status
  | SC_success_already_reported
  | SC_success_im_used
  | SC_redirection_multiple_choices
  | SC_redirection_moved_permanently
  | SC_redirection_found
  | SC_redirection_see_other
  | SC_redirection_not_modified
  | SC_redirection_use_proxy
  | SC_redirection_switch_proxy
  | SC_redirection_temporary_redirect
  | SC_redirection_permanent_redirect
  | SC_client_error_bad_request
  | SC_client_error_unauthorized
  | SC_client_error_payment_required
  | SC_client_error_forbidden
  | SC_client_error_not_found
  | SC_client_error_method_not_allowed
  | SC_client_error_not_acceptable
  | SC_client_error_proxy_authentication_required
  | SC_client_error_request_timeout
  | SC_client_error_conflict
  | SC_client_error_gone
  | SC_client_error_length_required
  | SC_client_error_precondition_failed
  | SC_client_error_payload_too_large
  | SC_client_error_uri_too_long
  | SC_client_error_unsupported_media_type
  | SC_client_error_range_not_satisfiable
  | SC_client_error_expectation_failed
  | SC_client_error_im_a_teapot
  | SC_client_error_misdirection_required
  | SC_client_error_unprocessable_entity
  | SC_client_error_locked
  | SC_client_error_failed_dependency
  | SC_client_error_upgrade_required
  | SC_client_error_precondition_required
  | SC_client_error_too_many_requests
  | SC_client_error_request_header_fields_too_large
  | SC_client_error_unavailable_for_legal_reasons
  | SC_server_error_internal_server_error
  | SC_server_error_not_implemented
  | SC_server_error_bad_gateway
  | SC_server_error_service_unavailable
  | SC_server_error_gateway_timeout
  | SC_server_error_http_version_not_supported
  | SC_server_error_variant_also_negotiates
  | SC_server_error_insufficient_storage
  | SC_server_error_loop_detected
  | SC_server_error_not_extended
  | SC_server_error_network_authentication_required

definition status_codes :: "(StatusCode \<times> string) list" where
  "status_codes =
     [(SC_unknown, []),
      (SC_information_continue, ''100 Continue''),
      (SC_information_switching_protocols, ''101 Switching Protocols''),
      (SC_information_processing, ''102 Processing''),
      (SC_success_ok, ''200 OK''),
      (SC_success_created, ''201 Created''),
      (SC_success_accepted, ''202 Accepted''),
      (SC_success_non_authoritative_information, ''203 Non-Authoritative Information''),
      (SC_success_no_content, ''204 No Content''),
      (SC_success_reset_content, ''205 Reset Content''),
      (SC_success_partial_content, ''206 Partial Content''),
      (SC_success_multi_status, ''207 Multi-Status''),
      (SC_success_already_reported, ''208 Already Reported''),
      (SC_success_im_used, ''226 IM Used''),
      (SC_redirection_multiple_choices, ''300 Multiple Choices''),
      (SC_redirection_moved_permanently, ''301 Moved Permanently''),
      (SC_redirection_found, ''302 Found''),
      (SC_redirection_see_other, ''303 See Other''),
      (SC_redirection_not_modified, ''304 Not Modified''),
      (SC_redirection_use_proxy, ''305 Use Proxy''),
      (SC_redirection_switch_proxy, ''306 Switch Proxy''),
      (SC_redirection_temporary_redirect, ''307 Temporary Redirect''),
      (SC_redirection_permanent_redirect, ''308 Permanent Redirect''),
      (SC_client_error_bad_request, ''400 Bad Request''),
      (SC_client_error_unauthorized, ''401 Unauthorized''),
      (SC_client_error_payment_required, ''402 Payment Required''),
      (SC_client_error_forbidden, ''403 Forbidden''),
      (SC_client_error_not_found, ''404 Not Found''),
      (SC_client_error_method_not_allowed, ''405 Method Not Allowed''),
      (SC_client_error_not_acceptable, ''406 Not Acceptable''),
      (SC_client_error_proxy_authentication_required, ''407 Proxy Authentication Required''),
      (SC_client_error_request_timeout, ''408 Request Timeout''),
      (SC_client_error_conflict, ''409 Conflict''),
      (SC_client_error_gone, ''410 Gone''),
      (SC_client_error_length_required, ''411 Length Required''),
      (SC_client_error_precondition_failed, ''412 Precondition Failed''),
      (SC_client_error_payload_too_large, ''413 Payload Too Large''),
      (SC_client_error_uri_too_long, ''414 URI Too Long''),
      (SC_client_error_unsupported_media_type, ''415 Unsupported Media Type''),
      (SC_client_error_range_not_satisfiable, ''416 Range Not Satisfiable''),
      (SC_client_error_expectation_failed, ''417 Expectation Failed''),
      (SC_client_error_im_a_teapot, ''418 I'' @ [CHR 0x27] @ ''m a teapot''),
      (SC_client_error_misdirection_required, ''421 Misdirected Request''),
      (SC_client_error_unprocessable_entity, ''422 Unprocessable Entity''),
      (SC_client_error_locked, ''423 Locked''),
      (SC_client_error_failed_dependency, ''424 Failed Dependency''),
      (SC_client_error_upgrade_required, ''426 Upgrade Required''),
      (SC_client_error_precondition_required, ''428 Precondition Required''),
      (SC_client_error_too_many_requests, ''429 Too Many Requests''),
      (SC_client_error_request_header_fields_too_large, ''431 Request Header Fields Too Large''),
      (SC_client_error_unavailable_for_legal_reasons, ''451 Unavailable For Legal Reasons''),
      (SC_server_error_internal_server_error, ''500 Internal Server Error''),
      (SC_server_error_not_implemented, ''501 Not Implemented''),
      (SC_server_error_bad_gateway, ''502 Bad Gateway''),
      (SC_server_error_service_unavailable, ''503 Service Unavailable''),
      (SC_server_error_gateway_timeout, ''504 Gateway Timeout''),
      (SC_server_error_http_version_not_supported, ''505 HTTP Version Not Supported''),
      (SC_server_error_variant_also_negotiates, ''506 Variant Also Negotiates''),
      (SC_server_error_insufficient_storage, ''507 Insufficient Storage''),
      (SC_server_error_loop_detected, ''508 Loop Detected''),
      (SC_server_error_not_extended, ''510 Not Extended''),
      (SC_server_error_network_authentication_required, ''511 Network Authentication Required'')]"

definition status_code_of :: "string \<Rightarrow> StatusCode" where
  "status_code_of status_code_str =
     (case List.find (\<lambda>(c, s). s = status_code_str) status_codes of Some (c, s) \<Rightarrow> c | None \<Rightarrow> SC_unknown)"

definition status_text :: "StatusCode \<Rightarrow> string" where
  "status_text status_code_enum =
     (case List.find (\<lambda>(c, s). c = status_code_enum) status_codes of Some (c, s) \<Rightarrow> s | None \<Rightarrow> snd (hd status_codes))"

section \<open>Writers\<close>

fun has_length :: "header \<Rightarrow> bool" where
  "has_length [] = False"
| "has_length ((k, v) # h) = (case_insensitive_equal k ''content-length'' \<or> has_length h)"

definition write_header :: "header \<Rightarrow> nat \<Rightarrow> string" where
  "write_header h n =
     concat (map (\<lambda>(k, v). k @ '': '' @ v @ crlf) h) @
     (if n \<noteq> 0 \<and> \<not> has_length h then ''Content-Length: '' @ to_string n @ crlf @ crlf else crlf)"

definition Response_write_status :: "StatusCode \<Rightarrow> header \<Rightarrow> string" where
  "Response_write_status c h = ''HTTP/1.1 '' @ status_text c @ crlf @ write_header h 0"

definition Response_write :: "StatusCode \<Rightarrow> string \<Rightarrow> header \<Rightarrow> string" where
  "Response_write c content h = ''HTTP/1.1 '' @ status_text c @ crlf @ write_header h (length content) @ content"

text \<open>A content that is a stream is written like a text of its size.\<close>

definition Response_write_stream :: "StatusCode \<Rightarrow> string \<Rightarrow> header \<Rightarrow> string" where
  "Response_write_stream c content h =
     (let size = length content in ''HTTP/1.1 '' @ status_text c @ crlf @ write_header h size @ (if size \<noteq> 0 then content else []))"

lemma stream_written: "Response_write_stream c content h = Response_write c content h"
  by (simp add: Response_write_stream_def Response_write_def)

text \<open>The writers with no status write a success.\<close>

definition Response_write_ok :: "string \<Rightarrow> header \<Rightarrow> string" where
  "Response_write_ok content h = Response_write SC_success_ok content h"

definition Response_write_header :: "header \<Rightarrow> string" where
  "Response_write_header h = Response_write SC_success_ok [] h"

section \<open>Status codes round trip\<close>

lemma status_codes_enums:
  "map fst status_codes =
    [SC_unknown, SC_information_continue, SC_information_switching_protocols, SC_information_processing, SC_success_ok,
     SC_success_created, SC_success_accepted, SC_success_non_authoritative_information, SC_success_no_content,
     SC_success_reset_content, SC_success_partial_content, SC_success_multi_status, SC_success_already_reported, SC_success_im_used,
     SC_redirection_multiple_choices, SC_redirection_moved_permanently, SC_redirection_found, SC_redirection_see_other,
     SC_redirection_not_modified, SC_redirection_use_proxy, SC_redirection_switch_proxy, SC_redirection_temporary_redirect,
     SC_redirection_permanent_redirect, SC_client_error_bad_request, SC_client_error_unauthorized, SC_client_error_payment_required,
     SC_client_error_forbidden, SC_client_error_not_found, SC_client_error_method_not_allowed, SC_client_error_not_acceptable,
     SC_client_error_proxy_authentication_required, SC_client_error_request_timeout, SC_client_error_conflict, SC_client_error_gone,
     SC_client_error_length_required, SC_client_error_precondition_failed, SC_client_error_payload_too_large,
     SC_client_error_uri_too_long, SC_client_error_unsupported_media_type, SC_client_error_range_not_satisfiable,
     SC_client_error_expectation_failed, SC_client_error_im_a_teapot, SC_client_error_misdirection_required,
     SC_client_error_unprocessable_entity, SC_client_error_locked, SC_client_error_failed_dependency, SC_client_error_upgrade_required,
     SC_client_error_precondition_required, SC_client_error_too_many_requests, SC_client_error_request_header_fields_too_large,
     SC_client_error_unavailable_for_legal_reasons, SC_server_error_internal_server_error, SC_server_error_not_implemented,
     SC_server_error_bad_gateway, SC_server_error_service_unavailable, SC_server_error_gateway_timeout,
     SC_server_error_http_version_not_supported, SC_server_error_variant_also_negotiates, SC_server_error_insufficient_storage,
     SC_server_error_loop_detected, SC_server_error_not_extended, SC_server_error_network_authentication_required]"
  by (simp add: status_codes_def)

lemma status_codes_complete: "c \<in> fst ` set status_codes"
proof -
  have "c \<in> set (map fst status_codes)" unfolding status_codes_enums by (cases c) simp_all
  then show ?thesis by simp
qed

lemma status_codes_clean: "newline \<notin> set (status_text c)"
proof -
  have "list_all (\<lambda>c. newline \<notin> set (status_text c)) (map fst status_codes)" by code_simp
  then show ?thesis using status_codes_complete[of c] by (auto simp: list_all_iff)
qed

text \<open>Every status code has a text, and the text gives the code back.\<close>

lemma find_member: "List.find P xs = Some x \<Longrightarrow> x \<in> set xs \<and> P x"
  by (induction xs) (auto split: if_splits)

lemma status_codes_numbers: "distinct (map (take 3) (map snd status_codes))"
  unfolding status_codes_def by code_simp

lemma status_code_roundtrip: "status_code_of (status_text c) = c"
proof -
  obtain p where p: "List.find (\<lambda>(e, s). e = c) status_codes = Some p"
    using status_codes_complete[of c] by (cases "List.find (\<lambda>(e, s). e = c) status_codes") (auto simp: find_None_iff)
  have c: "p \<in> set status_codes" "fst p = c" using find_member[OF p] by auto
  have "case p of (e, s) \<Rightarrow> s = snd p" by (simp add: case_prod_beta)
  then have "List.find (\<lambda>(e, s). s = snd p) status_codes \<noteq> None" unfolding find_None_iff using c(1) by blast
  then obtain q where q: "List.find (\<lambda>(e, s). s = snd p) status_codes = Some q" by blast
  have qs: "q \<in> set status_codes" "snd q = snd p" using find_member[OF q] by auto
  have "inj_on snd (set status_codes)" using status_codes_numbers by (simp only: distinct_map)
  then have "q = p" using qs(2,1) c(1) by (rule inj_onD)
  with p q c(2) show ?thesis by (simp add: status_text_def status_code_of_def case_prod_unfold)
qed

section \<open>Responses round trip\<close>

definition response_fields :: "string \<Rightarrow> header \<Rightarrow> header" where
  "response_fields content h =
     (if content \<noteq> [] \<and> \<not> has_length h then h @ [(''Content-Length'', to_string (length content))] else h)"

lemma write_header_lines:
  "write_header h (length content) = concat (map (\<lambda>l. l @ crlf) (map (\<lambda>(k, v). k @ '': '' @ v) (response_fields content h))) @ crlf"
  by (simp add: write_header_def response_fields_def case_prod_unfold comp_def)

definition writable :: "header \<Rightarrow> bool" where
  "writable h = list_all (\<lambda>(k, v). CHR '':'' \<notin> set k \<and> newline \<notin> set k \<and> newline \<notin> set v \<and> length k < 2 ^ 62) h"

lemma to_string_no_newline: "newline \<notin> set (to_string n)"
  using show_nat_all_digits[of 10 newline n] by (auto simp: digit_val_def digit_of_def)

lemma response_fields_writable: "writable h \<Longrightarrow> writable (response_fields content h)"
  using to_string_no_newline by (simp add: writable_def response_fields_def)

text \<open>
  What the writers send can be taken apart again: the header ends where the content begins, the first line has the status,
  and the fields are those given, followed by the length of the content, as a number that reads back as it, unless the
  content is empty or the length was given. An empty content gets no length, so that a client on a kept
  connection is not told where the response ends.
\<close>

theorem response_roundtrip:
  assumes "writable h" "length content < 2 ^ 64"
  shows "\<exists>head. header_cut (Response_write c content h) = Some (head, content) \<and>
    (\<exists>ls. getlines head = (''HTTP/1.1 '' @ status_text c @ [CHR 0x0D]) # ls \<and> parse_headers ls [] = response_fields content h) \<and>
    status_code_of (status_text c) = c \<and> stoull (to_string (length content)) = Inr (length content)"
proof -
  let ?fs = "response_fields content h" and ?st = "''HTTP/1.1 '' @ status_text c"
  let ?ls = "?st # map (\<lambda>(k, v). k @ '': '' @ v) ?fs" and ?tail = "concat (map header_line ?fs) @ crlf"
  have fs: "\<forall>(k, v) \<in> set ?fs. CHR '':'' \<notin> set k \<and> newline \<notin> set k \<and> newline \<notin> set v" "\<forall>(k, v) \<in> set ?fs. length k < npos"
    using response_fields_writable[OF assms(1), of content] by (auto simp: writable_def list_all_iff npos_def)
  then have "\<forall>l \<in> set ?ls. newline \<notin> set l \<and> l \<noteq> []" using status_codes_clean[of c] by auto
  moreover have "Response_write c content h = concat (map (\<lambda>l. l @ crlf) ?ls) @ crlf @ content"
    by (simp add: Response_write_def write_header_lines)
  ultimately have cut: "header_cut (Response_write c content h) = Some (concat (map (\<lambda>l. l @ crlf) ?ls) @ crlf, content)"
    using header_cut_lines[of ?ls content] by simp
  have head: "concat (map (\<lambda>l. l @ crlf) ?ls) @ crlf = (?st @ [CHR 0x0D]) @ newline # ?tail"
    by (simp add: header_line_def case_prod_unfold comp_def)
  have "getlines ((?st @ [CHR 0x0D]) @ newline # ?tail) = (?st @ [CHR 0x0D]) # getlines ?tail"
    by (rule getlines_line) (use status_codes_clean[of c] in simp_all)
  moreover have "parse_headers (getlines ?tail) [] = ?fs" using parse_headers_lines[OF fs, of "[]" "[]"] by simp
  ultimately show ?thesis
    using cut head status_code_roundtrip[of c] stoull_to_string[OF assms(2)] by simp
qed

theorem response_roundtrip_witness:
  "\<exists>head. header_cut (Response_write SC_success_ok ''hello'' [(''Server'', ''x'')]) = Some (head, ''hello'')"
  using response_roundtrip[of "[(''Server'', ''x'')]" "''hello''" SC_success_ok] by (auto simp: writable_def)

end
