(* ===== verification/HttpClient.thy ===== *)
theory HttpClient
  imports Responses
begin

text \<open>
  The client of the HTTP library (sws/client_http.hpp), which a program that asks the agent is written with: the text of a request, the reading
  of a response with a length, in chunks or up to the end of the connection, the retry on a connection the server has
  closed meanwhile, and the pool of connections. As for the server, a socket is the list of the pieces its reads get, and its end is
  the end of the connection.
\<close>

section \<open>Requests\<close>

record client =
  cl_host :: string
  cl_port :: u16
  cl_proxy_server :: string

text \<open>The number after the colon is cut to sixteen bits.\<close>

definition parse_host_port :: "string \<Rightarrow> u16 \<Rightarrow> (string \<times> u16) res" where
  "parse_host_port host_port default_port =
     (let host_end = str_find host_port '':'' 0 in
      if host_end = npos then Inr (host_port, default_port)
      else bindR (substr_from host_port (sz_add host_end 1)) (\<lambda>t.
        bindR (stoull t) (\<lambda>n. Inr (take host_end host_port, of_nat n))))"

definition new_client :: "string \<Rightarrow> u16 \<Rightarrow> client res" where
  "new_client host_port default_port =
     bindR (parse_host_port host_port default_port) (\<lambda>(h, p). Inr \<lparr>cl_host = h, cl_port = p, cl_proxy_server = []\<rparr>)"

text \<open>Where the client connects to: the proxy, when there is one.\<close>

definition connect_to :: "client \<Rightarrow> (string \<times> u16) res" where
  "connect_to cl = (if cl_proxy_server cl = [] then Inr (cl_host cl, cl_port cl) else parse_host_port (cl_proxy_server cl) 8080)"

definition corrected_path :: "client \<Rightarrow> bool \<Rightarrow> string \<Rightarrow> string" where
  "corrected_path cl plain path =
     (let p = (if path = [] then ''/'' else path) in
      if cl_proxy_server cl \<noteq> [] \<and> plain then ''http://'' @ cl_host cl @ '':'' @ to_string (unat (cl_port cl)) @ p else p)"

definition create_request_header :: "client \<Rightarrow> bool \<Rightarrow> string \<Rightarrow> string \<Rightarrow> header \<Rightarrow> string" where
  "create_request_header cl plain meth path h =
     meth @ '' '' @ corrected_path cl plain path @ '' HTTP/1.1'' @ crlf @ ''Host: '' @ cl_host cl @ crlf @
     concat (map (\<lambda>(k, v). k @ '': '' @ v @ crlf) h)"

definition client_request :: "client \<Rightarrow> bool \<Rightarrow> string \<Rightarrow> string \<Rightarrow> string \<Rightarrow> header \<Rightarrow> string" where
  "client_request cl plain meth path content h =
     create_request_header cl plain meth path h @
     (if 0 < length content then ''Content-Length: '' @ to_string (length content) @ crlf else []) @ crlf @ content"

text \<open>A content that is a stream is sent like a text of its size.\<close>

definition client_request_stream :: "client \<Rightarrow> bool \<Rightarrow> string \<Rightarrow> string \<Rightarrow> string \<Rightarrow> header \<Rightarrow> string" where
  "client_request_stream cl plain meth path content h =
     (let content_length = length content in
      create_request_header cl plain meth path h @
      (if 0 < content_length then ''Content-Length: '' @ to_string content_length @ crlf else []) @ crlf @
      (if 0 < content_length then content else []))"

lemma stream_sent: "client_request_stream cl plain meth path content h = client_request cl plain meth path content h"
  by (simp add: client_request_stream_def client_request_def)

section \<open>Responses\<close>

record cresponse =
  cr_http_version :: string
  cr_status_code :: string
  cr_header :: header
  cr_content :: string

definition getline :: "string \<Rightarrow> string \<times> string" where
  "getline s = (takeWhile (\<lambda>c. c \<noteq> newline) s, drop 1 (dropWhile (\<lambda>c. c \<noteq> newline) s))"

lemma getline_rest: "getline s = (line, rest) \<Longrightarrow> line \<noteq> [] \<Longrightarrow> length rest < length s"
  using length_dropWhile_less[of s "\<lambda>c. c \<noteq> newline"] by (cases s) (auto simp: getline_def split: if_splits)

function client_fields :: "string \<Rightarrow> header \<Rightarrow> header \<times> string" where
  "client_fields s h =
     (let (line, rest) = getline s in
      if str_find line '':'' 0 = npos then (h, rest)
      else client_fields rest (header_field line (str_find line '':'' 0) h))"
  by pat_completeness auto
termination
proof (relation "measure (\<lambda>(s, h). length s)", goal_cases)
  case (2 s h x line rest)
  then have "line \<noteq> []" by (auto simp: str_find_char_none)
  then show ?case using getline_rest[of s line rest] 2 by simp
qed simp

declare client_fields.simps [simp del]

definition parse_response_header :: "string \<Rightarrow> cresponse" where
  "parse_response_header s =
     (let (line, rest) = getline s; version_end = str_find line '' '' 0 in
      if version_end = npos then \<lparr>cr_http_version = [], cr_status_code = [], cr_header = [], cr_content = rest\<rparr>
      else let (h, content) = client_fields rest [] in
        \<lparr>cr_http_version = (if 5 < length line then take (sz_sub version_end 5) (drop 5 line) else []),
         cr_status_code = (if version_end + 1 < length line
           then take (length line - (version_end + 1) - 1) (drop (version_end + 1) line) else []),
         cr_header = h, cr_content = content\<rparr>)"

text \<open>Exactly \<open>n\<close> more bytes; the rest of a piece stays in the socket.\<close>

fun read_bytes :: "nat \<Rightarrow> string list \<Rightarrow> (string \<times> string list) option" where
  "read_bytes n segs =
     (if n = 0 then Some ([], segs)
      else case segs of
        [] \<Rightarrow> None
      | s # ss \<Rightarrow> if n < length s then Some (take n s, drop n s # ss)
          else map_option (\<lambda>(d, r). (s @ d, r)) (read_bytes (n - length s) ss))"

declare read_bytes.simps [simp del]

text \<open>Up to and with the first line end in the buffer, whose length is returned.\<close>

fun read_crlf :: "string \<Rightarrow> string list \<Rightarrow> (nat \<times> string \<times> string list) option" where
  "read_crlf buf segs =
     (if str_find buf crlf 0 \<noteq> npos then Some (str_find buf crlf 0 + 2, buf, segs)
      else case segs of [] \<Rightarrow> None | s # ss \<Rightarrow> read_crlf (buf @ s) ss)"

declare read_crlf.simps [simp del]

text \<open>\<^verbatim>\<open>std::stol\<close> in base \<open>b\<close>.\<close>

definition stol :: "nat \<Rightarrow> string \<Rightarrow> int res" where
  "stol b s =
     (let (neg, s2) = scan_sign (dropWhile is_space s); s3 = skip_0x b s2; (n, rest) = scan_digits b s3 0;
          v = (if neg then - int n else int n) in
      if rest = s3 then Inl InvalidArgument
      else if v < - (2 ^ 63) \<or> 2 ^ 63 \<le> v then Inl OutOfRange
      else Inr v)"

lemma read_bytes_simps:
  "read_bytes 0 segs = Some ([], segs)"
  "0 < n \<Longrightarrow> read_bytes n [] = None"
  "0 < n \<Longrightarrow> read_bytes n (s # ss) = (if n < length s then Some (take n s, drop n s # ss)
     else map_option (\<lambda>(d, r). (s @ d, r)) (read_bytes (n - length s) ss))"
  by (simp_all add: read_bytes.simps[of n "[]"] read_bytes.simps[of n "s # ss"] read_bytes.simps[of 0 segs])

lemma read_bytes_total: "read_bytes n segs = Some (d, segs') \<Longrightarrow> d @ concat segs' = concat segs \<and> length d = n"
proof (induction segs arbitrary: n d)
  case Nil
  then show ?case by (cases "n = 0") (simp_all add: read_bytes_simps)
next
  case (Cons s ss)
  show ?case
  proof (cases "n = 0 \<or> n < length s")
    case True
    then show ?thesis using Cons.prems by (cases "n = 0") (auto simp: read_bytes_simps)
  next
    case False
    then obtain d' where "read_bytes (n - length s) ss = Some (d', segs')" "d = s @ d'"
      using Cons.prems by (auto simp: read_bytes_simps)
    then show ?thesis using Cons.IH[of "n - length s" d'] False by auto
  qed
qed

lemma read_crlf_total: "read_crlf buf segs = Some (n, buf', segs') \<Longrightarrow> buf' @ concat segs' = buf @ concat segs"
proof (induction buf segs rule: read_crlf.induct)
  case (1 buf segs)
  then show ?case by (subst (asm) (2) read_crlf.simps) (auto split: if_splits list.splits)
qed

text \<open>
  The chunks of a content, one after the other: \<open>None\<close> when the connection ends. What is still in the buffer after the last chunk stays
  in front of the content.
\<close>

function read_chunked :: "string \<Rightarrow> string list \<Rightarrow> string \<Rightarrow> (string \<times> string list) option res" where
  "read_chunked buf segs tmp =
     (case read_crlf buf segs of
        None \<Rightarrow> Inr None
      | Some (n, buf1, segs1) \<Rightarrow>
          let (line, buf2) = getline buf1 in
          if line = [] then Inl Undefined
          else bindR (stol 16 (butlast line)) (\<lambda>len.
            if 2 ^ 63 \<le> 2 + len then Inl Undefined
            else
              let num_additional_bytes = int (length buf2) - int (n - (length line + 1)); more_bytes = 2 + len - num_additional_bytes in
              (case if 0 < more_bytes then read_bytes (nat more_bytes) segs1 else Some ([], segs1) of
                 None \<Rightarrow> Inr None
               | Some (d, segs2) \<Rightarrow>
                   let buf3 = buf2 @ d in
                   if 0 < len then read_chunked (drop 2 (drop (nat len) buf3)) segs2 (tmp @ take (nat len) buf3)
                   else Inr (Some (drop 2 buf3 @ tmp, segs2)))))"
  by pat_completeness auto
termination
proof (relation "measure (\<lambda>(buf, segs, tmp). length buf + length (concat segs))", goal_cases)
  case 1
  show ?case by simp
next
  case (2 buf segs tmp x n q buf1 segs1 r line buf2 len num more y d segs2 buf3)
  have "buf1 @ concat segs1 = buf @ concat segs" using read_crlf_total[of buf segs n buf1 segs1] 2 by simp
  then have a: "length buf + length (concat segs) = length buf1 + length (concat segs1)" by (metis length_append)
  have b: "length buf2 < length buf1" using getline_rest[of buf1 line buf2] 2 by simp
  have "d @ concat segs2 = concat segs1"
    using read_bytes_total[of "nat more" segs1 d segs2] 2 by (auto split: if_splits)
  then have "length d + length (concat segs2) = length (concat segs1)" by (metis length_append)
  moreover have "buf3 = buf2 @ d" using 2 by simp
  then have "length (drop 2 (drop (nat len) buf3)) \<le> length buf2 + length d" by (metis diff_le_self le_trans length_append length_drop)
  ultimately have "length (drop 2 (drop (nat len) buf3)) + length (concat segs2) < length buf + length (concat segs)" using a b by linarith
  then show ?case by simp
qed

declare read_chunked.simps [simp del]

text \<open>
  What reading a response ends with: no header, with what the buffer of the response holds then, a content that is not complete, or the
  response, whether the connection is still open, and what is left in the socket. The content is taken to the end of the connection for the older version, or when a header
  \<^verbatim>\<open>Session\<close> says so.
\<close>

datatype read_outcome = NoHeader string | Broken | Answer cresponse bool "string list"

definition client_read :: "selector \<Rightarrow> string \<Rightarrow> string list \<Rightarrow> read_outcome res" where
  "client_read sel buf segs =
     (case read_until buf segs of
        None \<Rightarrow> Inr (NoHeader (buf @ concat segs))
      | Some (h, x, segs1) \<Rightarrow>
          let r = parse_response_header (h @ x) in
          (case header_find sel (cr_header r) ''Content-Length'' of
             Some v \<Rightarrow> bindR (stoull v) (\<lambda>n.
               if length x < n then
                 (case read_bytes (n - length x) segs1 of
                    None \<Rightarrow> Inr Broken
                  | Some (d, segs2) \<Rightarrow> Inr (Answer (r\<lparr>cr_content := cr_content r @ d\<rparr>) True segs2))
               else Inr (Answer r True segs1))
           | None \<Rightarrow>
               if header_find sel (cr_header r) ''Transfer-Encoding'' = Some ''chunked'' then
                 bindR (read_chunked (cr_content r) segs1 []) (\<lambda>c. case c of
                     None \<Rightarrow> Inr Broken
                   | Some (content, segs2) \<Rightarrow> Inr (Answer (r\<lparr>cr_content := content\<rparr>) True segs2))
               else if cr_http_version r < ''1.1'' \<or> header_find sel (cr_header r) ''Session'' = Some ''close'' then
                 Inr (Answer (r\<lparr>cr_content := cr_content r @ concat segs1\<rparr>) False [])
               else Inr (Answer r True segs1)))"

section \<open>A request and its retry\<close>

text \<open>
  One try: whether the name is resolved, the connection made and the request written, and the pieces the answer
  arrives in. Only a socket that is not open is connected.
\<close>

record try_net =
  tn_resolved :: bool
  tn_connected :: bool
  tn_written :: bool
  tn_pieces :: "string list"

definition client_write :: "try_net \<Rightarrow> string list option" where
  "client_write t = (if tn_written t then Some (tn_pieces t) else None)"

definition client_connect :: "bool \<Rightarrow> try_net \<Rightarrow> string list option" where
  "client_connect is_open t =
     (if \<not> is_open then (if tn_resolved t then (if tn_connected t then client_write t else None) else None) else client_write t)"

text \<open>
  The response, \<open>None\<close> for an error, and whether the socket is open afterwards. A connection that ends before the header is tried again
  once, and what it had sent stays in the buffer of the response. \<open>conn\<close> is the way the kind of client connects and writes.
\<close>

function client_session :: "(bool \<Rightarrow> 'n \<Rightarrow> string list option) \<Rightarrow> selector \<Rightarrow> bool \<Rightarrow> bool \<Rightarrow> string \<Rightarrow> (nat \<Rightarrow> 'n) \<Rightarrow> (cresponse option \<times> bool) res" where
  "client_session conn sel is_open reconnecting buf net =
     (case conn is_open (net 0) of
        None \<Rightarrow> Inr (None, False)
      | Some segs \<Rightarrow> bindR (client_read sel buf segs) (\<lambda>out. case out of
          Answer r op rest \<Rightarrow> Inr (Some r, op)
        | Broken \<Rightarrow> Inr (None, False)
        | NoHeader buf1 \<Rightarrow> if reconnecting then Inr (None, False) else client_session conn sel False True buf1 (\<lambda>n. net (Suc n))))"
  by pat_completeness auto
termination by (relation "measure (\<lambda>(conn, sel, is_open, reconnecting, buf, net). if reconnecting then 0 else 1)") auto

declare client_session.simps [simp del]

section \<open>The pool of connections\<close>

record cconn =
  cn_id :: nat
  cn_in_use :: bool
  cn_reconnecting :: bool

text \<open>The loop over the connections: those in use stay, of the others the first is taken and the rest erased.\<close>

fun pick_connection :: "cconn option \<Rightarrow> cconn list \<Rightarrow> cconn option \<times> cconn list" where
  "pick_connection c [] = (c, [])"
| "pick_connection c (x # xs) =
     (if cn_in_use x then let (c', ys) = pick_connection c xs in (c', x # ys)
      else case c of
        None \<Rightarrow> let (c', ys) = pick_connection (Some x) xs in (c', x # ys)
      | Some _ \<Rightarrow> pick_connection c xs)"

definition get_connection :: "nat \<Rightarrow> cconn list \<Rightarrow> nat \<times> cconn list" where
  "get_connection fresh cs =
     (let (c, cs1) = pick_connection None cs;
          (k, cs2) = (case c of
             Some x \<Rightarrow> (cn_id x, cs1)
           | None \<Rightarrow> (fresh, cs1 @ [\<lparr>cn_id = fresh, cn_in_use = False, cn_reconnecting = False\<rparr>])) in
      (k, map (\<lambda>x. if cn_id x = k then x\<lparr>cn_reconnecting := False, cn_in_use := True\<rparr> else x) cs2))"

definition release_connection :: "nat \<Rightarrow> cconn list \<Rightarrow> cconn list" where
  "release_connection k cs = map (\<lambda>x. if cn_id x = k then x\<lparr>cn_in_use := False\<rparr> else x) cs"

section \<open>Connections are exclusive\<close>

lemma pick_taken: "pick_connection (Some y) cs = (Some y, filter cn_in_use cs)"
  by (induction cs) auto

lemma pick_first:
  "pick_connection None cs = (case dropWhile cn_in_use cs of
     [] \<Rightarrow> (None, cs)
   | x # vs \<Rightarrow> (Some x, takeWhile cn_in_use cs @ x # filter cn_in_use vs))"
  by (induction cs) (auto simp: pick_taken simp del: dropWhile_eq_Nil_conv split: list.splits)

text \<open>
  C30: The connection a request gets is not in use by another one; the connections of the other requests stay as they are, and no idle
  connection is kept beside it, so that the pool never has more connections than there are requests under way.
\<close>

theorem connection_exclusive:
  assumes "distinct (map cn_id cs)" "fresh \<notin> cn_id ` set cs" "get_connection fresh cs = (k, cs')"
  shows "(\<forall>x \<in> set cs. cn_in_use x \<longrightarrow> cn_id x \<noteq> k \<and> x \<in> set cs') \<and> (\<forall>x \<in> set cs'. cn_in_use x) \<and> k \<in> cn_id ` set cs' \<and>
    distinct (map cn_id cs') \<and> length cs' = Suc (length (filter cn_in_use cs))"
proof (cases "dropWhile cn_in_use cs")
  case Nil
  then have all: "\<forall>x \<in> set cs. cn_in_use x" by (simp add: dropWhile_eq_Nil_conv)
  have "k = fresh" "cs' = map (\<lambda>x. if cn_id x = fresh then x\<lparr>cn_reconnecting := False, cn_in_use := True\<rparr> else x)
      (cs @ [\<lparr>cn_id = fresh, cn_in_use = False, cn_reconnecting = False\<rparr>])"
    using assms(3) Nil by (auto simp: get_connection_def pick_first simp del: dropWhile_eq_Nil_conv)
  moreover have "map (\<lambda>x. if cn_id x = fresh then x\<lparr>cn_reconnecting := False, cn_in_use := True\<rparr> else x) cs = cs"
    using assms(2) by (intro map_idI) auto
  ultimately show ?thesis using assms(1,2) all by (auto simp: filter_id_conv)
next
  case (Cons x vs)
  let ?us = "takeWhile cn_in_use cs" and ?up = "\<lambda>y. if cn_id y = cn_id x then y\<lparr>cn_reconnecting := False, cn_in_use := True\<rparr> else y"
  have cs: "cs = ?us @ x # vs" using takeWhile_dropWhile_id[of cn_in_use cs] Cons by simp
  have us: "\<forall>y \<in> set ?us. cn_in_use y" by (meson set_takeWhileD)
  have x: "\<not> cn_in_use x" using hd_dropWhile[of cn_in_use cs] Cons by simp
  have d: "distinct (map cn_id (?us @ x # vs))" using assms(1) cs by metis
  then have other: "\<forall>y \<in> set ?us \<union> set vs. cn_id y \<noteq> cn_id x" "distinct (map cn_id ?us)" "distinct (map cn_id vs)"
      "cn_id ` set ?us \<inter> cn_id ` set vs = {}"
    unfolding map_append list.map distinct_append distinct.simps list.set set_map by (metis Un_iff disjoint_iff image_eqI insertCI)+
  have k: "k = cn_id x" and cs': "cs' = map ?up (?us @ x # filter cn_in_use vs)"
    using assms(3) Cons by (auto simp: get_connection_def pick_first)
  have "map ?up ?us = ?us" "map ?up (filter cn_in_use vs) = filter cn_in_use vs" using other(1) by (auto intro!: map_idI)
  then have cs2: "cs' = ?us @ x\<lparr>cn_reconnecting := False, cn_in_use := True\<rparr> # filter cn_in_use vs" using cs' by simp
  have "filter cn_in_use cs = ?us @ filter cn_in_use vs" using us x by (subst cs) (simp add: filter_id_conv)
  moreover have "set cs = insert x (set ?us \<union> set vs)" using arg_cong[OF cs, of set] by simp
  ultimately show ?thesis unfolding cs2 k using other us x distinct_map_filter[OF other(3)] by auto
qed

section \<open>The server reads what the client sends\<close>

definition client_fields_of :: "client \<Rightarrow> string \<Rightarrow> header \<Rightarrow> header" where
  "client_fields_of cl content h =
     (''Host'', cl_host cl) # h @ (if content = [] then [] else [(''Content-Length'', to_string (length content))])"

lemma client_request_text:
  "client_request cl plain meth path content h =
     request_text meth (corrected_path cl plain path) ''1.1'' (client_fields_of cl content h) @ content"
  by (simp add: client_request_def create_request_header_def request_text_def client_fields_of_def header_line_def case_prod_unfold)

lemma length_key: "case_insensitive_equal k ''Content-Length'' = case_insensitive_equal k ''content-length''"
proof -
  have "map lower ''Content-Length'' = map lower ''content-length''" by code_simp
  then show ?thesis by (simp only: case_insensitive_lower)
qed

lemma has_length_filter: "\<not> has_length h \<Longrightarrow> filter (\<lambda>(k, v). case_insensitive_equal k ''Content-Length'') h = []"
  by (induction h rule: has_length.induct) (simp_all add: length_key)

lemma find_length:
  assumes "\<not> has_length h" "\<forall>v. sel [v] = v"
  shows "header_find sel (h @ [(''Content-Length'', v)]) ''Content-Length'' = Some v"
  using has_length_filter[OF assms(1)] assms(2) by (simp add: header_find_def case_insensitive_lower)

text \<open>
  C16: What the client sends for a request is read by the server as this request: the header ends where the content begins, method, path and
  version are those of the request, the fields are the host, those given, and the length of the content, and the server
  reads exactly as much content as was sent.
\<close>

theorem client_request_read:
  assumes "sendable meth (corrected_path cl plain path) ''1.1'' ((''Host'', cl_host cl) # h)" "\<not> has_length h"
    and "\<forall>v. sel [v] = v" "length content < 2 ^ 64"
  shows "\<exists>head req. header_cut (client_request cl plain meth path content h) = Some (head, content) \<and>
    parse_request (client_request cl plain meth path content h) = Some req \<and>
    req = \<lparr>r_method = meth, r_path = corrected_path cl plain path, r_http_version = ''1.1'',
      r_header = client_fields_of cl content h, r_path_match = None\<rparr> \<and>
    (\<forall>k. content_step sel req k = (if k < length content then ReadContent (length content - k) else Dispatch))"
proof -
  let ?h = "client_fields_of cl content h" and ?p = "corrected_path cl plain path"
  have s: "sendable meth ?p ''1.1'' ?h"
    using assms(1) to_string_no_newline by (auto simp: sendable_def client_fields_of_def)
  have "\<not> has_length ((''Host'', cl_host cl) # h)" using assms(2) by (simp add: case_insensitive_lower)
  from find_length[OF this assms(3)] has_length_filter[OF this]
  have "header_find sel ?h ''Content-Length'' = (if content = [] then None else Some (to_string (length content)))"
    by (cases "content = []") (simp_all add: client_fields_of_def header_find_def del: filter.simps)
  then show ?thesis
    using header_cut_request[OF s, of content] parse_request_text[OF s, of content] stoull_to_string[OF assms(4)]
    unfolding client_request_text by (auto simp: content_step_def)
qed

section \<open>The client reads what the server sends\<close>

lemma getline_line: "newline \<notin> set l \<Longrightarrow> getline (l @ newline # rest) = (l, rest)"
  by (induction l) (auto simp: getline_def)

lemma client_fields_lines:
  assumes "\<forall>l \<in> set ls. newline \<notin> set l \<and> str_find (l @ [CHR 0x0D]) '':'' 0 \<noteq> npos"
  shows "client_fields (concat (map (\<lambda>l. l @ crlf) ls) @ crlf @ x) h = (parse_headers (map (\<lambda>l. l @ [CHR 0x0D]) ls) h, x)"
  using assms
proof (induction ls arbitrary: h)
  case Nil
  have "getline ([CHR 0x0D] @ newline # x) = ([CHR 0x0D], x)" by (rule getline_line) simp
  then show ?case by (simp add: client_fields.simps str_find_char_none)
next
  case (Cons l ls)
  let ?t = "concat (map (\<lambda>l. l @ crlf) ls) @ crlf @ x"
  have "getline ((l @ [CHR 0x0D]) @ newline # ?t) = (l @ [CHR 0x0D], ?t)" using Cons.prems by (intro getline_line) simp
  then show ?case using Cons by (subst client_fields.simps) simp
qed

lemma response_head:
  assumes "newline \<notin> set st" "\<forall>l \<in> set ls. newline \<notin> set l \<and> str_find (l @ [CHR 0x0D]) '':'' 0 \<noteq> npos"
  shows "parse_response_header (concat (map (\<lambda>l. l @ crlf) ((''HTTP/1.1 '' @ st) # ls)) @ crlf @ x) =
    \<lparr>cr_http_version = ''1.1'', cr_status_code = st, cr_header = parse_headers (map (\<lambda>l. l @ [CHR 0x0D]) ls) [], cr_content = x\<rparr>"
proof -
  let ?t = "concat (map (\<lambda>l. l @ crlf) ls) @ crlf @ x" and ?l = "''HTTP/1.1 '' @ st @ [CHR 0x0D]"
  have "getline (?l @ newline # ?t) = (?l, ?t)" using assms(1) by (intro getline_line) simp
  moreover have "str_find (''HTTP/1.1'' @ CHR '' '' # st @ [CHR 0x0D]) '' '' 0 = 8" by (subst str_find_char) simp_all
  ultimately show ?thesis
    using client_fields_lines[OF assms(2), of x "[]"] by (simp add: parse_response_header_def npos_def sz_sub_def)
qed

lemma read_until_split:
  "header_cut (buf @ concat ss) = Some (h, y) \<Longrightarrow> [] \<notin> set ss \<Longrightarrow>
   \<exists>x ss1. read_until buf ss = Some (h, x, ss1) \<and> x @ concat ss1 = y \<and> [] \<notin> set ss1"
proof (induction ss arbitrary: buf)
  case Nil
  then show ?case by (simp add: read_until.simps)
next
  case (Cons s ss)
  show ?case
  proof (cases "header_cut buf")
    case None
    then show ?thesis using Cons.IH[of "buf @ s"] Cons.prems by (simp add: read_until.simps[of buf])
  next
    case (Some hx)
    then have "header_cut (buf @ concat (s # ss)) = Some (fst hx, snd hx @ concat (s # ss))"
      using header_cut_append[of buf "fst hx" "snd hx"] by simp
    then show ?thesis using Cons.prems Some by (cases hx) (simp add: read_until.simps[of buf])
  qed
qed

lemma concat_nonempty: "[] \<notin> set ss \<Longrightarrow> concat ss = [] \<Longrightarrow> ss = []"
  by (cases ss) auto

lemma read_bytes_some:
  assumes "n \<le> length (concat ss)" "[] \<notin> set ss"
  shows "\<exists>ss'. read_bytes n ss = Some (take n (concat ss), ss') \<and> concat ss' = drop n (concat ss) \<and> [] \<notin> set ss'"
  using assms
proof (induction ss arbitrary: n)
  case Nil
  then show ?case by (simp add: read_bytes_simps)
next
  case (Cons s ss)
  show ?case
  proof (cases "n = 0 \<or> n < length s")
    case True
    then show ?thesis using Cons.prems by (cases "n = 0") (auto simp: read_bytes_simps)
  next
    case False
    then show ?thesis using Cons.IH[of "n - length s"] Cons.prems by (auto simp: read_bytes_simps)
  qed
qed

lemma read_bytes_all:
  assumes "[] \<notin> set ss"
  shows "read_bytes (length (concat ss)) ss = Some (concat ss, [])"
proof -
  obtain ss' where s: "read_bytes (length (concat ss)) ss = Some (take (length (concat ss)) (concat ss), ss')"
      "concat ss' = drop (length (concat ss)) (concat ss)" "[] \<notin> set ss'"
    using read_bytes_some[OF order_refl assms] by blast
  have "ss' = []" by (rule concat_nonempty[OF s(3)]) (use s(2) in \<open>simp del: concat_eq_Nil_conv\<close>)
  with s(1) show ?thesis by simp
qed

lemma client_read_length:
  assumes "newline \<notin> set st" "\<forall>l \<in> set ls. newline \<notin> set l \<and> str_find (l @ [CHR 0x0D]) '':'' 0 \<noteq> npos"
    and "concat segs = concat (map (\<lambda>l. l @ crlf) ((''HTTP/1.1 '' @ st) # ls)) @ crlf @ content" "[] \<notin> set segs"
    and "header_find sel (parse_headers (map (\<lambda>l. l @ [CHR 0x0D]) ls) []) ''Content-Length'' = Some (to_string (length content))"
    and "length content < 2 ^ 64"
  shows "client_read sel [] segs = Inr (Answer \<lparr>cr_http_version = ''1.1'', cr_status_code = st,
    cr_header = parse_headers (map (\<lambda>l. l @ [CHR 0x0D]) ls) [], cr_content = content\<rparr> True [])"
proof -
  let ?head = "concat (map (\<lambda>l. l @ crlf) ((''HTTP/1.1 '' @ st) # ls)) @ crlf"
  have "\<forall>l \<in> set ((''HTTP/1.1 '' @ st) # ls). newline \<notin> set l \<and> l \<noteq> []"
    using assms(1,2) by (auto simp: str_find_char_none)
  then have "header_cut ([] @ concat segs) = Some (?head, content)"
    using header_cut_lines[of "(''HTTP/1.1 '' @ st) # ls" content] assms(3) by simp
  from read_until_split[OF this assms(4)] obtain x ss where r: "read_until [] segs = Some (?head, x, ss)" "x @ concat ss = content" "[] \<notin> set ss"
    by blast
  note h = response_head[OF assms(1,2), of x]
  show ?thesis
  proof (cases "ss = []")
    case True
    then show ?thesis using r h assms(5) stoull_to_string[OF assms(6)] by (simp add: client_read_def)
  next
    case False
    then have "concat ss \<noteq> []" using concat_nonempty r(3) by blast
    then have "length x < length content" using r(2) by (metis length_append length_greater_0_conv less_add_same_cancel1)
    moreover have "length content - length x = length (concat ss)" using r(2) by (metis add_diff_cancel_left' length_append)
    then have "read_bytes (length content - length x) ss = Some (concat ss, [])" using read_bytes_all[OF r(3)] by simp
    ultimately show ?thesis using r h assms(5) stoull_to_string[OF assms(6)] by (simp add: client_read_def)
  qed
qed

lemma field_lines:
  assumes "writable h"
  shows "\<forall>l \<in> set (map (\<lambda>(k, v). k @ '': '' @ v) h). newline \<notin> set l \<and> str_find (l @ [CHR 0x0D]) '':'' 0 \<noteq> npos"
    "parse_headers (map (\<lambda>l. l @ [CHR 0x0D]) (map (\<lambda>(k, v). k @ '': '' @ v) h)) acc = acc @ h"
proof -
  have f: "str_find ((k @ '': '' @ v) @ [CHR 0x0D]) '':'' 0 = length k" "length k \<noteq> npos"
    if "(k, v) \<in> set h" for k v
    using that assms str_find_char[of "CHR '':''" k "'' '' @ v @ [CHR 0x0D]"] by (auto simp: writable_def list_all_iff npos_def)
  then show "\<forall>l \<in> set (map (\<lambda>(k, v). k @ '': '' @ v) h). newline \<notin> set l \<and> str_find (l @ [CHR 0x0D]) '':'' 0 \<noteq> npos"
    using assms by (auto simp: writable_def list_all_iff)
  show "parse_headers (map (\<lambda>l. l @ [CHR 0x0D]) (map (\<lambda>(k, v). k @ '': '' @ v) h)) acc = acc @ h"
    using assms
  proof (induction h arbitrary: acc)
    case (Cons kv h)
    obtain k v where kv: "kv = (k, v)" by (cases kv)
    have k: "CHR '':'' \<notin> set k" "length k \<noteq> npos" using Cons.prems by (auto simp: writable_def kv npos_def)
    have "str_find (k @ CHR '':'' # '' '' @ v @ [CHR 0x0D]) '':'' 0 = length k" by (rule str_find_char[OF k(1)])
    moreover have "writable h" using Cons.prems by (simp add: writable_def)
    ultimately show ?case using Cons.IH[of "acc @ [(k, v)]"] header_field_line[OF k(1), of v acc] k(2) by (simp add: kv)
  qed simp
qed

text \<open>
  C15: What the server writes for a response is read by the client as this response, however the network cuts it into
  pieces: version, status, fields and content are those written, the connection stays open, and nothing is left in it.
\<close>

theorem client_reads_response:
  assumes "writable h" "\<not> has_length h" "content \<noteq> []" "length content < 2 ^ 64" "\<forall>v. sel [v] = v"
    and "concat segs = Response_write c content h" "[] \<notin> set segs"
  shows "client_read sel [] segs = Inr (Answer \<lparr>cr_http_version = ''1.1'', cr_status_code = status_text c,
    cr_header = h @ [(''Content-Length'', to_string (length content))], cr_content = content\<rparr> True [])"
proof -
  have f: "response_fields content h = h @ [(''Content-Length'', to_string (length content))]"
    using assms(2,3) by (simp add: response_fields_def)
  note fl = field_lines[OF response_fields_writable[OF assms(1), of content], unfolded f]
  have "concat segs = concat (map (\<lambda>l. l @ crlf) ((''HTTP/1.1 '' @ status_text c) #
      map (\<lambda>(k, v). k @ '': '' @ v) (h @ [(''Content-Length'', to_string (length content))]))) @ crlf @ content"
    unfolding assms(6) Response_write_def write_header_lines f by simp
  from client_read_length[OF status_codes_clean fl(1) this assms(7) _ assms(4), of sel] find_length[OF assms(2,5)]
  show ?thesis unfolding fl(2) by simp
qed

lemma client_read_unbounded:
  assumes "newline \<notin> set st" "\<forall>l \<in> set ls. newline \<notin> set l \<and> str_find (l @ [CHR 0x0D]) '':'' 0 \<noteq> npos"
    and "hs = parse_headers (map (\<lambda>l. l @ [CHR 0x0D]) ls) []" "header_find sel hs ''Content-Length'' = None"
    and "header_find sel hs ''Transfer-Encoding'' = None" "header_find sel hs ''Session'' = None"
    and "head = concat (map (\<lambda>l. l @ crlf) ((''HTTP/1.1 '' @ st) # ls)) @ crlf"
  shows "client_read sel [] [head, body] =
    Inr (Answer \<lparr>cr_http_version = ''1.1'', cr_status_code = st, cr_header = hs, cr_content = []\<rparr> True [body])"
proof -
  have "\<forall>l \<in> set ((''HTTP/1.1 '' @ st) # ls). newline \<notin> set l \<and> l \<noteq> []"
    using assms(1,2) by (auto simp: str_find_char_none)
  then have "header_cut head = Some (head, [])"
    using header_cut_lines[of "(''HTTP/1.1 '' @ st) # ls" "[]"] unfolding assms(7) by simp
  then have "read_until [] [head, body] = Some (head, [], [body])" by (simp add: read_until.simps)
  moreover have "parse_response_header (head @ []) = \<lparr>cr_http_version = ''1.1'', cr_status_code = st, cr_header = hs, cr_content = []\<rparr>"
    using response_head[OF assms(1,2), of "[]"] unfolding assms(3,7) by simp
  ultimately show ?thesis using assms(4-6) by (simp add: client_read_def)
qed

text \<open>
  The client looks for a field \<^verbatim>\<open>Session\<close> where the protocol has \<^verbatim>\<open>Connection\<close>: of a response without a length that ends with its
  connection, only what came with the header is returned, and the rest stays in the socket for the next response.
\<close>

theorem close_delimited_cut:
  "client_read sel [] [concat (map (\<lambda>l. l @ crlf) [''HTTP/1.1 '' @ ''200 OK'', ''Connection: close'']) @ crlf, body] =
     Inr (Answer \<lparr>cr_http_version = ''1.1'', cr_status_code = ''200 OK'', cr_header = [(''Connection'', ''close'')], cr_content = []\<rparr> True [body])"
proof -
  have w: "writable [(''Connection'', ''close'')]" by (simp add: writable_def)
  have l: "map (\<lambda>(k, v). k @ '': '' @ v) [(''Connection'', ''close'')] = [''Connection: close'']" by simp
  have h: "header_find sel [(''Connection'', ''close'')] k = None" if "length k \<noteq> 10" for k
    using that by (simp add: header_find_def case_insensitive_equal_def)
  show ?thesis
    using field_lines(2)[OF w, of "[]"] unfolding l
    by (intro client_read_unbounded[OF _ field_lines(1)[OF w, unfolded l] _ h h h refl]) simp_all
qed

section \<open>The client reads a JSON answer of the agent\<close>

definition json_fields :: "nat \<Rightarrow> header" where
  "json_fields n = [(''Server'', ''watched.agent''), (''Content-Type'', ''application/json''), (''Access-Control-Allow-Origin'', ''*''),
     (''Content-Length'', to_string n)]"

definition json_lines :: "nat \<Rightarrow> string list" where
  "json_lines n = [''Server: watched.agent'', ''Content-Type:application/json'', ''Access-Control-Allow-Origin:*'', ''Content-Length: '' @ to_string n]"

lemma json_lines_text:
  "setResponseJson content = concat (map (\<lambda>l. l @ crlf) ((''HTTP/1.1 '' @ ''200 OK'') # json_lines (length content))) @ crlf @ content"
  by (simp add: setResponseJson_def json_lines_def)

lemma length_line: "str_find ((''Content-Length: '' @ to_string n) @ [CHR 0x0D]) '':'' 0 = 14"
proof -
  have "str_find (''Content-Length'' @ CHR '':'' # '' '' @ to_string n @ [CHR 0x0D]) '':'' 0 = length ''Content-Length''"
    by (rule str_find_char) simp
  then show ?thesis by simp
qed

lemma json_lines_fields:
  "\<forall>l \<in> set (json_lines n). newline \<notin> set l \<and> str_find (l @ [CHR 0x0D]) '':'' 0 \<noteq> npos"
  "parse_headers (map (\<lambda>l. l @ [CHR 0x0D]) (json_lines n)) [] = json_fields n"
proof -
  have c: "str_find (''Server: watched.agent'' @ [CHR 0x0D]) '':'' 0 = 6"
    "str_find (''Content-Type:application/json'' @ [CHR 0x0D]) '':'' 0 = 12"
    "str_find (''Access-Control-Allow-Origin:*'' @ [CHR 0x0D]) '':'' 0 = 27"
    by (simp_all add: str_find_def)
  have np: "(6::nat) \<noteq> npos" "(12::nat) \<noteq> npos" "(27::nat) \<noteq> npos" "(14::nat) \<noteq> npos" by (simp_all add: npos_def)
  show "\<forall>l \<in> set (json_lines n). newline \<notin> set l \<and> str_find (l @ [CHR 0x0D]) '':'' 0 \<noteq> npos"
    unfolding json_lines_def list.set ball_simps c length_line using np to_string_no_newline[of n] by simp
  have h: "header_field (''Server: watched.agent'' @ [CHR 0x0D]) 6 acc = acc @ [(''Server'', ''watched.agent'')]"
    "header_field (''Content-Type:application/json'' @ [CHR 0x0D]) 12 acc = acc @ [(''Content-Type'', ''application/json'')]"
    "header_field (''Access-Control-Allow-Origin:*'' @ [CHR 0x0D]) 27 acc = acc @ [(''Access-Control-Allow-Origin'', ''*'')]"
    "header_field ((''Content-Length: '' @ to_string n) @ [CHR 0x0D]) 14 acc = acc @ [(''Content-Length'', to_string n)]" for acc
    using header_field_line[of "''Content-Length''" "to_string n" acc] by (simp_all add: header_field_def)
  show "parse_headers (map (\<lambda>l. l @ [CHR 0x0D]) (json_lines n)) [] = json_fields n"
    unfolding json_lines_def list.map parse_headers.simps c length_line h if_not_P[OF np(1)] if_not_P[OF np(2)] if_not_P[OF np(3)] if_not_P[OF np(4)]
    by (simp add: json_fields_def)
qed

lemma client_reads_json:
  assumes "concat segs = setResponseJson content" "[] \<notin> set segs" "\<forall>v. sel [v] = v" "length content < 2 ^ 64"
  shows "client_read sel [] segs = Inr (Answer \<lparr>cr_http_version = ''1.1'', cr_status_code = ''200 OK'',
    cr_header = json_fields (length content), cr_content = content\<rparr> True [])"
proof -
  let ?n = "length content"
  have "json_fields ?n = take 3 (json_fields ?n) @ [(''Content-Length'', to_string ?n)]" "\<not> has_length (take 3 (json_fields ?n))"
    by (simp_all add: json_fields_def case_insensitive_equal_def lower_def)
  then have "header_find sel (json_fields ?n) ''Content-Length'' = Some (to_string ?n)" using find_length[OF _ assms(3)] by metis
  then show ?thesis
    using client_read_length[of "''200 OK''" "json_lines ?n" segs content sel] json_lines_fields[of ?n] assms json_lines_text[of content] by simp
qed

section \<open>Chunks\<close>

definition chunk_text :: "string \<Rightarrow> string" where
  "chunk_text d = to_hex (length d) @ crlf @ d @ crlf"

definition chunked_text :: "string list \<Rightarrow> string" where
  "chunked_text ds = concat (map chunk_text ds) @ chunk_text []"

lemma stol_to_hex:
  assumes "n < 2 ^ 63"
  shows "stol 16 (to_hex n) = Inr (int n)"
proof -
  have "skip_0x 16 (to_hex n) = to_hex n" using skip_0x_show_nat[of 16 "[]" n] by (simp add: no_digit_first_def)
  moreover have "scan_digits 16 (to_hex n) 0 = (n, [])" using scan_show_nat[of 16 "[]" n] by (simp add: no_digit_first_def)
  moreover have "dropWhile is_space (to_hex n) = to_hex n" "scan_sign (to_hex n) = (False, to_hex n)"
    using dropWhile_show_nat[of 16 n "[]"] scan_sign_show_nat[of 16 n "[]"] by simp_all
  moreover have "int n < 2 ^ 63" using assms by (metis of_nat_less_iff of_nat_numeral of_nat_power)
  ultimately show ?thesis by (simp add: stol_def Let_def show_nat_nonempty[THEN not_sym])
qed

lemma to_hex_plain: "newline \<notin> set (to_hex n)" "CHR 0x0D \<notin> set (to_hex n)"
  using show_nat_all_digits[of 16 newline n] show_nat_all_digits[of 16 "CHR 0x0D" n] by (auto simp: digit_val_def digit_of_def)

lemma find_crlf_none: "newline \<notin> set xs \<Longrightarrow> find_at crlf xs i = npos"
proof (induction xs arbitrary: i)
  case (Cons x xs)
  then show ?case by (cases xs) auto
qed simp

lemma find_crlf: "newline \<notin> set l \<Longrightarrow> find_at crlf (l @ CHR 0x0D # newline # y) i = i + length l"
proof (induction l arbitrary: i)
  case (Cons x l)
  then show ?case by (cases l) auto
qed simp

lemma read_crlf_line:
  assumes "newline \<notin> set l" "length l < npos" "buf @ concat ss = l @ crlf @ rest" "[] \<notin> set ss"
  shows "\<exists>y ss1. read_crlf buf ss = Some (length l + 2, l @ crlf @ y, ss1) \<and> y @ concat ss1 = rest \<and> [] \<notin> set ss1"
  using assms(3,4)
proof (induction ss arbitrary: buf)
  case Nil
  then show ?case using assms(1,2) by (simp add: read_crlf.simps str_find_def find_crlf)
next
  case (Cons s ss)
  show ?case
  proof (cases "length buf < length l + 2")
    case True
    have "newline \<notin> set buf"
    proof -
      have "buf = take (length buf) ((l @ [CHR 0x0D]) @ newline # rest)" using Cons.prems(1) by (metis append.assoc append_Cons append_Nil append_eq_conv_conj)
      also have "\<dots> = take (length buf) (l @ [CHR 0x0D])" unfolding take_append[of _ "l @ [CHR 0x0D]"] using True by simp
      finally have "set buf \<subseteq> set (l @ [CHR 0x0D])" by (metis set_take_subset)
      then show ?thesis using assms(1) by auto
    qed
    then have "str_find buf crlf 0 = npos" by (simp add: str_find_def find_crlf_none)
    then show ?thesis using Cons.IH[of "buf @ s"] Cons.prems by (simp add: read_crlf.simps[of buf])
  next
    case False
    then obtain y where y: "buf = l @ crlf @ y" "y @ concat (s # ss) = rest"
    proof -
      have "take (length l + 2) (buf @ concat (s # ss)) = l @ crlf" using Cons.prems(1) by simp
      then have "take (length l + 2) buf = l @ crlf" using False by simp
      then have "buf = (l @ crlf) @ drop (length l + 2) buf" by (metis append_take_drop_id)
      then show thesis using that[of "drop (length l + 2) buf"] Cons.prems(1) by (metis append.assoc same_append_eq)
    qed
    have "str_find buf crlf 0 = length l" using assms(1) by (simp add: y(1) str_find_def find_crlf)
    then have "read_crlf buf (s # ss) = Some (length l + 2, buf, s # ss)" using assms(2) by (simp add: read_crlf.simps[of buf])
    then show ?thesis using Cons.prems(2) y by (intro exI[of _ y] exI[of _ "s # ss"]) simp
  qed
qed

text \<open>The bytes of a chunk and its line end, whether they are in the buffer or still have to be read.\<close>

lemma read_chunk_data:
  assumes "y @ concat ss = d @ crlf @ rest" "[] \<notin> set ss"
  shows "\<exists>dd z ss2. (if 0 < 2 + int (length d) - int (length y) then read_bytes (nat (2 + int (length d) - int (length y))) ss
      else Some ([], ss)) = Some (dd, ss2) \<and> y @ dd = d @ crlf @ z \<and> z @ concat ss2 = rest \<and> [] \<notin> set ss2"
proof (cases "length y < length d + 2")
  case True
  let ?m = "length d + 2 - length y"
  have m: "nat (2 + int (length d) - int (length y)) = ?m" "0 < 2 + int (length d) - int (length y)" using True by simp_all
  have len: "length y + length (concat ss) = length d + 2 + length rest" using arg_cong[OF assms(1), of length] by simp
  then have "?m \<le> length (concat ss)" by simp
  from read_bytes_some[OF this assms(2)] obtain ss2 where
    s: "read_bytes ?m ss = Some (take ?m (concat ss), ss2)" "concat ss2 = drop ?m (concat ss)" "[] \<notin> set ss2" by blast
  have "y @ take ?m (concat ss) = take (length d + 2) (y @ concat ss)" using True by simp
  also have "\<dots> = d @ crlf" unfolding assms(1) by simp
  finally have y: "y @ take ?m (concat ss) = d @ crlf @ []" by simp
  have "drop ?m (concat ss) = drop (length d + 2) (y @ concat ss)" using True by simp
  also have "\<dots> = rest" unfolding assms(1) by simp
  finally show ?thesis using s y m by (intro exI[of _ "take ?m (concat ss)"] exI[of _ "[]"] exI[of _ ss2]) simp
next
  case False
  have "take (length d + 2) y = d @ crlf" "drop (length d + 2) y @ concat ss = rest"
    using False arg_cong[OF assms(1), of "take (length d + 2)"] arg_cong[OF assms(1), of "drop (length d + 2)"] by simp_all
  moreover have "y = take (length d + 2) y @ drop (length d + 2) y" by simp
  ultimately have "y = d @ crlf @ drop (length d + 2) y" by (metis append.assoc)
  then show ?thesis
    using False assms(2) \<open>drop (length d + 2) y @ concat ss = rest\<close>
    by (intro exI[of _ "[]"] exI[of _ "drop (length d + 2) y"] exI[of _ ss]) simp
qed

lemma read_chunked_step:
  assumes "read_crlf buf segs = Some (length line + 1, buf1, segs1)" "getline buf1 = (line, buf2)" "line \<noteq> []"
    and "stol 16 (butlast line) = Inr len" "2 + len < 2 ^ 63"
    and "(if 0 < 2 + len - int (length buf2) then read_bytes (nat (2 + len - int (length buf2))) segs1 else Some ([], segs1)) = Some (dd, segs2)"
  shows "read_chunked buf segs tmp =
    (if 0 < len then read_chunked (drop 2 (drop (nat len) (buf2 @ dd))) segs2 (tmp @ take (nat len) (buf2 @ dd))
     else Inr (Some (drop 2 (buf2 @ dd) @ tmp, segs2)))"
proof -
  have "\<not> 2 ^ 63 \<le> 2 + len" using assms(5) by simp
  moreover have "int (length buf2) - int (length line + 1 - (length line + 1)) = int (length buf2)" by simp
  ultimately show ?thesis
    unfolding read_chunked.simps[of buf segs tmp] assms(1) Let_def option.case prod.case assms(2) if_not_P[OF assms(3)] assms(4) bindR.simps
    by (simp only: if_False assms(6) option.case prod.case)
qed

lemma read_chunk:
  assumes "buf @ concat ss = chunk_text d @ rest" "[] \<notin> set ss" "length d < 2 ^ 60"
  shows "\<exists>z ss2. z @ concat ss2 = rest \<and> [] \<notin> set ss2 \<and>
    read_chunked buf ss tmp = (if d = [] then Inr (Some (z @ tmp, ss2)) else read_chunked z ss2 (tmp @ d))"
proof -
  let ?l = "to_hex (length d)"
  have l: "newline \<notin> set ?l" "length ?l < npos"
    using to_hex_plain length_show_nat[of 16 "length d" 15] assms(3) by (simp_all add: npos_def)
  have "buf @ concat ss = ?l @ crlf @ d @ crlf @ rest" using assms(1) by (simp add: chunk_text_def)
  from read_crlf_line[OF l this assms(2)] obtain y ss1 where
    y: "read_crlf buf ss = Some (length ?l + 2, ?l @ crlf @ y, ss1)" "y @ concat ss1 = d @ crlf @ rest" "[] \<notin> set ss1" by blast
  have g: "getline (?l @ crlf @ y) = (?l @ [CHR 0x0D], y)"
    using getline_line[of "?l @ [CHR 0x0D]" y] l(1) by simp
  from read_chunk_data[OF y(2,3)] obtain dd z ss2 where
    dd: "(if 0 < 2 + int (length d) - int (length y) then read_bytes (nat (2 + int (length d) - int (length y))) ss1
      else Some ([], ss1)) = Some (dd, ss2)" "y @ dd = d @ crlf @ z" "z @ concat ss2 = rest" "[] \<notin> set ss2" by blast
  have "stol 16 (butlast (?l @ [CHR 0x0D])) = Inr (int (length d))" using stol_to_hex[of "length d"] assms(3) by simp
  moreover have "read_crlf buf ss = Some (length (?l @ [CHR 0x0D]) + 1, ?l @ crlf @ y, ss1)" using y(1) by simp
  ultimately have "read_chunked buf ss tmp = (if 0 < int (length d)
      then read_chunked (drop 2 (drop (nat (int (length d))) (y @ dd))) ss2 (tmp @ take (nat (int (length d))) (y @ dd))
      else Inr (Some (drop 2 (y @ dd) @ tmp, ss2)))"
    using assms(3) by (intro read_chunked_step[OF _ g _ _ _ dd(1)]) simp_all
  then have "read_chunked buf ss tmp = (if d = [] then Inr (Some (z @ tmp, ss2)) else read_chunked z ss2 (tmp @ d))"
    unfolding dd(2) by (cases "d = []") simp_all
  then show ?thesis using dd(3,4) by blast
qed

text \<open>
  C17: A content that comes in chunks is put together again: reading ends, and gives the chunks one after the other, whatever is in the
  buffer already and however the network cuts the rest into pieces.
\<close>

theorem chunked_roundtrip:
  assumes "buf @ concat segs = chunked_text ds" "[] \<notin> set segs" "list_all (\<lambda>d. d \<noteq> [] \<and> length d < 2 ^ 60) ds"
  shows "read_chunked buf segs tmp = Inr (Some (tmp @ concat ds, []))"
  using assms
proof (induction ds arbitrary: buf segs tmp)
  case Nil
  then have "buf @ concat segs = chunk_text [] @ []" by (simp add: chunked_text_def)
  from read_chunk[OF this Nil.prems(2), of tmp] obtain z ss2 where "z @ concat ss2 = []" "[] \<notin> set ss2"
      "read_chunked buf segs tmp = Inr (Some (z @ tmp, ss2))" by auto
  then show ?case using concat_nonempty[of ss2] by auto
next
  case (Cons d ds)
  have d: "d \<noteq> []" "length d < 2 ^ 60" "list_all (\<lambda>d. d \<noteq> [] \<and> length d < 2 ^ 60) ds" using Cons.prems(3) by simp_all
  have "buf @ concat segs = chunk_text d @ chunked_text ds" using Cons.prems(1) by (simp add: chunked_text_def)
  from read_chunk[OF this Cons.prems(2) d(2), of tmp] d(1) obtain z ss2 where
    "z @ concat ss2 = chunked_text ds" "[] \<notin> set ss2" "read_chunked buf segs tmp = read_chunked z ss2 (tmp @ d)" by auto
  with Cons.IH[of z ss2 "tmp @ d"] d(3) show ?case by simp
qed

section \<open>The retry\<close>

lemma client_session_answer:
  assumes "client_read sel buf segs = Inr (Answer r op rest)" "conn is_open (net 0) = Some segs"
  shows "client_session conn sel is_open reconnecting buf net = Inr (Some r, op)"
  using assms by (subst client_session.simps) simp

text \<open>
  A connection that ends before the header of the response, as one the server has closed meanwhile does, is tried
  again once: the result is that of the second try, and an error when that fails in the same way. The second response is read
  behind what the first connection had already sent.
\<close>

theorem session_retries_once:
  assumes "conn is_open (net 0) = Some segs0" "read_until [] segs0 = None" "conn False (net 1) = Some segs1"
  shows "client_session conn sel is_open False [] net = bindR (client_read sel (concat segs0) segs1) (\<lambda>out. case out of
      Answer r op rest \<Rightarrow> Inr (Some r, op) | Broken \<Rightarrow> Inr (None, False) | NoHeader _ \<Rightarrow> Inr (None, False))"
proof -
  have "client_read sel [] segs0 = Inr (NoHeader (concat segs0))" using assms(2) by (simp add: client_read_def)
  then have "client_session conn sel is_open False [] net = client_session conn sel False True (concat segs0) (\<lambda>n. net (Suc n))"
    using assms(1) by (subst client_session.simps) simp
  also have "\<dots> = bindR (client_read sel (concat segs0) segs1) (\<lambda>out. case out of
      Answer r op rest \<Rightarrow> Inr (Some r, op) | Broken \<Rightarrow> Inr (None, False) | NoHeader _ \<Rightarrow> Inr (None, False))"
    using assms(3) by (simp add: client_session.simps[of conn sel False True])
  finally show ?thesis .
qed

section \<open>Instances\<close>

definition agent_client :: client where
  "agent_client = \<lparr>cl_host = ''localhost'', cl_port = 9080, cl_proxy_server = []\<rparr>"

definition fair_try :: "string list \<Rightarrow> try_net" where
  "fair_try segs = \<lparr>tn_resolved = True, tn_connected = True, tn_written = True, tn_pieces = segs\<rparr>"

lemma fair_try [simp]: "client_connect is_open (fair_try segs) = Some segs"
  by (simp add: client_connect_def client_write_def fair_try_def)

theorem connection_exclusive_witness:
  "length (snd (get_connection 3 [\<lparr>cn_id = 1, cn_in_use = True, cn_reconnecting = False\<rparr>, \<lparr>cn_id = 2, cn_in_use = False, cn_reconnecting = True\<rparr>])) = 2"
  using connection_exclusive[of "[\<lparr>cn_id = 1, cn_in_use = True, cn_reconnecting = False\<rparr>, \<lparr>cn_id = 2, cn_in_use = False, cn_reconnecting = True\<rparr>]" 3
      "fst (get_connection 3 [\<lparr>cn_id = 1, cn_in_use = True, cn_reconnecting = False\<rparr>, \<lparr>cn_id = 2, cn_in_use = False, cn_reconnecting = True\<rparr>])"
      "snd (get_connection 3 [\<lparr>cn_id = 1, cn_in_use = True, cn_reconnecting = False\<rparr>, \<lparr>cn_id = 2, cn_in_use = False, cn_reconnecting = True\<rparr>])"]
  by simp

theorem client_request_read_witness:
  "\<exists>head. header_cut (client_request agent_client True ''POST'' ''/x'' ''hello'' [(''Accept'', ''*'')]) = Some (head, ''hello'')"
proof -
  have "sendable ''POST'' (corrected_path agent_client True ''/x'') ''1.1'' ((''Host'', cl_host agent_client) # [(''Accept'', ''*'')])"
    "\<not> has_length [(''Accept'', ''*'')]" "\<forall>v. hd [v] = (v :: string)" "length ''hello'' < 2 ^ 64"
    by (simp_all add: sendable_def corrected_path_def agent_client_def case_insensitive_equal_def)
  from client_request_read[OF this] show ?thesis by blast
qed

theorem client_reads_response_witness:
  "client_read hd [] [take 7 (Response_write SC_success_ok ''hello'' []), drop 7 (Response_write SC_success_ok ''hello'' [])] =
     Inr (Answer \<lparr>cr_http_version = ''1.1'', cr_status_code = status_text SC_success_ok,
       cr_header = [(''Content-Length'', to_string (length ''hello''))], cr_content = ''hello''\<rparr> True [])"
proof -
  let ?r = "Response_write SC_success_ok ''hello'' []"
  have "concat [take 7 ?r, drop 7 ?r] = ?r" "[] \<notin> set [take 7 ?r, drop 7 ?r]"
    by (simp_all add: append_take_drop_id) (simp add: Response_write_def)
  from client_reads_response[of "[]" "''hello''" hd, OF _ _ _ _ _ this] show ?thesis by (simp add: writable_def)
qed

theorem chunked_roundtrip_witness:
  "read_chunked (take 9 (chunked_text [''hello'', ''world''])) [drop 9 (chunked_text [''hello'', ''world''])] [] = Inr (Some (''helloworld'', []))"
proof -
  have "take 9 (chunked_text [''hello'', ''world'']) @ concat [drop 9 (chunked_text [''hello'', ''world''])] = chunked_text [''hello'', ''world'']"
    "[] \<notin> set [drop 9 (chunked_text [''hello'', ''world''])]"
    by (simp_all add: append_take_drop_id) (simp add: chunked_text_def chunk_text_def show_nat.simps)
  from chunked_roundtrip[OF this, of "[]"] show ?thesis by simp
qed

theorem session_retries_once_witness:
  "client_session client_connect hd True False [] (\<lambda>n. fair_try [if n = 0 then ''HT'' else ''HTTP/1.1 200 OK'' @ crlf @ crlf]) =
     Inr (Some \<lparr>cr_http_version = ''P/1.1'', cr_status_code = ''200 OK'', cr_header = [], cr_content = []\<rparr>, True)"
proof -
  let ?s = "''HTHTTP/1.1 200 OK'' @ crlf @ crlf"
  have cut: "header_cut ''HT'' = None" "header_cut ?s = Some (?s, [])" by simp_all
  then have "read_until ''HT'' [''HTTP/1.1 200 OK'' @ crlf @ crlf] = Some (?s, [], [])"
    by (simp add: read_until.simps)
  moreover have "parse_response_header ?s = \<lparr>cr_http_version = ''P/1.1'', cr_status_code = ''200 OK'', cr_header = [], cr_content = []\<rparr>"
    by (simp add: parse_response_header_def getline_def client_fields.simps str_find_def npos_def sz_sub_def)
  ultimately have "client_read hd ''HT'' [''HTTP/1.1 200 OK'' @ crlf @ crlf] =
      Inr (Answer \<lparr>cr_http_version = ''P/1.1'', cr_status_code = ''200 OK'', cr_header = [], cr_content = []\<rparr> True [])"
    by (simp add: client_read_def header_find_def)
  moreover have "read_until [] [''HT''] = None" using cut(1) by (simp add: read_until.simps)
  ultimately show ?thesis
    using session_retries_once[of client_connect True "\<lambda>n. fair_try [if n = 0 then ''HT'' else ''HTTP/1.1 200 OK'' @ crlf @ crlf]" "[''HT'']"
        "[''HTTP/1.1 200 OK'' @ crlf @ crlf]" hd] by simp
qed

end
