(* ===== verification/TlsClient.thy ===== *)
theory TlsClient
  imports HttpClient TlsServer
begin

text \<open>
  The encrypted client of the HTTP library (sws/client_https.hpp): what its context verifies, and how it connects, through a
  tunnel when there is a proxy, before the session of \<open>HttpClient\<close> writes the request.
\<close>

section \<open>Context\<close>

definition set_default_verify_paths :: "ssl_context \<Rightarrow> ssl_context" where
  "set_default_verify_paths c = c\<lparr>ctx_default_paths := True\<rparr>"

definition client_context :: "ssllib \<Rightarrow> string \<Rightarrow> bool \<Rightarrow> string \<Rightarrow> string \<Rightarrow> string \<Rightarrow> ssl_context res" where
  "client_context ssl host verify_certificate cert_file private_key_file verify_file =
     bindR (if 0 < length cert_file \<and> 0 < length private_key_file
            then bindR (use_certificate_chain_file ssl cert_file new_context) (use_private_key_file ssl private_key_file)
            else Inr new_context) (\<lambda>c1.
     let c2 = (if verify_certificate then c1\<lparr>ctx_verify_host := Some host\<rparr> else c1) in
     bindR (if 0 < length verify_file then load_verify_file ssl verify_file c2 else Inr (set_default_verify_paths c2)) (\<lambda>c3.
     Inr (c3\<lparr>ctx_verify_mode := (if 0 < length verify_file \<or> verify_certificate then [Verify_peer] else [])\<rparr>)))"

definition new_https_client :: "ssllib \<Rightarrow> string \<Rightarrow> bool \<Rightarrow> string \<Rightarrow> string \<Rightarrow> string \<Rightarrow> (client \<times> ssl_context) res" where
  "new_https_client ssl server_port_path verify_certificate cert_file private_key_file verify_file =
     bindR (new_client server_port_path 443) (\<lambda>cl.
     bindR (client_context ssl (cl_host cl) verify_certificate cert_file private_key_file verify_file) (\<lambda>ctx. Inr (cl, ctx)))"

section \<open>Connecting\<close>

text \<open>
  One try of the encrypted client: that of the plain one, and whether the request for a tunnel is written, what the proxy
  sends back, and whether the handshake succeeds.
\<close>

record tls_net = try_net +
  tn_proxy_written :: bool
  tn_proxy_pieces :: "string list"
  tn_handshake :: bool

definition connect_text :: "client \<Rightarrow> string" where
  "connect_text cl =
     (let host_port = cl_host cl @ '':'' @ to_string (unat (cl_port cl)) in
      ''CONNECT '' @ host_port @ '' HTTP/1.1'' @ crlf @ ''Host: '' @ host_port @ crlf @ crlf)"

text \<open>Whether the proxy makes the tunnel: \<open>None\<close> when its answer has no end, and a status that is not 200 is a refusal.\<close>

definition proxy_accepts :: "string list \<Rightarrow> bool option" where
  "proxy_accepts segs =
     (case read_until [] segs of
        None \<Rightarrow> None
      | Some (h, x, _) \<Rightarrow>
          let r = parse_response_header (h @ x) in
          Some (\<not> (cr_status_code r = [] \<or> take 3 (cr_status_code r) \<noteq> ''200'')))"

definition handshake :: "tls_net \<Rightarrow> string list option" where
  "handshake t = (if tn_handshake t then client_write (try_net.truncate t) else None)"

definition tls_connect :: "client \<Rightarrow> bool \<Rightarrow> tls_net \<Rightarrow> string list option" where
  "tls_connect cl is_open t =
     (if \<not> is_open then
        (if tn_resolved t then
           (if tn_connected t then
              (if cl_proxy_server cl \<noteq> [] then
                 (if tn_proxy_written t then
                    (case proxy_accepts (tn_proxy_pieces t) of
                       Some acc \<Rightarrow> if \<not> acc then None else handshake t
                     | None \<Rightarrow> None)
                  else None)
               else handshake t)
            else None)
         else None)
      else client_write (try_net.truncate t))"

section \<open>What is verified\<close>

text \<open>
  A client verifies its server by default, against its name; only one that is told not to, and has no file of
  its own, takes any certificate.
\<close>

lemma client_verifies:
  assumes "client_context ssl host verify_certificate cert key vrf = Inr ctx"
  shows "(Verify_peer \<in> set (ctx_verify_mode ctx) \<longleftrightarrow> verify_certificate \<or> vrf \<noteq> []) \<and>
    ctx_verify_host ctx = (if verify_certificate then Some host else None) \<and>
    ctx_verify_file ctx = (if vrf = [] then None else Some vrf) \<and> (ctx_default_paths ctx \<longleftrightarrow> vrf = [])"
proof -
  obtain c1 where c1: "(if 0 < length cert \<and> 0 < length key
      then bindR (use_certificate_chain_file ssl cert new_context) (use_private_key_file ssl key) else Inr new_context) = Inr c1"
    using assms by (auto simp: client_context_def res_simps)
  then have "ctx_verify_host c1 = None \<and> ctx_verify_file c1 = None \<and> \<not> ctx_default_paths c1"
    by (auto simp: use_certificate_chain_file_def use_private_key_file_def new_context_def res_simps split: if_splits)
  with assms c1 show ?thesis
    by (cases verify_certificate) (auto simp: client_context_def load_verify_file_def set_default_verify_paths_def Let_def split: if_splits)
qed

section \<open>The tunnel\<close>

text \<open>The status a client reads in a response is what follows the first space of its first line.\<close>

lemma status_after_space:
  assumes "newline \<notin> set l" "length l < 2 ^ 62"
  shows "cr_status_code (parse_response_header (l @ crlf @ x)) = drop 1 (dropWhile (\<lambda>c. c \<noteq> CHR '' '') l)"
proof -
  have g: "getline (l @ crlf @ x) = (l @ [CHR 0x0D], x)" using getline_line[of "l @ [CHR 0x0D]" x] assms(1) by simp
  show ?thesis
  proof (cases "CHR '' '' \<in> set l")
    case True
    then obtain v st where l: "l = v @ CHR '' '' # st" "CHR '' '' \<notin> set v" by (meson split_list_first)
    have "dropWhile (\<lambda>c. c \<noteq> CHR '' '') l = CHR '' '' # st" unfolding l(1) using l(2) by (subst dropWhile_append2) auto
    moreover have "str_find (l @ [CHR 0x0D]) '' '' 0 = length v" unfolding l(1) using l(2) by simp
    ultimately show ?thesis
      using g l assms(2) by (cases "client_fields x []") (simp add: parse_response_header_def npos_def Let_def)
  next
    case False
    then have "str_find (l @ [CHR 0x0D]) '' '' 0 = npos" by (simp add: str_find_char_none)
    moreover have "drop 1 (dropWhile (\<lambda>c. c \<noteq> CHR '' '') l) = []"
      using False by (subst dropWhile_eq_Nil_conv[THEN iffD2]) auto
    ultimately show ?thesis unfolding parse_response_header_def g by simp
  qed
qed

lemma proxy_answer:
  assumes "concat segs = concat (map (\<lambda>l. l @ crlf) (l # ls)) @ crlf @ rest" "[] \<notin> set segs"
    and "\<forall>l \<in> set (l # ls). l \<noteq> [] \<and> newline \<notin> set l" "length l < 2 ^ 62"
  shows "proxy_accepts segs = Some (take 3 (drop 1 (dropWhile (\<lambda>c. c \<noteq> CHR '' '') l)) = ''200'')"
proof -
  let ?head = "concat (map (\<lambda>l. l @ crlf) (l # ls)) @ crlf"
  have "header_cut ([] @ concat segs) = Some (?head, rest)"
    using header_cut_lines[of "l # ls" rest] assms(1,3) by simp
  from read_until_split[OF this assms(2)] obtain x segs1 where r: "read_until [] segs = Some (?head, x, segs1)" by blast
  then show ?thesis
    using status_after_space[of l "concat (map (\<lambda>l. l @ crlf) ls) @ crlf @ x"] assms(3,4) by (auto simp: proxy_accepts_def)
qed

text \<open>
  C31: the tunnel of an encrypted client. What it sends to the proxy is read there as a request to connect to the host and port of the
  client. The proxy may answer with any text of lines up to an empty one, in any pieces: the client goes on, to the handshake and then to writing
  its own request, exactly when what follows the first space of the first line begins with 200, whatever the text behind it, the version and the other lines are;
  for every other answer, for one that ends before its empty line and for none, it gives up before the handshake.
\<close>

theorem proxy_tunnel:
  assumes "sendable ''CONNECT'' (cl_host cl @ '':'' @ to_string (unat (cl_port cl))) ''1.1'' [(''Host'', cl_host cl @ '':'' @ to_string (unat (cl_port cl)))]"
    and "cl_proxy_server cl \<noteq> []" "concat (tn_proxy_pieces t) = concat (map (\<lambda>l. l @ crlf) (l # ls)) @ crlf @ rest"
    and "[] \<notin> set (tn_proxy_pieces t)" "\<forall>l \<in> set (l # ls). l \<noteq> [] \<and> newline \<notin> set l" "length l < 2 ^ 62"
  shows "parse_request (connect_text cl) = Some \<lparr>r_method = ''CONNECT'', r_path = cl_host cl @ '':'' @ to_string (unat (cl_port cl)),
      r_http_version = ''1.1'', r_header = [(''Host'', cl_host cl @ '':'' @ to_string (unat (cl_port cl)))], r_path_match = None\<rparr> \<and>
    tls_connect cl False t =
      (if tn_resolved t \<and> tn_connected t \<and> tn_proxy_written t \<and> take 3 (drop 1 (dropWhile (\<lambda>c. c \<noteq> CHR '' '') l)) = ''200'' \<and>
          tn_handshake t \<and> tn_written t
       then Some (tn_pieces t) else None) \<and>
    (\<forall>ps. header_cut (concat ps) = None \<longrightarrow> tls_connect cl False (t\<lparr>tn_proxy_pieces := ps\<rparr>) = None)"
proof -
  have t: "connect_text cl = request_text ''CONNECT'' (cl_host cl @ '':'' @ to_string (unat (cl_port cl))) ''1.1''
      [(''Host'', cl_host cl @ '':'' @ to_string (unat (cl_port cl)))] @ []"
    by (simp add: connect_text_def request_text_def header_line_def)
  have "tls_connect cl False (t\<lparr>tn_proxy_pieces := ps\<rparr>) = None" if "header_cut (concat ps) = None" for ps
    using read_until_none[of "[]" ps] that assms(2) by (simp add: tls_connect_def proxy_accepts_def)
  then show ?thesis
    unfolding t using parse_request_text[OF assms(1), of "[]"] assms(2) proxy_answer[OF assms(3-6)]
    by (auto simp: tls_connect_def handshake_def client_write_def try_net.defs)
qed

section \<open>Instances\<close>

definition proxied_client :: client where
  "proxied_client = agent_client\<lparr>cl_proxy_server := ''proxy:3128''\<rparr>"

text \<open>A proxy of the older version that answers in three pieces, once with the usual text and once with a refusal.\<close>

definition demo_tunnel :: "string \<Rightarrow> tls_net" where
  "demo_tunnel st = \<lparr>tn_resolved = True, tn_connected = True, tn_written = True, tn_pieces = [''x''], tn_proxy_written = True,
     tn_proxy_pieces = [''HTTP/1.0 '', st @ [CHR 0x0D], newline # ''Via: squid'' @ crlf @ crlf], tn_handshake = True\<rparr>"

lemma demo_tunnel_client:
  "sendable ''CONNECT'' (cl_host proxied_client @ '':'' @ to_string (unat (cl_port proxied_client))) ''1.1''
      [(''Host'', cl_host proxied_client @ '':'' @ to_string (unat (cl_port proxied_client)))]"
  "cl_proxy_server proxied_client \<noteq> []"
  by (simp_all add: proxied_client_def agent_client_def sendable_def show_nat.simps digit_char_def)

theorem proxy_tunnel_witness:
  "tls_connect proxied_client False (demo_tunnel ''200 Connection established'') = Some [''x''] \<and>
   tls_connect proxied_client False (demo_tunnel ''403 Forbidden'') = None \<and>
   tls_connect proxied_client False ((demo_tunnel ''200 Connection established'')\<lparr>tn_proxy_pieces := [''HTTP/1.1 200'']\<rparr>) = None"
proof -
  have p: "concat (tn_proxy_pieces (demo_tunnel st)) = concat (map (\<lambda>l. l @ crlf) [''HTTP/1.0 '' @ st, ''Via: squid'']) @ crlf @ []"
    "[] \<notin> set (tn_proxy_pieces (demo_tunnel st))" for st
    by (simp_all add: demo_tunnel_def)
  have c: "header_cut (concat [''HTTP/1.1 200'']) = None" by simp
  show ?thesis
    using proxy_tunnel[OF demo_tunnel_client p(1)[of "''200 Connection established''"] p(2)] c
      proxy_tunnel[OF demo_tunnel_client p(1)[of "''403 Forbidden''"] p(2)]
    by (simp add: demo_tunnel_def)
qed

end
