(* ===== verification/LogThread.thy ===== *)
theory LogThread
  imports LogParser Workers
begin

text \<open>
  The thread of a log parser (\<^verbatim>\<open>logParser::startThread\<close>, \<^verbatim>\<open>logParser::~logParser\<close>, src/services.cpp) line by line, with its
  destructor and with the requests that read the events, and the timer both wait on (\<^verbatim>\<open>timer_killer\<close>, include/collectors.h).
  A pass over the log is taken apart into its lines, so that what another thread can see in between is
  a state of the model; the file system and the clock of a pass are chosen when it begins.
\<close>

section \<open>The timer\<close>

record timer_killer =
  t_terminate :: bool

definition timer_kill :: "timer_killer \<Rightarrow> timer_killer" where
  "timer_kill t = t\<lparr>t_terminate := True\<rparr>"

text \<open>\<open>None\<close> while the wait goes on; \<open>elapsed\<close> tells whether its time is over.\<close>

definition timer_wait_for :: "bool \<Rightarrow> timer_killer \<Rightarrow> bool option" where
  "timer_wait_for elapsed t = (if t_terminate t then Some False else if elapsed then Some True else None)"

lemma killed_timer_ends: "timer_wait_for elapsed (timer_kill t) = Some False"
  by (simp add: timer_wait_for_def timer_kill_def)

section \<open>Steps\<close>

datatype lpc =
    L_test | L_lock | L_check | L_open | L_lines "u64 \<Rightarrow> double" "string list" | L_unlock | L_wait | L_done

record 'j lworker =
  l_parser :: "'j logParser"
  l_timer :: timer_killer
  l_mutex :: owner
  l_wk :: lpc
  l_ds :: dpc
  l_reading :: bool

definition l_started :: "'j logParser \<Rightarrow> 'j lworker" where
  "l_started p = \<lparr>l_parser = p\<lparr>lp_active := True\<rparr>, l_timer = \<lparr>t_terminate = False\<rparr>, l_mutex = Free, l_wk = L_test, l_ds = D_none,
     l_reading = False\<rparr>"

text \<open>How a pass begins: the lines it will read, if it reads, and the parser after a rotation was noticed.\<close>

definition begin_pass :: "os \<Rightarrow> 'j logParser \<Rightarrow> ('j logParser \<times> string list) option" where
  "begin_pass w p =
     (case os_file w (lp_filename p) of
        None \<Rightarrow> None
      | Some content \<Rightarrow>
          let newSize = int (length content) in
          if newSize = lp_pos p then None
          else let p1 = (if newSize < lp_pos p then p\<lparr>lp_pos := 0, lp_lineNo := 0\<rparr> else p)
               in Some (p1, lines_from content (lp_pos p1)))"

inductive lstep :: "'j jsonlib \<Rightarrow> (string \<Rightarrow> level) \<Rightarrow> (string \<Rightarrow> string) \<Rightarrow> 'j lworker \<Rightarrow> 'j lworker \<Rightarrow> bool" for J gl gd where
  l_test: "l_wk s = L_test \<Longrightarrow> lstep J gl gd s (s\<lparr>l_wk := if lp_active (l_parser s) then L_lock else L_done\<rparr>)"
| l_lock: "l_wk s = L_lock \<Longrightarrow> l_mutex s = Free \<Longrightarrow> lstep J gl gd s (s\<lparr>l_wk := L_check, l_mutex := ByWorker\<rparr>)"
| l_check: "l_wk s = L_check \<Longrightarrow> lstep J gl gd s (s\<lparr>l_wk := if lp_active (l_parser s) then L_open else L_unlock\<rparr>)"
| l_skip: "l_wk s = L_open \<Longrightarrow> begin_pass w (l_parser s) = None \<Longrightarrow> lstep J gl gd s (s\<lparr>l_wk := L_unlock\<rparr>)"
| l_open: "l_wk s = L_open \<Longrightarrow> begin_pass w (l_parser s) = Some (p, ls) \<Longrightarrow> lstep J gl gd s (s\<lparr>l_parser := p, l_wk := L_lines clk ls\<rparr>)"
| l_line: "l_wk s = L_lines clk (l # ls) \<Longrightarrow> parse_line J gl gd clk l (l_parser s) = (p, None) \<Longrightarrow>
    lstep J gl gd s (s\<lparr>l_parser := p, l_wk := L_lines clk ls\<rparr>)"
| l_throw: "l_wk s = L_lines clk (l # ls) \<Longrightarrow> parse_line J gl gd clk l (l_parser s) = (p, Some e) \<Longrightarrow>
    lstep J gl gd s (s\<lparr>l_parser := p, l_wk := L_unlock\<rparr>)"
| l_close: "l_wk s = L_lines clk [] \<Longrightarrow> lstep J gl gd s (s\<lparr>l_parser := (l_parser s)\<lparr>lp_pos := tellg_after_loop\<rparr>, l_wk := L_unlock\<rparr>)"
| l_unlock: "l_wk s = L_unlock \<Longrightarrow> lstep J gl gd s (s\<lparr>l_wk := L_wait, l_mutex := Free\<rparr>)"
| l_wake: "l_wk s = L_wait \<Longrightarrow> timer_wait_for elapsed (l_timer s) = Some r \<Longrightarrow> lstep J gl gd s (s\<lparr>l_wk := L_test\<rparr>)"
| ld_start: "l_ds s = D_none \<Longrightarrow> lstep J gl gd s (s\<lparr>l_ds := D_lock\<rparr>)"
| ld_lock: "l_ds s = D_lock \<Longrightarrow> l_mutex s = Free \<Longrightarrow> lstep J gl gd s (s\<lparr>l_ds := D_flag, l_mutex := ByDestructor\<rparr>)"
| ld_flag: "l_ds s = D_flag \<Longrightarrow> lstep J gl gd s (s\<lparr>l_ds := D_join, l_parser := (l_parser s)\<lparr>lp_active := False\<rparr>,
    l_timer := if lp_active (l_parser s) then timer_kill (l_timer s) else l_timer s\<rparr>)"
| ld_join: "l_ds s = D_join \<Longrightarrow> l_wk s = L_done \<Longrightarrow> lstep J gl gd s (s\<lparr>l_ds := D_done, l_mutex := Free\<rparr>)"
| lr_start: "\<not> l_reading s \<Longrightarrow> l_ds s = D_none \<Longrightarrow> lstep J gl gd s (s\<lparr>l_reading := True\<rparr>)"
| lr_end: "l_reading s \<Longrightarrow> lstep J gl gd s (s\<lparr>l_reading := False\<rparr>)"

inductive_cases lstep_E: "lstep J gl gd s t"

section \<open>The passes of the thread\<close>

text \<open>The specification: whole passes, one after the other, each in its own world and with its own clock.\<close>

definition passes ::
  "'j jsonlib \<Rightarrow> (string \<Rightarrow> level) \<Rightarrow> (string \<Rightarrow> string) \<Rightarrow> (os \<times> (u64 \<Rightarrow> double)) list \<Rightarrow> 'j logParser \<Rightarrow> 'j logParser" where
  "passes J gl gd ws p = fold (\<lambda>(w, clk) p. fst (parseLog J w gl gd clk p)) ws p"

text \<open>The flag \<^verbatim>\<open>active\<close> belongs to the threads, everything else to the passes.\<close>

definition idle :: "'j logParser \<Rightarrow> 'j logParser" where
  "idle p = p\<lparr>lp_active := False\<rparr>"

definition end_pass :: "'j logParser \<times> cpp_error option \<Rightarrow> 'j logParser" where
  "end_pass r = (case r of (p, None) \<Rightarrow> p\<lparr>lp_pos := tellg_after_loop\<rparr> | (p, Some e) \<Rightarrow> p)"

lemma parseLog_by_lines:
  "fst (parseLog J w gl gd clk p) =
     (case begin_pass w p of None \<Rightarrow> p | Some (p1, ls) \<Rightarrow> end_pass (parse_lines J gl gd clk ls p1))"
  by (auto simp: parseLog_def begin_pass_def end_pass_def Let_def split: option.splits prod.splits)

lemma idle_simps [simp]:
  "idle (p\<lparr>lp_active := b\<rparr>) = idle p" "idle (idle p) = idle p" "lp_v (idle p) = lp_v p" "lp_pos (idle p) = lp_pos p"
  "lp_filename (idle p) = lp_filename p" "lp_cfg (idle p) = lp_cfg p"
  by (simp_all add: idle_def)

lemma begin_pass_idle: "begin_pass w (idle p) = map_option (\<lambda>(q, ls). (idle q, ls)) (begin_pass w p)"
  by (auto simp: begin_pass_def idle_def Let_def split: option.split)

lemma parse_line_idle: "parse_line J gl gd clk l (idle p) = map_prod idle id (parse_line J gl gd clk l p)"
  by (auto simp: parse_line_def idle_def lp_insert_def Let_def split: sum.split)

lemma parse_lines_idle: "parse_lines J gl gd clk ls (idle p) = map_prod idle id (parse_lines J gl gd clk ls p)"
proof (induction ls arbitrary: p)
  case (Cons l ls)
  show ?case
    by (cases "parse_line J gl gd clk l p"; cases "snd (parse_line J gl gd clk l p)") (auto simp: parse_line_idle Cons.IH)
qed simp

lemma end_pass_idle: "end_pass (map_prod idle id r) = idle (end_pass r)"
  by (cases r; cases "snd r") (auto simp: end_pass_def idle_def)

lemma parseLog_idle: "fst (parseLog J w gl gd clk (idle p)) = idle (fst (parseLog J w gl gd clk p))"
  by (simp add: parseLog_by_lines begin_pass_idle parse_lines_idle end_pass_idle split: option.split)

section \<open>The thread implements the passes\<close>

text \<open>What the parser will be when the pass under way is over.\<close>

definition outcome :: "'j jsonlib \<Rightarrow> (string \<Rightarrow> level) \<Rightarrow> (string \<Rightarrow> string) \<Rightarrow> 'j lworker \<Rightarrow> 'j logParser" where
  "outcome J gl gd s =
     (case l_wk s of L_lines clk ls \<Rightarrow> end_pass (parse_lines J gl gd clk ls (l_parser s)) | _ \<Rightarrow> l_parser s)"

lemma outcome_step:
  assumes "lstep J gl gd s t"
  shows "idle (outcome J gl gd t) = idle (outcome J gl gd s) \<or>
    (\<exists>w clk. idle (outcome J gl gd t) = idle (fst (parseLog J w gl gd clk (outcome J gl gd s))))"
  using assms
proof (cases rule: lstep.cases)
  case (l_open w p ls clk)
  then have "outcome J gl gd t = fst (parseLog J w gl gd clk (outcome J gl gd s))"
    by (simp add: outcome_def parseLog_by_lines)
  then show ?thesis by auto
next
  case ld_flag
  have "idle (end_pass (parse_lines J gl gd clk ls (p\<lparr>lp_active := False\<rparr>))) = idle (end_pass (parse_lines J gl gd clk ls p))" for clk ls p
    using parse_lines_idle[of J gl gd clk ls p] by (simp add: idle_def[of p, symmetric] end_pass_idle)
  then show ?thesis using ld_flag by (simp add: outcome_def split: lpc.split)
qed (auto simp: outcome_def end_pass_def split: lpc.split)

text \<open>
  C9: The thread of a log parser does nothing but whole passes over the log, one after the other: whatever the
  interleaving with its destructor and with the requests, whenever no pass is under way its events, its position and its line number are
  those of a sequence of calls of \<^verbatim>\<open>parseLog\<close>, each with the file as it was when the pass began.
\<close>

theorem log_thread_passes:
  assumes "reach (lstep J gl gd) (l_started p) s" "\<not> (\<exists>clk ls. l_wk s = L_lines clk ls)"
  shows "\<exists>ws. idle (l_parser s) = idle (passes J gl gd ws p)"
proof -
  have "\<exists>ws. idle (outcome J gl gd s) = idle (passes J gl gd ws p)"
    using assms(1)
  proof (induction rule: reach.induct)
    case reach_refl
    show ?case by (rule exI[of _ "[]"]) (simp add: outcome_def l_started_def passes_def)
  next
    case (reach_step t u)
    then obtain ws where ws: "idle (outcome J gl gd t) = idle (passes J gl gd ws p)" by blast
    from outcome_step[OF reach_step.hyps(2)] show ?case
    proof
      assume "\<exists>w clk. idle (outcome J gl gd u) = idle (fst (parseLog J w gl gd clk (outcome J gl gd t)))"
      then obtain w clk where "idle (outcome J gl gd u) = fst (parseLog J w gl gd clk (idle (outcome J gl gd t)))"
        by (auto simp: parseLog_idle)
      then have "idle (outcome J gl gd u) = idle (passes J gl gd (ws @ [(w, clk)]) p)" by (simp add: ws parseLog_idle passes_def)
      then show ?thesis ..
    qed (use ws in auto)
  qed
  then show ?thesis using assms(2) by (simp add: outcome_def split: lpc.splits)
qed

section \<open>The log is read once\<close>

text \<open>Once the position is lost, a pass has no lines.\<close>

definition blind :: "'j list \<Rightarrow> 'j lworker \<Rightarrow> bool" where
  "blind v s \<longleftrightarrow> lp_pos (l_parser s) = - 1 \<and> lp_v (l_parser s) = v \<and> (\<forall>clk ls. l_wk s = L_lines clk ls \<longrightarrow> ls = [])"

lemma blind_step: "lstep J gl gd s t \<Longrightarrow> blind v s \<Longrightarrow> blind v t"
  by (elim lstep_E) (auto simp: blind_def begin_pass_def lines_from_def tellg_after_loop_def Let_def split: option.splits if_splits)

lemma blind_reach: "reach (lstep J gl gd) s t \<Longrightarrow> blind v s \<Longrightarrow> blind v t"
  by (induction rule: reach.induct) (auto intro: blind_step)

text \<open>
  The events a log parser shows are those of its first pass for as long as it lives: from any state between two passes in which a
  pass has read the log, no state with other events can be reached, whatever is written to the log in
  the meantime.
\<close>

theorem log_thread_reads_once:
  assumes "lp_pos (l_parser s) = - 1" "\<not> (\<exists>clk ls. l_wk s = L_lines clk ls)" "reach (lstep J gl gd) s t"
  shows "lp_v (l_parser t) = lp_v (l_parser s)"
  using blind_reach[OF assms(3), of "lp_v (l_parser s)"] assms(1,2) by (auto simp: blind_def)

section \<open>A log of one line\<close>

definition one_line_log :: os where
  "one_line_log = bare_os\<lparr>os_file := \<lambda>_. Some (''fail'' @ [newline])\<rparr>"

definition fresh_parser :: "jv logParser" where
  "fresh_parser = \<lparr>lp_cfg = JObj [(''history'', JInt 3)], lp_v = [], lp_filename = ''a'', lp_pos = 0, lp_lineNo = 0, lp_active = False\<rparr>"

definition read_parser :: "jv logParser" where
  "read_parser = fresh_parser\<lparr>lp_v := [lp_entry ref_json \<lparr>ev_now = Fin 1, ev_date = ''d'', ev_line = 1, ev_text = ''fail'', ev_level = Lvl_error\<rparr> []],
     lp_pos := - 1, lp_lineNo := 1, lp_active := True\<rparr>"

lemma reach_by: "reach (lstep J gl gd) s t \<Longrightarrow> lstep J gl gd t u \<Longrightarrow> u = v \<Longrightarrow> reach (lstep J gl gd) s v"
  by (auto intro: reach_step)

lemma one_pass:
  "reach (lstep ref_json (\<lambda>_. Lvl_error) (\<lambda>_. ''d'')) (l_started fresh_parser)
     ((l_started fresh_parser)\<lparr>l_parser := read_parser, l_wk := L_unlock, l_mutex := ByWorker\<rparr>)"
proof -
  let ?R = "reach (lstep ref_json (\<lambda>_. Lvl_error) (\<lambda>_. ''d'')) (l_started fresh_parser)" and ?s = "l_started fresh_parser"
  let ?p = "fresh_parser\<lparr>lp_active := True\<rparr>" and ?q = "read_parser\<lparr>lp_pos := 0\<rparr>"
  have gl: "getlines (''fail'' @ [newline]) = [''fail'']" by (simp add: getlines.simps)
  have "?R (?s\<lparr>l_wk := L_lock\<rparr>)" by (rule reach_by[OF reach_refl l_test]) (simp_all add: l_started_def)
  then have "?R (?s\<lparr>l_wk := L_check, l_mutex := ByWorker\<rparr>)" by (rule reach_by[OF _ l_lock]) (simp_all add: l_started_def)
  then have "?R (?s\<lparr>l_wk := L_open, l_mutex := ByWorker\<rparr>)" by (rule reach_by[OF _ l_check]) (simp_all add: l_started_def)
  then have "?R (?s\<lparr>l_wk := L_lines (\<lambda>_. Fin 1) [''fail''], l_mutex := ByWorker\<rparr>)"
    by (rule reach_by[OF _ l_open[where w = one_line_log and p = ?p and ls = "[''fail'']"]])
      (use gl in \<open>simp_all add: l_started_def begin_pass_def one_line_log_def fresh_parser_def lines_from_def\<close>)
  then have "?R (?s\<lparr>l_parser := ?q, l_wk := L_lines (\<lambda>_. Fin 1) [], l_mutex := ByWorker\<rparr>)"
    by (rule reach_by[OF _ l_line[where p = ?q]])
      (simp_all add: l_started_def parse_line_def read_parser_def fresh_parser_def lp_insert_def Let_def)
  then show ?thesis by (rule reach_by[OF _ l_close]) (simp_all add: l_started_def read_parser_def tellg_after_loop_def)
qed

theorem log_thread_passes_witness: "\<exists>ws. idle read_parser = idle (passes ref_json (\<lambda>_. Lvl_error) (\<lambda>_. ''d'') ws fresh_parser)"
  using log_thread_passes[OF one_pass] by simp

theorem log_thread_reads_once_witness:
  "lp_v (l_parser ((l_started fresh_parser)\<lparr>l_parser := read_parser, l_wk := L_wait\<rparr>)) = lp_v read_parser \<and> length (lp_v read_parser) = 1"
proof -
  let ?s = "(l_started fresh_parser)\<lparr>l_parser := read_parser, l_wk := L_unlock, l_mutex := ByWorker\<rparr>"
  have "reach (lstep ref_json (\<lambda>_. Lvl_error) (\<lambda>_. ''d'')) ?s ((l_started fresh_parser)\<lparr>l_parser := read_parser, l_wk := L_wait\<rparr>)"
    by (rule reach_by[OF reach_refl l_unlock]) (simp_all add: l_started_def)
  from log_thread_reads_once[OF _ _ this] show ?thesis by (simp add: read_parser_def)
qed

section \<open>Locking\<close>

definition linv :: "'j lworker \<Rightarrow> bool" where
  "linv s \<longleftrightarrow> (l_mutex s = ByWorker \<longleftrightarrow> l_wk s \<in> {L_check, L_open, L_unlock} \<or> (\<exists>clk ls. l_wk s = L_lines clk ls)) \<and>
     (l_mutex s = ByDestructor \<longleftrightarrow> l_ds s \<in> {D_flag, D_join}) \<and> (l_ds s = D_done \<longrightarrow> l_wk s = L_done) \<and> l_mutex s \<noteq> ByHandler"

interpretation lw: step_invariant "l_started p" "lstep J gl gd" linv
  for p :: "'j logParser" and J gl gd
proof (unfold_locales, goal_cases)
  case 1
  show ?case by (simp add: linv_def l_started_def)
next
  case (2 s s')
  then show ?case by (elim lstep_E) (auto simp: linv_def)
qed

text \<open>
  The events are read for a request without the mutex: a request can read them in the middle of a pass. The destructor of a
  log parser has the same cycle of waiting as that of a collector.
\<close>

lemma log_reader_races:
  assumes "reach (lstep J gl gd) (l_started p) s" "l_wk s = L_lines clk ls" "l_ds s = D_none"
  shows "\<exists>t. reach (lstep J gl gd) (l_started p) t \<and> l_wk t = L_lines clk ls \<and> l_reading t"
proof (cases "l_reading s")
  case False
  from reach_step[OF assms(1) lr_start[OF this assms(3)]] show ?thesis using assms(2) by (intro exI) auto
qed (use assms in blast)

lemma log_stuck_forever:
  assumes "reach (lstep J gl gd) s t" "l_wk s = L_lock" "l_ds s = D_join" "l_mutex s = ByDestructor"
  shows "l_wk t = L_lock \<and> l_ds t = D_join \<and> l_mutex t = ByDestructor"
  using assms
proof (induction rule: reach.induct)
  case (reach_step t u)
  then show ?case by (elim lstep_E) auto
qed simp

lemma log_destructor_deadlock:
  "\<exists>s. reach (lstep J gl gd) (l_started p) s \<and> l_ds s = D_join \<and> (\<forall>t. reach (lstep J gl gd) s t \<longrightarrow> l_ds t = D_join)"
proof -
  let ?R = "reach (lstep J gl gd) (l_started p)" and ?s = "l_started p"
  let ?t = "?s\<lparr>l_wk := L_lock, l_ds := D_join, l_mutex := ByDestructor, l_parser := p\<lparr>lp_active := False\<rparr>, l_timer := timer_kill (l_timer ?s)\<rparr>"
  have "?R (?s\<lparr>l_wk := L_lock\<rparr>)" by (rule reach_by[OF reach_refl l_test]) (simp_all add: l_started_def)
  then have "?R (?s\<lparr>l_wk := L_lock, l_ds := D_lock\<rparr>)" by (rule reach_by[OF _ ld_start]) (simp_all add: l_started_def)
  then have "?R (?s\<lparr>l_wk := L_lock, l_ds := D_flag, l_mutex := ByDestructor\<rparr>)" by (rule reach_by[OF _ ld_lock]) (simp_all add: l_started_def)
  then have "?R ?t" by (rule reach_by[OF _ ld_flag]) (simp_all add: l_started_def)
  then show ?thesis using log_stuck_forever[of J gl gd ?t] by (intro exI[of _ ?t]) simp
qed

end
