(* ===== verification/Agent.thy ===== *)
theory Agent
  imports Startup
begin

text \<open>
  The agent while it runs: passes of the detectors and requests of the HTTP interface, in any order, on one
  registry of services. The world may be another one at each step, a process is only said to live in the world of a step.
  A request may change a service, too: a handler that is asked for a blackout adds the process its unit was
  restarted with.
\<close>

section \<open>Asking a handler\<close>

text \<open>The two kinds of handlers: that of the systemd plugin, and those of Lua files (\<open>None\<close> when the file was not loaded).\<close>

definition agent_ask :: "os \<Rightarrow> bus option \<Rightarrow> (string \<Rightarrow> ('j service \<Rightarrow> bool) option) \<Rightarrow> 'j asks" where
  "agent_ask w bus lua h s =
     (if h_plugin h = ''systemd''
      then bindR (systemd_isBlackout w bus (h_file h) (Some s)) (\<lambda>(srv, b). Inr (case srv of Some s' \<Rightarrow> s' | None \<Rightarrow> s, b))
      else Inr (s, case lua (h_file h) of None \<Rightarrow> lua_isBlackout False (\<lambda>_. False) (Some s) | Some f \<Rightarrow> lua_isBlackout True f (Some s)))"

text \<open>What is kept of a service whose handler was asked: it is well formed, and its running processes are tracked.\<close>

definition ask_ok :: "os \<Rightarrow> 'j asks \<Rightarrow> bool" where
  "ask_ok w ask \<longleftrightarrow> (\<forall>h s s' b. ask h s = Inr (s', b) \<longrightarrow>
     {i \<in> tracked s. alive w i} \<subseteq> tracked s' \<and> (serv_ok s \<longrightarrow> serv_ok s'))"

lemma systemd_ask:
  assumes "systemd_isBlackout w bus p (Some s) = Inr (srv, b)"
  obtains "srv = Some s" | s' q where "srv = Some s'" "updateMainProcess w q s = Inr s'" "b"
  using assms by (auto simp: systemd_isBlackout_def bindR_Inr_iff Let_def split: option.splits if_splits)

lemma agent_ask_ok: "ask_ok w (agent_ask w bus lua)"
  unfolding ask_ok_def
proof (intro allI impI)
  fix h :: handler_obj and s s' :: "'a service" and b
  assume a: "agent_ask w bus lua h s = Inr (s', b)"
  show "{i \<in> tracked s. alive w i} \<subseteq> tracked s' \<and> (serv_ok s \<longrightarrow> serv_ok s')"
  proof (cases "h_plugin h = ''systemd''")
    case True
    then obtain srv where srv: "systemd_isBlackout w bus (h_file h) (Some s) = Inr (srv, b)" "s' = (case srv of Some s' \<Rightarrow> s' | None \<Rightarrow> s)"
      using a by (auto simp: agent_ask_def bindR_Inr_iff)
    from srv(1) show ?thesis
    proof (cases rule: systemd_ask)
      case 1
      then show ?thesis using srv(2) by simp
    next
      case (2 t q)
      then show ?thesis using updateMainProcess_step(2,4)[OF 2(2)] srv(2) by (auto simp: same_ident_def)
    qed
  next
    case False
    then show ?thesis using a by (auto simp: agent_ask_def)
  qed
qed

text \<open>\<open>s'\<close> is \<open>s\<close> after a request: its handler may have been asked, and what is read of its processes may be kept.\<close>

definition asked :: "os \<Rightarrow> 'j asks \<Rightarrow> 'j service \<Rightarrow> 'j service \<Rightarrow> bool" where
  "asked w ask s s' \<longleftrightarrow> (\<exists>t. (t = s \<or> (\<exists>b. is_blackout w ask s = Inr (t, b))) \<and> tracked s' = tracked t \<and> (serv_ok t \<longrightarrow> serv_ok s'))"

lemma asked_refl: "asked w ask s s"
  by (auto simp: asked_def)

lemma asked_same: "tracked s' = tracked s \<Longrightarrow> (serv_ok s \<longrightarrow> serv_ok s') \<Longrightarrow> asked w ask s s'"
  by (auto simp: asked_def)

lemma same_pids:
  assumes "map pid (s_main s') = map pid (s_main s)" "map pid (s_sub s') = map pid (s_sub s)" "s_sockets s' = s_sockets s"
  shows "tracked s' = tracked s" "serv_ok s \<Longrightarrow> serv_ok s'"
  using assms by (simp_all add: tracked_def serv_ok_def flip: set_map)

lemma asked_status:
  assumes "getJsonStatus J w ask s ref0 = Inr (s', ref)"
  shows "asked w ask s s'"
proof -
  obtain t b where t: "is_blackout w ask s = Inr (t, b)" "map pid (s_main s') = map pid (s_main t)"
    "map pid (s_sub s') = map pid (s_sub t)" "s' = t\<lparr>s_main := s_main s', s_sub := s_sub s'\<rparr>"
    using assms by (rule status_keeps)
  from t(4) have "s_sockets s' = s_sockets t" by (metis service.select_convs service.surjective service.update_convs)
  with same_pids[OF t(2,3)] t(1) show ?thesis by (auto simp: asked_def)
qed

section \<open>A round of the detectors\<close>

text \<open>
  A Lua detector is given two questions about the registry and nothing to change it with. \<open>script\<close> is what its function \<^verbatim>\<open>find\<close> does
  with them; it returns nothing, and may fail.
\<close>

definition lua_find :: "bool \<Rightarrow> ((u32 \<Rightarrow> bool) \<Rightarrow> (u32 \<Rightarrow> bool) \<Rightarrow> unit res) \<Rightarrow> os \<Rightarrow> 'j manager \<Rightarrow> 'j manager res" where
  "lua_find have_state script w m =
     (if \<not> have_state then Inr m else bindR (script (mgr_haveSocket w m) (mgr_havePID m)) (\<lambda>_. Inr m))"

text \<open>What a round needs of the world: the bus, the memory a socket is read into, and the scripts of the Lua detectors
  and handlers.\<close>

record 'j world =
  w_os :: os
  w_rxm :: "string \<Rightarrow> string \<Rightarrow> bool"
  w_bus :: "bus option"
  w_mem :: socket
  w_scripts :: "string \<Rightarrow> (u32 \<Rightarrow> bool) \<Rightarrow> (u32 \<Rightarrow> bool) \<Rightarrow> unit res"
  w_lua :: "string \<Rightarrow> ('j service \<Rightarrow> bool) option"

text \<open>The only detector among the libraries of the repository is that of systemd.\<close>

fun run_detector :: "'j jsonlib \<Rightarrow> 'j world \<Rightarrow> 'j enhancer list \<Rightarrow> string \<Rightarrow> (detector_obj \<Rightarrow> 'j) \<Rightarrow> detector_obj \<Rightarrow> 'j manager \<Rightarrow> 'j manager res" where
  "run_detector J W es dir cfg_of SocketDetector m = socket_find J (w_os W) (w_mem W) es dir (cfg_of SocketDetector) m"
| "run_detector J W es dir cfg_of (PluginDetector n) m =
     systemd_find J (w_os W) (w_rxm W) (w_bus W) es dir (cfg_of (PluginDetector n)) m"
| "run_detector J W es dir cfg_of (LuaDetectorObj n f) m = lua_find True (w_scripts W f) (w_os W) m"

text \<open>The processes that are listed, and those systemd names, run during the round.\<close>

definition steady :: "'j jsonlib \<Rightarrow> 'j world \<Rightarrow> (detector_obj \<Rightarrow> 'j) \<Rightarrow> bool" where
  "steady J W cfg_of \<longleftrightarrow>
     (\<forall>ents. os_readdir (w_os W) ''/proc/'' = Some ents \<longrightarrow> (\<forall>e \<in> set ents. list_all is_digit e \<longrightarrow> alive (w_os W) (atoi e))) \<and>
     (\<forall>b xml n. w_bus W = Some b \<and> b_Introspect b = Some xml \<longrightarrow>
        units_alive J (w_os W) (w_rxm W) b (cfg_of (PluginDetector n)) (getlines xml))"

lemma keeps_live_refl: "keeps_live w m m"
  by (simp add: keeps_live_def)

lemma socket_find_step:
  assumes "socket_find J w mem es dir cfg m = Inr m'" "mgr_inv ex m" "list_all enhancer_ok es"
    and "\<forall>ents. os_readdir w ''/proc/'' = Some ents \<longrightarrow> (\<forall>e \<in> set ents. list_all is_digit e \<longrightarrow> alive w (atoi e))"
  shows "mgr_inv ex m' \<and> keeps_live w m m'"
proof -
  obtain ks where ks: "read_sockets w mem (ignoreLoopback J cfg) = Inr ks"
    using assms(1) by (auto simp: socket_find_def bindR_Inr_iff)
  show ?thesis
  proof (cases "ks = [] \<or> os_readdir w ''/proc/'' = None")
    case True
    then have "m' = m" using assms(1) ks by (auto simp: socket_find_def split: if_splits)
    then show ?thesis using assms(2) by (simp add: keeps_live_refl)
  next
    case False
    then obtain ents where e: "os_readdir w ''/proc/'' = Some ents" by auto
    have "foldR (\<lambda>ent. detect_process J w es dir (j_elems J (j_get J cfg ''blackList'')) ks (atoi ent))
        (filter (list_all is_digit) ents) m = Inr m'"
      using False assms(1) ks e by (simp add: socket_find_def)
    from detect_all_step[OF this assms(2,3)] assms(4) e show ?thesis by auto
  qed
qed

lemma systemd_find_step:
  assumes "systemd_find J w rxm bus es dir cfg m = Inr m'" "mgr_inv ex m" "list_all enhancer_ok es"
    and "\<forall>b xml. bus = Some b \<and> b_Introspect b = Some xml \<longrightarrow> units_alive J w rxm b cfg (getlines xml)"
  shows "mgr_inv ex m' \<and> keeps_live w m m'"
  using assms find_units_step[of J w rxm _ es dir cfg _ m m']
  by (auto simp: systemd_find_def keeps_live_refl split: option.splits)

lemma run_detector_step:
  assumes "run_detector J W es dir cfg_of d m = Inr m'" "mgr_inv ex m" "list_all enhancer_ok es" "steady J W cfg_of"
  shows "mgr_inv ex m' \<and> keeps_live (w_os W) m m'"
proof (cases d)
  case (PluginDetector n)
  with assms(1) have r: "systemd_find J (w_os W) (w_rxm W) (w_bus W) es dir (cfg_of (PluginDetector n)) m = Inr m'" by simp
  from systemd_find_step[OF r assms(2,3)] assms(4) show ?thesis by (simp add: steady_def)
next
  case (LuaDetectorObj n f)
  then show ?thesis using assms(1,2) by (auto simp: lua_find_def bindR_Inr_iff keeps_live_refl)
next
  case SocketDetector
  with assms(1) have r: "socket_find J (w_os W) (w_mem W) es dir (cfg_of SocketDetector) m = Inr m'" by simp
  from socket_find_step[OF r assms(2,3)] assms(4) show ?thesis by (simp add: steady_def)
qed

lemma mgr_find_step:
  assumes "mgr_find J cfg_of (run_detector J W es dir cfg_of) ds m = Inr m'" "mgr_inv ex m" "list_all enhancer_ok es" "steady J W cfg_of"
  shows "mgr_inv ex m' \<and> keeps_live (w_os W) m m'"
proof (rule foldR_invariant[where P = "\<lambda>x. mgr_inv ex x \<and> keeps_live (w_os W) m x", OF _ _ assms(1)[unfolded mgr_find_def]])
  fix d t t'
  assume t: "mgr_inv ex t \<and> keeps_live (w_os W) m t"
    and r: "bindR (det_enabled J (cfg_of d)) (\<lambda>en. if en then run_detector J W es dir cfg_of d t else Inr t) = Inr t'"
  from r consider "run_detector J W es dir cfg_of d t = Inr t'" | "t' = t" by (auto simp: bindR_Inr_iff split: if_splits)
  then show "mgr_inv ex t' \<and> keeps_live (w_os W) m t'"
    using run_detector_step[OF _ _ assms(3,4)] t by cases (auto intro: keeps_live_trans)
qed (use assms(2) in \<open>simp add: keeps_live_refl\<close>)

section \<open>Requests\<close>

text \<open>
  What a service tracks before and after its handler is asked; what the handler is told then and adds; and that a handler is told a process that
  another service has, or whose handler is told it, too.
\<close>

definition asked_owns :: "os \<Rightarrow> 'j asks \<Rightarrow> 'j service \<Rightarrow> u32 set" where
  "asked_owns w ask s = tracked s \<union> (case is_blackout w ask s of Inl _ \<Rightarrow> {} | Inr (t, _) \<Rightarrow> tracked t)"

definition told :: "os \<Rightarrow> 'j asks \<Rightarrow> 'j service \<Rightarrow> u32 set" where
  "told w ask s = (case is_blackout w ask s of Inl _ \<Rightarrow> {} | Inr (t, _) \<Rightarrow> tracked t - tracked s)"

definition told_foreign :: "os \<Rightarrow> 'j asks \<Rightarrow> 'j manager \<Rightarrow> bool" where
  "told_foreign w ask m \<longleftrightarrow> (\<exists>k l i. k < length (m_services m) \<and> l < length (m_services m) \<and> k \<noteq> l \<and> i \<noteq> 0 \<and>
     i \<in> told w ask (m_services m ! k) \<and> (i \<in> tracked (m_services m ! l) \<or> i \<in> told w ask (m_services m ! l)))"

lemma asked_owns_told: "asked_owns w ask s = tracked s \<union> told w ask s"
  by (auto simp: asked_owns_def told_def split: sum.splits)

lemma all_pairs_Suc:
  "(\<forall>k < Suc n. \<forall>l < Suc n. k < l \<longrightarrow> P k l) \<longleftrightarrow> (\<forall>l < n. P 0 (Suc l)) \<and> (\<forall>k < n. \<forall>l < n. k < l \<longrightarrow> P (Suc k) (Suc l))"
  unfolding All_less_Suc2 by simp

lemma exclusive_nth:
  "exclusive owns ss \<longleftrightarrow> (\<forall>k < length ss. \<forall>l < length ss. k < l \<longrightarrow> owns (ss ! k) \<inter> owns (ss ! l) \<subseteq> {0})"
proof (induction ss)
  case (Cons s ss)
  have "owns s \<inter> owned owns ss \<subseteq> {0} \<longleftrightarrow> (\<forall>l < length ss. owns s \<inter> owns (ss ! l) \<subseteq> {0})"
    unfolding owned_def set_conv_nth by blast
  then show ?case using Cons.IH by (simp add: all_pairs_Suc)
qed simp

lemma not_told_foreign:
  assumes "exclusive tracked (m_services m)" "\<not> told_foreign w ask m"
  shows "exclusive (asked_owns w ask) (m_services m)"
  unfolding exclusive_nth
proof (intro allI impI)
  fix k l
  assume kl: "k < length (m_services m)" "l < length (m_services m)" "k < l"
  have "i \<notin> told w ask (m_services m ! a) \<or> i \<notin> tracked (m_services m ! b) \<and> i \<notin> told w ask (m_services m ! b)"
    if "i \<noteq> 0" "a \<noteq> b" "a \<in> {k, l}" "b \<in> {k, l}" for i a b
    using assms(2) that kl unfolding told_foreign_def by blast
  note foreign = this[of _ k l] this[of _ l k]
  have "tracked (m_services m ! k) \<inter> tracked (m_services m ! l) \<subseteq> {0}" using assms(1) kl unfolding exclusive_nth by blast
  then show "asked_owns w ask (m_services m ! k) \<inter> asked_owns w ask (m_services m ! l) \<subseteq> {0}"
    using foreign kl(3) unfolding asked_owns_told by blast
qed

lemma asked_step:
  assumes "asked w ask s s'" "ask_ok w ask"
  shows "tracked s' \<subseteq> asked_owns w ask s" "{i \<in> tracked s. alive w i} \<subseteq> tracked s'" "serv_ok s \<Longrightarrow> serv_ok s'"
proof -
  obtain t where t: "t = s \<or> (\<exists>b. is_blackout w ask s = Inr (t, b))" "tracked s' = tracked t" "serv_ok t \<longrightarrow> serv_ok s'"
    using assms(1) by (auto simp: asked_def)
  have k: "{i \<in> tracked s. alive w i} \<subseteq> tracked t \<and> (serv_ok s \<longrightarrow> serv_ok t)"
    using t(1) assms(2) by (auto simp: is_blackout_def ask_ok_def split: option.splits if_splits)
  show "tracked s' \<subseteq> asked_owns w ask s" using t by (auto simp: asked_owns_def)
  show "{i \<in> tracked s. alive w i} \<subseteq> tracked s'" "serv_ok s \<Longrightarrow> serv_ok s'" using k t(2,3) by auto
qed

lemma exclusive_mono:
  assumes "list_all2 (\<lambda>a b. owns' b \<subseteq> owns a) xs ys"
  shows "owned owns' ys \<subseteq> owned owns xs" "exclusive owns xs \<Longrightarrow> exclusive owns' ys"
proof -
  have "owned owns' ys \<subseteq> owned owns xs \<and> (exclusive owns xs \<longrightarrow> exclusive owns' ys)"
    using assms by (induction rule: list_all2_induct) (auto simp: owned_def)
  then show "owned owns' ys \<subseteq> owned owns xs" "exclusive owns xs \<Longrightarrow> exclusive owns' ys" by auto
qed

lemma asked_all:
  assumes "list_all2 (asked w ask) (m_services m) (m_services m')" "ask_ok w ask" "mgr_inv ex m"
    and "ex \<longrightarrow> \<not> told_foreign w ask m"
  shows "mgr_inv ex m' \<and> keeps_live w m m'"
proof -
  note step = asked_step[OF _ assms(2)]
  have "list_all2 (\<lambda>a b. tracked b \<subseteq> asked_owns w ask a) (m_services m) (m_services m')"
    using assms(1) by (rule list_all2_mono) (rule step(1))
  from exclusive_mono(2)[OF this not_told_foreign] have ex: "ex \<longrightarrow> exclusive tracked (m_services m')"
    using assms(3,4) by (simp add: mgr_inv_def)
  have ok: "serv_ok s'" if s': "s' \<in> set (m_services m')" for s'
  proof -
    obtain k where "k < length (m_services m')" "m_services m' ! k = s'" using s' by (auto simp: in_set_conv_nth)
    then show ?thesis
      using list_all2_nthD2[OF assms(1), of k] step(3) assms(3) list_all2_lengthD[OF assms(1)] by (auto simp: mgr_inv_def)
  qed
  have "i \<in> owned tracked (m_services m')" if i: "i \<in> owned tracked (m_services m)" "alive w i" for i
  proof -
    obtain k where "k < length (m_services m)" "i \<in> tracked (m_services m ! k)" using i(1) by (auto simp: owned_def in_set_conv_nth)
    then show ?thesis
      using list_all2_nthD[OF assms(1), of k] step(2) i(2) list_all2_lengthD[OF assms(1)] by (fastforce simp: owned_def)
  qed
  with ex ok show ?thesis by (auto simp: mgr_inv_def keeps_live_owned)
qed

text \<open>The three ways a request goes through the services: each in turn with a value built up, the first match, each for its row.\<close>

lemma fold_asked:
  assumes "foldR g ss (seen, r) = Inr (ss', r')"
    and "\<And>s seen r x. g s (seen, r) = Inr x \<Longrightarrow> \<exists>s' r'. x = (seen @ [s'], r') \<and> R s s'"
  shows "\<exists>zs. ss' = seen @ zs \<and> list_all2 R ss zs"
  using assms(1)
proof (induction ss arbitrary: seen r)
  case (Cons s ss)
  then obtain x where x: "g s (seen, r) = Inr x" "foldR g ss x = Inr (ss', r')" by (auto simp: bindR_Inr_iff)
  from assms(2)[OF x(1)] obtain s' r1 where s': "x = (seen @ [s'], r1)" "R s s'" by blast
  with Cons.IH[of "seen @ [s']" r1] x(2) obtain zs where "ss' = (seen @ [s']) @ zs" "list_all2 R ss zs" by auto
  with s'(2) show ?case by (intro exI[of _ "s' # zs"]) simp
qed simp

lemma on_first_asked:
  assumes "on_first P f ss = Inr (Some (ss', v))" "\<And>s s' v. f s = Inr (s', v) \<Longrightarrow> R s s'" "\<And>s. R s s"
  shows "list_all2 R ss ss'"
  using assms(1)
proof (induction ss arbitrary: ss')
  case (Cons s ss)
  show ?case
  proof (cases "P s")
    case True
    then obtain s' where "f s = Inr (s', v)" "ss' = s' # ss" using Cons.prems by (auto simp: bindR_Inr_iff)
    then show ?thesis using assms(2)[of s s' v] assms(3) by (simp add: list_all2_refl)
  next
    case False
    then obtain zs where "on_first P f ss = Inr (Some (zs, v))" "ss' = s # zs" using Cons.prems by (auto simp: bindR_Inr_iff)
    then show ?thesis using Cons.IH assms(3) by simp
  qed
qed simp

lemma mapR_asked:
  assumes "mapR f ss = Inr ts" "\<And>s s' v. f s = Inr (s', v) \<Longrightarrow> R s s'"
  shows "list_all2 R ss (map fst ts)"
  using assms(1) by (induction ss arbitrary: ts) (auto simp: bindR_Inr_iff intro: assms(2))

text \<open>What each request leaves of the services.\<close>

lemma service_report_asked:
  assumes "service_report J f i m = Inr (m', out)" "\<And>s s' v. f s = Inr (s', v) \<Longrightarrow> R s s'" "\<And>s. R s s"
  shows "list_all2 R (m_services m) (m_services m')"
proof (cases "i = ''all''")
  case True
  then obtain ss r where r: "report_all J f (m_services m) = Inr (ss, r)" "m_services m' = ss"
    using assms(1) by (auto simp: service_report_def bindR_Inr_iff)
  from fold_asked[OF r(1)[unfolded report_all_def], of R] assms(2) r(2) show ?thesis by (fastforce simp: bindR_Inr_iff)
next
  case False
  then obtain r where r: "on_first (\<lambda>s. service_is s i) f (m_services m) = Inr r"
    using assms(1) by (auto simp: service_report_def bindR_Inr_iff)
  show ?thesis
  proof (cases r)
    case None
    then show ?thesis using assms(1,3) False r by (auto simp: service_report_def list_all2_refl)
  next
    case (Some x)
    then obtain ss v where "on_first (\<lambda>s. service_is s i) f (m_services m) = Inr (Some (ss, v))" "m_services m' = ss"
      using assms(1) False r by (cases x) (auto simp: service_report_def)
    with on_first_asked[of "\<lambda>s. service_is s i" f "m_services m" ss v R] assms(2,3) show ?thesis by simp
  qed
qed

lemma status_request:
  "doGetServiceStatus J w ask m request args = Inr (m', out) \<Longrightarrow> list_all2 (asked w ask) (m_services m) (m_services m')"
  by (auto simp: doGetServiceStatus_def bindR_Inr_iff elim!: service_report_asked intro: asked_status asked_refl)

lemma log_request: "doGetServiceLog J m request args = Inr (m', out) \<Longrightarrow> list_all2 (asked w ask) (m_services m) (m_services m')"
  by (auto simp: doGetServiceLog_def bindR_Inr_iff elim!: service_report_asked intro: asked_refl)

lemma all_request:
  assumes "doGetAllJson J w ask now sys m request args = Inr (m', out)"
  shows "list_all2 (asked w ask) (m_services m) (m_services m')"
proof -
  obtain since ss sv where f: "foldR (all_report J w ask since) (m_services m) ([], j_object J) = Inr (ss, sv)" "m_services m' = ss"
    using assms by (auto simp: doGetAllJson_def bindR_Inr_iff)
  have "\<exists>s' r'. x = (seen @ [s'], r') \<and> asked w ask s s'" if "all_report J w ask since s (seen, r) = Inr x" for s seen r x
    using that asked_status[of J w ask s] by (auto simp: all_report_def bindR_Inr_iff Let_def)
  from fold_asked[OF f(1) this] f(2) show ?thesis by auto
qed

lemma page_request:
  assumes "doGetServiceHtml J w ask m request args = Inr (m', out)"
  shows "list_all2 (asked w ask) (m_services m) (m_services m')"
proof -
  obtain i r where i: "vec_at request 0 = Inr i" and r: "on_first (\<lambda>s. service_is s i) (service_page J w ask) (m_services m) = Inr r"
    using assms by (auto simp: doGetServiceHtml_def bindR_Inr_iff)
  have page: "asked w ask s s'" if p: "service_page J w ask s = Inr (s', v)" for s s' v
  proof -
    obtain s1 rf cols where "getJsonStatus J w ask s (j_object J) = Inr (s1, rf)" "s' = s1\<lparr>s_collectors := cols\<rparr>"
      using p unfolding service_page_def getCollectorsHtml_def by (auto simp: bindR_Inr_iff)
    then show ?thesis using asked_status[of J w ask s] by (auto simp: asked_def tracked_def serv_ok_def)
  qed
  show ?thesis
  proof (cases r)
    case None
    then show ?thesis using assms i r by (auto simp: doGetServiceHtml_def list_all2_refl asked_refl)
  next
    case (Some x)
    then obtain ss v where "on_first (\<lambda>s. service_is s i) (service_page J w ask) (m_services m) = Inr (Some (ss, v))" "m_services m' = ss"
      using assms i r by (cases x) (auto simp: doGetServiceHtml_def)
    with on_first_asked[of "\<lambda>s. service_is s i" _ "m_services m" ss v "asked w ask", OF _ page asked_refl] show ?thesis by simp
  qed
qed

lemma root_request:
  assumes "doGetRootPage J w ask sys m request args = Inr (sys', m', out)"
  shows "list_all2 (asked w ask) (m_services m) (m_services m')"
proof -
  obtain ts where ts: "mapR (serv_getIndexHtml w ask) (m_services m) = Inr ts" "m_services m' = map fst ts"
    using assms unfolding doGetRootPage_def by (auto simp: bindR_Inr_iff)
  have "asked w ask s s'" if "serv_getIndexHtml w ask s = Inr (s', v)" for s s' v
    using that unfolding serv_getIndexHtml_def by (auto simp: bindR_Inr_iff Let_def asked_def)
  from mapR_asked[OF ts(1) this] ts(2) show ?thesis by simp
qed

lemma serv_getJson_keeps:
  assumes "serv_getJson J w (s, p) = Inr (s', p')"
  shows "tracked s' = tracked s \<and> serv_ok s' = serv_ok s"
proof -
  let ?P = "\<lambda>x. s_main (fst x) = s_main s \<and> s_sub (fst x) = s_sub s \<and> s_sockets (fst x) = s_sockets s"
  have "?P (s', p')"
  proof (rule foldR_invariant[where P = ?P, OF _ _ assms[unfolded serv_getJson_def split_conv]], goal_cases)
    case (1 kc x x')
    obtain k c where kc: "kc = (k, c)" by (cases kc)
    from 1(3) obtain c' where "fst x' = (fst x)\<lparr>s_collectors := mput k c' (s_collectors (fst x))\<rparr>"
      unfolding kc split_conv Let_def by (auto simp: bindR_Inr_iff split: prod.splits)
    with 1(2) show ?case by simp
  qed simp
  then show ?thesis by (simp add: tracked_def serv_ok_def)
qed

lemma doc_request:
  assumes "doGetJson J w sys m request args = Inr (sys', m', out)"
  shows "list_all2 (asked w ask) (m_services m) (m_services m')"
proof -
  let ?g = "\<lambda>s (seen, p). bindR (serv_getJson J w (s, p)) (\<lambda>(s', p'). Inr (seen @ [s'], p'))"
  obtain sys1 p where sys: "mgr_getJson J w sys (run_writes J (doc_head J) (j_object J)) = Inr (sys1, p)"
    using assms by (cases "mgr_getJson J w sys (run_writes J (doc_head J) (j_object J))") (auto simp: doGetJson_def)
  obtain ss p' where f: "foldR ?g (m_services m) ([], run_writes J (doc_body J) p) = Inr (ss, p')" "m_services m' = ss"
    using assms sys by (cases "foldR ?g (m_services m) ([], run_writes J (doc_body J) p)") (auto simp: doGetJson_def)
  have "\<exists>s' r'. x = (seen @ [s'], r') \<and> asked w ask s s'"
    if "?g s (seen, r) = Inr x" for s seen r x
    using that serv_getJson_keeps[of J w s r] by (auto simp: bindR_Inr_iff intro: asked_same)
  from fold_asked[OF f(1) this] f(2) show ?thesis by auto
qed

section \<open>Runs\<close>

definition w_ask :: "'j world \<Rightarrow> 'j asks" where
  "w_ask W = agent_ask (w_os W) (w_bus W) (w_lua W)"

text \<open>
  A step is a round of the manager's thread or one request. The histories and graphs of a collector leave the services
  as they are and are no steps.
\<close>

inductive agent_request :: "'j jsonlib \<Rightarrow> 'j world \<Rightarrow> 'j manager \<Rightarrow> 'j manager \<Rightarrow> bool" for J where
  a_status: "doGetServiceStatus J (w_os W) (w_ask W) m request args = Inr (m', out) \<Longrightarrow> agent_request J W m m'"
| a_log: "doGetServiceLog J m request args = Inr (m', out) \<Longrightarrow> agent_request J W m m'"
| a_all: "doGetAllJson J (w_os W) (w_ask W) now sys m request args = Inr (m', out) \<Longrightarrow> agent_request J W m m'"
| a_page: "doGetServiceHtml J (w_os W) (w_ask W) m request args = Inr (m', out) \<Longrightarrow> agent_request J W m m'"
| a_root: "doGetRootPage J (w_os W) (w_ask W) sys m request args = Inr (sys', m', out) \<Longrightarrow> agent_request J W m m'"
| a_doc: "doGetJson J (w_os W) sys m request args = Inr (sys', m', out) \<Longrightarrow> agent_request J W m m'"

datatype 'j agent_step = Round "'j world" | Request "'j world" "'j manager"

text \<open>
  A run, with its steps: each has its world, and a request also the services it found. Nothing is asked of the worlds and the services here.
\<close>

inductive agent_run ::
  "'j jsonlib \<Rightarrow> 'j enhancer list \<Rightarrow> string \<Rightarrow> (detector_obj \<Rightarrow> 'j) \<Rightarrow> 'j agent_step list \<Rightarrow> 'j manager \<Rightarrow> 'j manager \<Rightarrow> bool" for J es dir cfg_of where
  r_stop: "agent_run J es dir cfg_of [] m m"
| r_round: "mgr_find J cfg_of (run_detector J W es dir cfg_of) dets m = Inr m1 \<Longrightarrow> agent_run J es dir cfg_of steps m1 m' \<Longrightarrow>
    agent_run J es dir cfg_of (Round W # steps) m m'"
| r_request: "agent_request J W m m1 \<Longrightarrow> agent_run J es dir cfg_of steps m1 m' \<Longrightarrow>
    agent_run J es dir cfg_of (Request W m # steps) m m'"

fun world_of :: "'j agent_step \<Rightarrow> 'j world" where
  "world_of (Round W) = W"
| "world_of (Request W m) = W"

lemma agent_request_asked:
  "agent_request J W m m' \<Longrightarrow> list_all2 (asked (w_os W) (w_ask W)) (m_services m) (m_services m')"
  by (induction rule: agent_request.induct) (auto intro: status_request log_request all_request page_request root_request doc_request)

lemma agent_request_keeps:
  assumes "agent_request J W m m'" "mgr_inv ex m" "ex \<longrightarrow> \<not> told_foreign (w_os W) (w_ask W) m"
  shows "mgr_inv ex m' \<and> keeps_live (w_os W) m m'"
  using asked_all[OF agent_request_asked[OF assms(1)] _ assms(2,3)] by (simp add: w_ask_def agent_ask_ok)

lemma agent_run_inv:
  assumes "agent_run J es dir cfg_of steps m m'" "list_all enhancer_ok es" "mgr_inv ex m" "\<forall>W. Round W \<in> set steps \<longrightarrow> steady J W cfg_of"
    and "\<forall>W n. ex \<and> Request W n \<in> set steps \<longrightarrow> \<not> told_foreign (w_os W) (w_ask W) n"
  shows "mgr_inv ex m' \<and> (\<forall>i. mgr_havePID m i \<and> (\<forall>st \<in> set steps. alive (w_os (world_of st)) i) \<longrightarrow> mgr_havePID m' i)"
  using assms(1,3-5)
proof (induction rule: agent_run.induct)
  case (r_round W dets m m1 steps m')
  from mgr_find_step[OF r_round(1) r_round.prems(1) assms(2)] r_round.prems r_round.IH show ?case by (auto simp: keeps_live_def)
next
  case (r_request W m m1 steps m')
  from agent_request_keeps[OF r_request(1) r_request.prems(1)] r_request.prems r_request.IH show ?case by (auto simp: keeps_live_def)
qed simp

text \<open>
  C6: whatever rounds of the detectors and requests follow each other, in worlds that change in between, every service stays well formed, and
  a process that is tracked and runs in the world of every step stays tracked; the worlds of the rounds are only assumed to be such that the processes a round is told of run.
  That no process is tracked by two services is not kept in every run: a request can break it, as the restarted units below show. But nothing else can: if it holds at the
  beginning and not at the end, then one of the requests found a service whose handler, when asked, adds a process that another service had or that the handler of another service adds.
\<close>

theorem agent_run_keeps:
  assumes "agent_run J es dir cfg_of steps m m'" "list_all enhancer_ok es" "\<forall>s \<in> set (m_services m). serv_ok s"
    and "\<forall>W. Round W \<in> set steps \<longrightarrow> steady J W cfg_of"
  shows "(\<forall>s \<in> set (m_services m'). serv_ok s) \<and>
    (\<forall>i. mgr_havePID m i \<and> (\<forall>st \<in> set steps. alive (w_os (world_of st)) i) \<longrightarrow> mgr_havePID m' i) \<and>
    (exclusive tracked (m_services m) \<and> \<not> exclusive tracked (m_services m') \<longrightarrow>
       (\<exists>W n. Request W n \<in> set steps \<and> told_foreign (w_os W) (w_ask W) n))"
  using agent_run_inv[OF assms(1,2) _ assms(4), of False] agent_run_inv[OF assms(1,2) _ assms(4), of True] assms(3)
  by (auto simp: mgr_inv_def)

section \<open>A unit that was restarted\<close>

text \<open>The unit of the service failed and was restarted with process \<open>i\<close>, which can be read.\<close>

definition unit_restarted :: "os \<Rightarrow> bus \<Rightarrow> 'j service \<Rightarrow> u32 \<Rightarrow> bool" where
  "unit_restarted w b s i \<longleftrightarrow> (\<exists>path p. s_handler s = Some (systemd_handler path) \<and> has_failed w s \<and>
     b_ActiveState b path = Some ''active'' \<and> sd_getPID b path = i \<and> i \<noteq> 0 \<and> process_of_pid w i = Inr p \<and> base_name p \<noteq> [])"

lemma restarted_asked:
  assumes "unit_restarted w b s i" "is_blackout w (agent_ask w (Some b) lua) s = Inr (t, bl)"
  shows "i \<in> tracked t" "{j \<in> tracked s. alive w j} \<subseteq> tracked t"
proof -
  obtain path p where u: "s_handler s = Some (systemd_handler path)" "has_failed w s" "b_ActiveState b path = Some ''active''"
      "sd_getPID b path = i" "i \<noteq> 0" "process_of_pid w i = Inr p" "base_name p \<noteq> []"
    using assms(1) by (auto simp: unit_restarted_def)
  have a: "agent_ask w (Some b) lua (systemd_handler path) s = Inr (t, bl)" using assms(2) u(1,2) by (simp add: is_blackout_def)
  from agent_ask_ok[of w "Some b" lua] a show "{j \<in> tracked s. alive w j} \<subseteq> tracked t" by (auto simp: ask_ok_def)
  show "i \<in> tracked t"
  proof (cases "havePID s i")
    case True
    then have "t = s" using a u(3-5) by (simp add: agent_ask_def systemd_handler_def systemd_isBlackout_def dbus_string_def Let_def)
    with True show ?thesis by (simp add: havePID_tracked)
  next
    case False
    then have "updateMainProcess w p s = Inr t"
      using a u(3-7) by (auto simp: agent_ask_def systemd_handler_def systemd_isBlackout_def dbus_string_def Let_def bindR_Inr_iff)
    from updateMainProcess_step(1)[OF this] process_of_pid_pid[OF u(6)] show ?thesis by simp
  qed
qed

lemma on_first_split:
  assumes "on_first P f ss = Inr (Some (ss', v))"
  obtains us s vs s' where "ss = us @ s # vs" "P s" "f s = Inr (s', v)" "ss' = us @ s' # vs"
proof -
  have "\<exists>us s vs s'. ss = us @ s # vs \<and> P s \<and> f s = Inr (s', v) \<and> ss' = us @ s' # vs"
    using assms
  proof (induction ss arbitrary: ss')
    case (Cons x ss)
    show ?case
    proof (cases "P x")
      case True
      then obtain x' where "f x = Inr (x', v)" "ss' = x' # ss" using Cons.prems by (auto simp: bindR_Inr_iff)
      with True show ?thesis by (intro exI[of _ "[]"]) simp
    next
      case False
      then obtain zs where "on_first P f ss = Inr (Some (zs, v))" "ss' = x # zs" using Cons.prems by (auto simp: bindR_Inr_iff)
      with Cons.IH[of zs] show ?thesis by (metis append_Cons)
    qed
  qed simp
  with that show thesis by blast
qed

lemma on_first_found: "t \<in> set ss \<Longrightarrow> P t \<Longrightarrow> on_first P f ss \<noteq> Inr None"
  by (induction ss) (auto simp: bindR_Inr_iff)

lemma restarted_status:
  assumes "doGetServiceStatus J w (agent_ask w (Some b) lua) m (getID s # r) args = Inr (m', out)"
    and "s \<in> set (m_services m)" "distinct (map getID (m_services m))" "unit_restarted w b s i"
  obtains us vs s' where "m_services m = us @ s # vs" "m_services m' = us @ s' # vs" "i \<in> tracked s'"
    "{j \<in> tracked s. alive w j} \<subseteq> tracked s'"
proof -
  let ?ask = "agent_ask w (Some b) lua" and ?P = "\<lambda>t. service_is t (getID s)"
  let ?f = "\<lambda>s. getJsonStatus J w ?ask s (j_object J)"
  have "bindR (on_first ?P ?f (m_services m)) (\<lambda>r. case r of Some (ss, v) \<Rightarrow> Inr (m\<lparr>m_services := ss\<rparr>, setResponseJson (j_write J v))
      | None \<Rightarrow> Inr (m, setResponseJson (error_text J (no_service (getID s))))) = Inr (m', out)"
    using assms(1) by (simp add: doGetServiceStatus_def service_report_def getID_all)
  then obtain x where x: "on_first ?P ?f (m_services m) = Inr x"
      "(case x of Some (ss, v) \<Rightarrow> Inr (m\<lparr>m_services := ss\<rparr>, setResponseJson (j_write J v))
        | None \<Rightarrow> Inr (m, setResponseJson (error_text J (no_service (getID s))))) = (Inr (m', out) :: ('a manager \<times> string) res)"
    unfolding bindR_Inr_iff by blast
  have "x \<noteq> None"
    using on_first_found[OF assms(2), of ?P ?f] x(1) by (auto simp: service_is_iff)
  then obtain ss v where ss: "on_first ?P ?f (m_services m) = Inr (Some (ss, v))" "m_services m' = ss" using x by (auto split: prod.splits)
  obtain us t vs s' where sp: "m_services m = us @ t # vs" "?P t" "?f t = Inr (s', v)" "ss = us @ s' # vs"
    using ss(1) by (rule on_first_split)
  have "t = s" using sp(1,2) assms(2,3) by (metis distinct_map inj_onD in_set_conv_decomp service_is_iff)
  obtain u bl where u: "is_blackout w ?ask t = Inr (u, bl)" "map pid (s_main s') = map pid (s_main u)" "map pid (s_sub s') = map pid (s_sub u)"
    using sp(3) by (rule status_keeps)
  have "tracked s' = tracked u" using u(2,3) by (simp add: tracked_def flip: set_map)
  with restarted_asked[OF assms(4), of lua u bl] u(1) \<open>t = s\<close> that[of us vs s'] sp ss(2) show thesis by simp
qed

text \<open>
  C22: When a unit failed and systemd restarted it, a request for the status of its service makes the service track the new
  process and keep those that still run, and changes no other service.
\<close>

theorem restart_recovered:
  assumes "doGetServiceStatus J w (agent_ask w (Some b) lua) m (getID s # r) args = Inr (m', out)"
    and "s \<in> set (m_services m)" "distinct (map getID (m_services m))" "unit_restarted w b s i"
  shows "\<exists>us vs s'. m_services m = us @ s # vs \<and> m_services m' = us @ s' # vs \<and> havePID s' i \<and>
    (\<forall>j. havePID s j \<and> alive w j \<longrightarrow> havePID s' j)"
proof -
  from assms obtain us vs s' where "m_services m = us @ s # vs" "m_services m' = us @ s' # vs" "i \<in> tracked s'"
    "{j \<in> tracked s. alive w j} \<subseteq> tracked s'" by (rule restarted_status)
  then show ?thesis by (auto simp: havePID_tracked)
qed

lemma restarted_shared:
  assumes "doGetServiceStatus J w (agent_ask w (Some b) lua) m (getID s # r) args = Inr (m', out)"
    and "s \<in> set (m_services m)" "distinct (map getID (m_services m))" "unit_restarted w b s i"
    and "t \<in> set (m_services m)" "t \<noteq> s" "havePID t i"
  shows "\<not> exclusive tracked (m_services m')"
proof -
  from assms(1-4) obtain us vs s' where sp: "m_services m = us @ s # vs" "m_services m' = us @ s' # vs" "i \<in> tracked s'"
    by (rule restarted_status)
  have "i \<noteq> 0" using assms(4) by (auto simp: unit_restarted_def)
  have "i \<in> owned tracked us \<union> owned tracked vs" using assms(5-7) sp(1) by (auto simp: owned_def havePID_tracked)
  then show ?thesis using sp(2,3) \<open>i \<noteq> 0\<close> by (auto simp: sr.exclusive_split)
qed

text \<open>
  C37: The handler asks its own service only whether the new process is tracked: when the socket detector has found the restarted
  process first and registered it with another service, the request for the status puts it into a second one.
\<close>

theorem handler_shares_process:
  assumes "doGetServiceStatus J w (agent_ask w (Some b) lua) m (getID s # r) args = Inr (m', out)"
    and "s \<in> set (m_services m)" "distinct (map getID (m_services m))" "unit_restarted w b s i"
    and "t \<in> set (m_services m)" "t \<noteq> s" "havePID t i"
  shows "\<not> mgr_ok m'"
  using restarted_shared[OF assms] by (simp add: mgr_ok_def)

section \<open>A web server that was restarted\<close>

definition web_service :: "jv service" where
  "web_service = (blank_service ref_json [])\<lparr>s_name := ''nginx'', s_uniqName := ''found'', s_main := [web_process]\<rparr>"

definition web_unit :: "jv service" where
  "web_unit = (blank_service ref_json [])\<lparr>s_name := ''nginx'', s_uniqName := ''web'', s_main := [demo_process 0],
     s_handler := Some (systemd_handler ''/unit'')\<rparr>"

definition web_world :: "jv world" where
  "web_world = \<lparr>w_os = web_os, w_rxm = \<lambda>_ _. False, w_bus = Some demo_bus, w_mem = zeroed_socket, w_scripts = \<lambda>_ _ _. Inr (),
     w_lua = \<lambda>_. None\<rparr>"

lemma web_alive: "alive web_os 42" "\<not> alive web_os 0"
  by (simp_all add: alive_def web_os_sel proc_path_42) (simp add: proc_path_def show_nat.simps digit_char_def)

lemma web_status:
  assumes "is_blackout web_os ask s0 = Inr (s, bl)" "s_main s = [web_process]" "s_sub s = []"
  shows "\<exists>s' ref. getJsonStatus ref_json web_os ask s0 (JObj []) = Inr (s', ref)"
proof -
  have up: "proc_getStatus web_os web_process" "proc_getStatus web_os (web_process\<lparr>cwd := c\<rparr>)" for c
    by (simp_all add: getStatus_alive web_alive web_process_def)
  have "getCWD web_os web_process = Inr (web_process\<lparr>cwd := ''socket:[7]''\<rparr>, ''socket:[7]'')"
    using up by (simp add: getCWD_def readlink_buf_def web_os_sel proc_path_42 web_process_def)
  moreover have "\<exists>x. getUsername web_os (web_process\<lparr>cwd := ''socket:[7]''\<rparr>) = Inr x"
    using up by (simp add: getUsername_def file_lines_def web_os_sel proc_path_42 web_process_def)
  ultimately have "\<exists>x. main_writes ref_json web_os bl (0, web_process) = Inr x"
    using up by (auto simp: main_writes_def process_info_def)
  then show ?thesis using assms by (auto simp: getJsonStatus_def)
qed

lemma web_restarted: "unit_restarted web_os demo_bus web_unit 42"
proof -
  have "has_failed web_os web_unit"
    by (simp add: has_failed_def web_unit_def getStatus_alive demo_process_def web_alive)
  then show ?thesis
    using web_process_of_pid demo_bus_pid
    by (auto simp: unit_restarted_def web_unit_def demo_bus_sel web_process_def intro!: exI[of _ "''/unit''"])
qed

lemma web_unit_asked:
  "is_blackout web_os (agent_ask web_os (Some demo_bus) lua) web_unit = Inr (web_unit\<lparr>s_main := [web_process]\<rparr>, True)"
proof -
  have d: "\<not> proc_getStatus web_os (demo_process 0)" by (simp add: getStatus_alive demo_process_def web_alive)
  have "has_failed web_os web_unit" using web_restarted by (auto simp: unit_restarted_def)
  then show ?thesis using d
    by (simp add: is_blackout_def web_unit_def agent_ask_def systemd_handler_def systemd_isBlackout_def demo_bus_sel dbus_string_def
        demo_bus_pid Let_def havePID_def blank_service_def web_process_of_pid updateMainProcess_def addMainProcess_def web_getPPID)
      (simp add: demo_process_def web_process_def)
qed

definition web_manager :: "jv service list \<Rightarrow> jv manager" where
  "web_manager ss = \<lparr>m_services = ss, m_templates = [], m_counters = []\<rparr>"

lemma web_services:
  "getID web_unit = ''nginx-web''" "getID web_service = ''nginx-found''" "s_main web_service = [web_process]" "s_sub web_service = []"
  "s_sockets web_service = []" "s_handler web_service = None" "tracked web_service = {42}" "serv_ok web_service"
  "s_sub web_unit = []"
  by (simp_all add: web_unit_def web_service_def blank_service_def getID_def tracked_def serv_ok_def web_process_def)

lemma web_status_request:
  "\<exists>m' out. doGetServiceStatus ref_json web_os (agent_ask web_os (Some demo_bus) lua) (web_manager [web_unit, web_service]) [getID web_unit] [] =
     Inr (m', out)"
proof -
  obtain s' ref where "getJsonStatus ref_json web_os (agent_ask web_os (Some demo_bus) lua) web_unit (JObj []) = Inr (s', ref)"
    using web_status[OF web_unit_asked[of lua]] by (auto simp: web_services)
  then show ?thesis
    by (simp add: doGetServiceStatus_def service_report_def web_manager_def service_is_iff) (simp add: web_services)
qed

theorem restart_recovered_witness:
  "\<exists>m' out. doGetServiceStatus ref_json web_os (agent_ask web_os (Some demo_bus) (\<lambda>_. None)) (web_manager [web_unit, web_service]) [getID web_unit] [] =
     Inr (m', out) \<and> mgr_havePID m' 42"
proof -
  obtain m' out where m': "doGetServiceStatus ref_json web_os (agent_ask web_os (Some demo_bus) (\<lambda>_. None)) (web_manager [web_unit, web_service])
      [getID web_unit] [] = Inr (m', out)"
    using web_status_request by blast
  have "web_unit \<in> set (m_services (web_manager [web_unit, web_service]))"
    "distinct (map getID (m_services (web_manager [web_unit, web_service])))"
    by (simp_all add: web_manager_def web_services)
  from restart_recovered[OF m' this web_restarted] m' show ?thesis by (auto simp: mgr_havePID_def)
qed

lemma web_shared:
  "web_unit \<in> set (m_services (web_manager [web_unit, web_service]))"
  "distinct (map getID (m_services (web_manager [web_unit, web_service])))"
  "web_service \<in> set (m_services (web_manager [web_unit, web_service]))" "web_service \<noteq> web_unit" "havePID web_service 42"
  "mgr_ok (web_manager [web_unit, web_service])"
proof -
  show "web_unit \<in> set (m_services (web_manager [web_unit, web_service]))"
    "distinct (map getID (m_services (web_manager [web_unit, web_service])))"
    "web_service \<in> set (m_services (web_manager [web_unit, web_service]))" "web_service \<noteq> web_unit" "havePID web_service 42"
    using web_services(6) by (auto simp: web_manager_def web_services(1-2,7) havePID_tracked) (auto simp: web_unit_def)
  show "mgr_ok (web_manager [web_unit, web_service])"
    by (simp add: mgr_ok_def web_manager_def web_services owned_def tracked_def[of web_unit])
      (simp add: web_unit_def blank_service_def serv_ok_def demo_process_def)
qed

theorem handler_shares_process_witness:
  "\<exists>m' out. doGetServiceStatus ref_json web_os (agent_ask web_os (Some demo_bus) (\<lambda>_. None)) (web_manager [web_unit, web_service]) [getID web_unit] [] =
     Inr (m', out) \<and> mgr_ok (web_manager [web_unit, web_service]) \<and> \<not> mgr_ok m'"
proof -
  obtain m' out where m': "doGetServiceStatus ref_json web_os (agent_ask web_os (Some demo_bus) (\<lambda>_. None)) (web_manager [web_unit, web_service])
      [getID web_unit] [] = Inr (m', out)"
    using web_status_request by blast
  with handler_shares_process[OF m' web_shared(1,2) web_restarted web_shared(3-5)] web_shared(6) show ?thesis by blast
qed

text \<open>
  A run with a request for the status of a restarted unit whose process another service has: the process stays tracked and the services well formed, both
  track it at the end, and the theorem names the reason.
\<close>

theorem agent_run_keeps_witness:
  "\<exists>m'. agent_run ref_json [] ''/etc'' (\<lambda>_. demo_lists) [Request web_world (web_manager [web_unit, web_service])]
       (web_manager [web_unit, web_service]) m' \<and>
     (\<forall>s \<in> set (m_services m'). serv_ok s) \<and> mgr_havePID m' 42 \<and> \<not> exclusive tracked (m_services m') \<and>
     told_foreign web_os (w_ask web_world) (web_manager [web_unit, web_service])"
proof -
  let ?m = "web_manager [web_unit, web_service]"
  have W: "w_os web_world = web_os" "w_ask web_world = agent_ask web_os (Some demo_bus) (\<lambda>_. None)" by (simp_all add: web_world_def w_ask_def)
  obtain m' out where m': "doGetServiceStatus ref_json web_os (agent_ask web_os (Some demo_bus) (\<lambda>_. None)) ?m [getID web_unit] [] = Inr (m', out)"
    using web_status_request by blast
  then have "agent_request ref_json web_world ?m m'" by (intro a_status) (simp add: W)
  then have run: "agent_run ref_json [] ''/etc'' (\<lambda>_. demo_lists) [Request web_world ?m] ?m m'" by (rule r_request[OF _ r_stop])
  have ok: "\<forall>s \<in> set (m_services ?m). serv_ok s" "exclusive tracked (m_services ?m)" "mgr_havePID ?m 42"
    using web_shared(3,5,6) by (auto simp: mgr_ok_def mgr_havePID_def list_ex_iff)
  from agent_run_keeps[OF run _ ok(1)] restarted_shared[OF m' web_shared(1,2) web_restarted web_shared(3-5)] ok run
  show ?thesis by (intro exI[of _ m']) (simp add: W web_alive)
qed

end
