(* ===== verification/Lifetimes.thy ===== *)
theory Lifetimes
  imports LuaPlugins
begin

text \<open>
  The ends of the agent's objects: the destructors of src/collectors.cpp, src/services.cpp and src/luacollectors.cpp, and the
  constructors that only count, over the counters the agent reports of itself. A destructor also stops the object's thread, which
  \<open>Workers\<close> and \<open>LogThread\<close> follow step by step. The result says whether the counters are what the objects in memory are.
\<close>

section \<open>Destructors\<close>

text \<open>With a collector its measures go, each with its own destructor.\<close>

definition drop_collector :: "'j collector \<Rightarrow> counters \<Rightarrow> counters" where
  "drop_collector c cs = fold (\<lambda>(k, r). drop_ressource r) (c_ressources c) (count_del ''collector'' 1 cs)"

definition drop_logParser :: "'j logParser \<Rightarrow> counters \<Rightarrow> counters" where
  "drop_logParser p cs = count_del ''logParser'' 1 cs"

definition drop_service :: "'j service \<Rightarrow> counters \<Rightarrow> counters" where
  "drop_service s cs = count_del ''service'' 1 cs"

text \<open>The Lua objects have a flag that tells whether the interpreter can still be used.\<close>

definition drop_LuaCollector :: "'j collector \<Rightarrow> counters \<Rightarrow> bool \<times> counters" where
  "drop_LuaCollector c cs = (False, drop_collector c (count_del ''LuaCollector'' 1 cs))"

definition drop_LuaParser :: "'j logParser \<Rightarrow> counters \<Rightarrow> bool \<times> counters" where
  "drop_LuaParser p cs = (False, drop_logParser p (count_del ''LuaParser'' 1 cs))"

definition new_LuaServiceEnhancer :: "counters \<Rightarrow> bool \<times> counters" where
  "new_LuaServiceEnhancer cs = (True, count_add ''LuaEnhancer'' 1 cs)"

definition drop_LuaServiceEnhancer :: "counters \<Rightarrow> bool \<times> counters" where
  "drop_LuaServiceEnhancer cs = (False, count_del ''LuaEnhancer'' 1 cs)"

definition new_LuaServiceHandler :: "counters \<Rightarrow> bool \<times> counters" where
  "new_LuaServiceHandler cs = (True, count_add ''LuaHandler'' 1 cs)"

definition drop_LuaServiceHandler :: "counters \<Rightarrow> bool \<times> counters" where
  "drop_LuaServiceHandler cs = (False, count_del ''LuaHandler'' 1 cs)"

section \<open>The books of a collector\<close>

text \<open>What a collector has in memory, by the name it is counted under.\<close>

definition holds :: "'j collector \<Rightarrow> string \<Rightarrow> nat" where
  "holds c n =
     (if n = ''ressource'' then length (c_ressources c)
      else if n = ''values_count'' then (\<Sum>(k, r)\<leftarrow>c_ressources c. length (rv r)) else 0)"

text \<open>A statement on a collector that moves every counter by what the collector gets or loses.\<close>

definition booked :: "('j cstate \<Rightarrow> 'j cstate res) \<Rightarrow> bool" where
  "booked f \<longleftrightarrow> (\<forall>c cs c' cs'. key_sorted (c_ressources c) \<longrightarrow> f (c, cs) = Inr (c', cs') \<longrightarrow> key_sorted (c_ressources c') \<and>
     (\<forall>n. live_count cs' n - of_nat (holds c' n) = live_count cs n - of_nat (holds c n)))"

definition rbooked :: "('j ressource \<times> counters \<Rightarrow> ('j ressource \<times> counters) res) \<Rightarrow> bool" where
  "rbooked f \<longleftrightarrow> (\<forall>r cs r' cs'. f (r, cs) = Inr (r', cs') \<longrightarrow>
     (\<forall>n. live_count cs' n - live_count cs n =
        (if n = ''values_count'' then of_nat (length (rv r')) - of_nat (length (rv r)) else 0)))"

lemma bookedI:
  "(\<And>c cs c' cs'. key_sorted (c_ressources c) \<Longrightarrow> f (c, cs) = Inr (c', cs') \<Longrightarrow> key_sorted (c_ressources c') \<and>
     (\<forall>n. live_count cs' n - of_nat (holds c' n) = live_count cs n - of_nat (holds c n))) \<Longrightarrow> booked f"
  unfolding booked_def by blast

lemma bookedD:
  assumes "booked f" "key_sorted (c_ressources c)" "f (c, cs) = Inr (c', cs')"
  shows "key_sorted (c_ressources c')" "live_count cs' n - of_nat (holds c' n) = live_count cs n - of_nat (holds c n)"
  using assms unfolding booked_def by blast+

lemma rbookedI:
  "(\<And>r cs r' cs' n. f (r, cs) = Inr (r', cs') \<Longrightarrow> live_count cs' n - live_count cs n =
        (if n = ''values_count'' then of_nat (length (rv r')) - of_nat (length (rv r)) else 0)) \<Longrightarrow> rbooked f"
  unfolding rbooked_def by blast

lemma rbookedD:
  "rbooked f \<Longrightarrow> f (r, cs) = Inr (r', cs') \<Longrightarrow> live_count cs' n - live_count cs n =
     (if n = ''values_count'' then of_nat (length (rv r')) - of_nat (length (rv r)) else 0)"
  unfolding rbooked_def by blast

lemma diff_move: "a - b = d \<Longrightarrow> a = b + (d :: 'a::ab_group_add)"
  by (simp add: diff_eq_eq add.commute)

text \<open>A sum over the entries of a map after one of them is written.\<close>

lemma sum_mput:
  fixes f :: "'k::linorder \<times> 'v \<Rightarrow> nat"
  assumes "key_sorted m"
  shows "sum_list (map f (mput k v m)) + (case map_of m k of None \<Rightarrow> 0 | Some old \<Rightarrow> f (k, old)) = sum_list (map f m) + f (k, v)"
  using assms
proof (induction m)
  case (Cons e m)
  obtain k' v' where e: "e = (k', v')" by (cases e)
  have "\<forall>y \<in> fst ` set m. k' < y" "key_sorted m" using Cons.prems by (simp_all add: e key_sorted_Cons)
  moreover from this have "k < k' \<Longrightarrow> map_of m k = None" by (auto simp: map_of_eq_None_iff dest: less_asym)
  ultimately show ?case using Cons.IH by (auto simp: e)
qed simp

lemma sum_ones: "sum_list (map (\<lambda>_. Suc 0) m) = length m"
  by (induction m) auto

lemma holds_mput:
  assumes "key_sorted (c_ressources c)"
  shows "holds (c\<lparr>c_ressources := mput k r (c_ressources c)\<rparr>) n +
      (case map_of (c_ressources c) k of None \<Rightarrow> 0 | Some old \<Rightarrow> if n = ''ressource'' then 1 else if n = ''values_count'' then length (rv old) else 0) =
    holds c n + (if n = ''ressource'' then 1 else if n = ''values_count'' then length (rv r) else 0)"
  using sum_mput[OF assms, of "\<lambda>_. Suc 0" k r] sum_mput[OF assms, of "\<lambda>(k, r). length (rv r)" k r]
  by (auto simp: holds_def sum_ones split: option.splits)

lemma on_ressource_booked:
  assumes "rbooked f"
  shows "booked (on_ressource k f)"
proof (rule bookedI)
  fix c :: "'a collector" and cs c' cs'
  assume s: "key_sorted (c_ressources c)" and run: "on_ressource k f (c, cs) = Inr (c', cs')"
  then obtain r r' where r: "map_of (c_ressources c) k = Some r" "f (r, cs) = Inr (r', cs')" "c' = c\<lparr>c_ressources := mput k r' (c_ressources c)\<rparr>"
    by (auto simp: on_ressource_def res_simps split: option.splits)
  have "live_count cs' n - of_nat (holds c' n) = live_count cs n - of_nat (holds c n)" for n
  proof -
    let ?g = "\<lambda>x. if n = ''ressource'' then 1 else if n = ''values_count'' then length (rv x) else (0 :: nat)"
    have "holds c' n + ?g r = holds c n + ?g r'" using holds_mput[OF s, of k r' n] r(1,3) by simp
    then have "of_nat (holds c' n) + of_nat (?g r) = (of_nat (holds c n) + of_nat (?g r') :: u32)" by (simp only: of_nat_add[symmetric])
    then have h: "of_nat (holds c n) = (of_nat (holds c' n) + of_nat (?g r) - of_nat (?g r') :: u32)" by (simp add: algebra_simps)
    have "live_count cs' n = live_count cs n + (if n = ''values_count'' then of_nat (length (rv r')) - of_nat (length (rv r)) else 0)"
      by (rule diff_move[OF rbookedD[OF assms r(2)]])
    then show ?thesis unfolding h by (cases "n = ''values_count''"; cases "n = ''ressource''") simp_all
  qed
  then show "key_sorted (c_ressources c') \<and> (\<forall>n. live_count cs' n - of_nat (holds c' n) = live_count cs n - of_nat (holds c n))"
    using s r(3) by simp
qed

lemma res_next_booked: "rbooked (res_next J now)"
proof (rule rbookedI)
  fix r :: "'a ressource" and cs r' cs' n
  assume "res_next J now (r, cs) = Inr (r', cs')"
  then have nxt: "nextValue J now (r, cs) = (r', cs')" by (simp add: res_next_def)
  then have "n \<noteq> ''values_count'' \<Longrightarrow> live_count cs' n = live_count cs n" by (auto simp: nextValue_def Let_def split: if_splits)
  then show "live_count cs' n - live_count cs n = (if n = ''values_count'' then of_nat (length (rv r')) - of_nat (length (rv r)) else 0)"
    using values_count_exact[OF nxt] by (cases "n = ''values_count''") simp_all
qed

lemma res_set_booked: "rbooked (res_set J k x)"
  by (rule rbookedI) (auto simp: res_set_def setProperty_def res_simps)

lemma res_prop_booked: "rbooked (res_prop k ds ty)"
  by (rule rbookedI) (auto simp: res_prop_def addProperty_def)

lemma addRessource_booked: "booked (addRessource J k ds ty)"
proof (rule bookedI)
  fix c :: "'a collector" and cs c' cs'
  assume s: "key_sorted (c_ressources c)" and run: "addRessource J k ds ty (c, cs) = Inr (c', cs')"
  show "key_sorted (c_ressources c') \<and> (\<forall>n. live_count cs' n - of_nat (holds c' n) = live_count cs n - of_nat (holds c n))"
  proof (cases "mhas (c_ressources c) k")
    case False
    then obtain h where h: "cs' = count_add ''ressource'' 1 cs" "c_ressources c' = mput k
        \<lparr>typeName = ty, rv = [], rd = [], rt = [], rsize = h, rkind = RPlain\<rparr> (c_ressources c)"
      using run by (auto simp: addRessource_def new_ressource_def res_simps Let_def)
    obtain r where r: "rv r = []" "cs' = count_add ''ressource'' 1 cs" "c_ressources c' = mput k r (c_ressources c)"
      by (rule that[OF _ h]) simp
    have "map_of (c_ressources c) k = None" using False by (auto simp: mhas_def list_ex_iff map_of_eq_None_iff)
    then have "holds c' n = holds c n + (if n = ''ressource'' then 1 else 0)" for n
      using holds_mput[OF s, of k r n] r by (auto simp: holds_def)
    then show ?thesis using s r by (simp add: algebra_simps)
  qed (use run s in \<open>auto simp: addRessource_def\<close>)
qed

lemma lua_step_booked: "booked (lua_step J now call)"
  by (cases call) (simp_all add: addRessource_booked on_ressource_booked res_next_booked res_set_booked res_prop_booked)

lemma lua_run_booked: "booked (lua_run J calls)"
proof (rule bookedI)
  fix c :: "'a collector" and cs c' cs'
  show "key_sorted (c_ressources c) \<Longrightarrow> lua_run J calls (c, cs) = Inr (c', cs') \<Longrightarrow> key_sorted (c_ressources c') \<and>
     (\<forall>n. live_count cs' n - of_nat (holds c' n) = live_count cs n - of_nat (holds c n))"
  proof (induction calls arbitrary: c cs)
    case (Cons x calls)
    obtain now call where x: "x = (now, call)" by (cases x)
    obtain c1 cs1 where "lua_step J now call (c, cs) = Inr (c1, cs1)" "lua_run J calls (c1, cs1) = Inr (c', cs')"
      using Cons.prems(2) by (auto simp: lua_run_def x res_simps)
    then show ?case using Cons.IH bookedD[OF lua_step_booked Cons.prems(1)] by metis
  qed (simp add: lua_run_def)
qed

lemma drop_collector_counts:
  "live_count (drop_collector c cs) n = live_count cs n - (if n = ''collector'' then 1 else if n = ''ressource'' then of_nat (length (c_ressources c)) else 0)"
proof -
  have "live_count (fold (\<lambda>(k, r). drop_ressource r) rs cs) n = live_count cs n - (if n = ''ressource'' then of_nat (length rs) else 0)"
    for rs :: "(string, 'a ressource) smap" and cs
    by (induction rs arbitrary: cs) (auto simp: drop_ressource_def)
  then show ?thesis by (simp add: drop_collector_def)
qed

text \<open>
  C36: The life of a collector written in Lua, from its constructor over whatever its script does to its destructor: the agent's counters of
  Lua collectors, collectors and measures are afterwards what they were before, but that of the values in memory keeps
  every reading the collector still had, because no destructor counts them.
\<close>

theorem collector_life_counted:
  assumes "new_LuaCollector J l p_cfg p_serv cs = Inr s" "lua_run J calls s = Inr (c, cs')"
  shows "(n \<noteq> ''values_count'' \<longrightarrow> live_count (snd (drop_LuaCollector c cs')) n = live_count cs n) \<and>
    live_count (snd (drop_LuaCollector c cs')) ''values_count'' = live_count cs ''values_count'' + of_nat (holds c ''values_count'')"
proof -
  obtain c0 where c0: "new_collector J ''lua'' p_cfg 0 0 p_serv cs = (c0, count_add ''collector'' 1 cs)" "c_ressources c0 = []"
    by (cases p_serv) (auto simp: new_collector_def setService_def)
  let ?c = "c0\<lparr>c_cfg := lua_defaults J l (c_cfg c0), c_name := ls_name l\<rparr>"
  let ?cs = "count_add ''LuaCollector'' 1 (count_add ''collector'' 1 cs)"
  obtain c1 cs1 where r1: "lua_run J (ls_declare l) (?c, ?cs) = Inr (c1, cs1)" "s = (addGetMetricRoute c1, cs1)"
    using assms(1) c0(1) by (auto simp: new_LuaCollector_def with_route_def res_simps)
  have k: "key_sorted (c_ressources ?c)" "holds ?c n = 0" for n using c0(2) by (simp_all add: holds_def)
  note b1 = bookedD[OF lua_run_booked k(1) r1(1)]
  have k1: "key_sorted (c_ressources (addGetMetricRoute c1))" "holds (addGetMetricRoute c1) n = holds c1 n" for n
    using b1(1) by (simp_all add: addGetMetricRoute_def holds_def)
  note b2 = bookedD(2)[OF lua_run_booked k1(1) assms(2)[unfolded r1(2)]]
  have "live_count cs' n - of_nat (holds c n) = live_count ?cs n" for n using b1(2)[of n] b2[of n] k(2) k1(2) by simp
  then have live: "live_count cs' n = live_count ?cs n + of_nat (holds c n)" for n by (metis diff_add_cancel)
  show ?thesis by (auto simp: drop_LuaCollector_def drop_collector_counts live holds_def)
qed

text \<open>A collector whose script makes one reading.\<close>

definition short_script :: lua_script where
  "short_script = \<lparr>ls_history = 5, ls_poolfreq = 1, ls_name = ''lua'', ls_declare = [(Fin 0, AddRes ''a'' ''A'' ''t'')]\<rparr>"

theorem collector_life_counted_witness:
  "\<exists>s c cs'. new_LuaCollector ref_json short_script (JObj []) None [] = Inr s \<and> lua_run ref_json [(Fin 1, NextVal ''a'')] s = Inr (c, cs') \<and>
     live_count (snd (drop_LuaCollector c cs')) ''values_count'' = 1"
proof -
  obtain s where s: "new_LuaCollector ref_json short_script (JObj []) None [] = Inr s"
      "\<exists>c cs'. lua_run ref_json [(Fin 1, NextVal ''a'')] s = Inr (c, cs') \<and> holds c ''values_count'' = 1"
    by (simp add: new_LuaCollector_def new_collector_def short_script_def lua_defaults_def lua_run_def addRessource_def with_route_def
        addGetMetricRoute_def new_ressource_def on_ressource_def res_next_def nextValue_def holds_def plugin_defaults_def j_default_def Let_def mhas_def)
  then obtain c cs' where c: "lua_run ref_json [(Fin 1, NextVal ''a'')] s = Inr (c, cs')" "holds c ''values_count'' = 1" by blast
  have "live_count [] ''values_count'' = 0" by (simp add: live_count_def counter_of_def)
  then show ?thesis using s(1) c collector_life_counted[OF s(1) c(1), of "''collector''"] by auto
qed

end
