(* ===== verification/Spec2Isabelle.thy ===== *)
theory Spec2Isabelle
  imports Workers Startup ReadingSeries TlsClient LogThread Agent Lifetimes
begin

text \<open>
  Verification library for watched.agent, a monitoring agent for Linux written in C++ (the files named below are under
  src/ of the repository). The agent detects the services of a machine from its listening sockets and from systemd,
  attaches collectors and log parsers to them, samples the machine itself, and answers HTTP requests with the measures,
  the state and the log events, as JSON or as small HTML pages.

  \<^bold>\<open>Parts and how they interact.\<close> \<^verbatim>\<open>main\<close> reads the configuration, opens the log, makes the HTTP server and the
  \<^verbatim>\<open>servicesManager\<close>, whose \<^verbatim>\<open>init\<close> reads the known services and loads the plugins, registers the routes and makes
  the \<^verbatim>\<open>CollectorsManager\<close>. One thread then runs the detectors, which add services to the registry; enhancers give them a type,
  collectors, log parsers and a handler; every collector and log parser has a thread of its own that samples into bounded
  histories; and the server's threads read these histories for the clients.

  \<^bold>\<open>Theories.\<close>

  \<^item> \<open>Prelude\<close>, \<open>CppString\<close>, \<open>Doubles\<close>, \<open>Json\<close>: the part of C++ and of its library that the sources use. Results with the
    exceptions of the program, and \<open>Undefined\<close> where the C++ standard gives no meaning (\<open>'a res\<close>); ordered maps as sorted
    association lists (\<open>smap\<close>); \<^verbatim>\<open>std::string\<close> with its positions, number parsing and printing; IEEE doubles as rationals with
    correct rounding, infinities and NaN; jsoncpp as a record of operations \<open>'j jsonlib\<close> whose documented laws are the locale
    \<open>json_laws\<close> (extended by \<open>json_null\<close> and \<open>json_index\<close>), interpreted on a concrete document type.
  \<^item> \<open>History\<close>, \<open>Ressources\<close>, \<open>ReadingSeries\<close>: \<^verbatim>\<open>Ressource\<close>, \<^verbatim>\<open>tickRessource\<close>, \<^verbatim>\<open>pidRessource\<close> (src/collectors.cpp,
    include/collectors.h). The locale \<open>bounded_history\<close> is shared with the log parser. The measures implement an abstract bounded
    series of readings; rates are exact over a wrap of the 32-bit counter; sums over processes are exact below 2 to the 53.
  \<^item> \<open>Collectors\<close>, \<open>SystemCollectors\<close>, \<open>SystemMeasures\<close>, \<open>ServiceCollectors\<close>: the class \<^verbatim>\<open>Collector\<close>, \<^verbatim>\<open>SelfCollector\<close> and
    \<^verbatim>\<open>CollectorsManager\<close> (src/collectors.cpp), the ten collectors of the machine (collectors/) and the three of a service
    (services/). Every collection keeps the measures well formed; processor shares and memory sums are what the files of
    \<^verbatim>\<open>/proc\<close> say; where the code loses bits the theorems say which.
  \<^item> \<open>Sockets\<close>, \<open>Processes\<close>, \<open>Services\<close>, \<open>ServiceStatus\<close>: the classes of src/services.cpp. Reading of \<^verbatim>\<open>/proc/net/tcp\<close> and
    \<^verbatim>\<open>/proc/[pid]\<close>, the text form of a socket and its round trip, merging of services (the main processes, not their children), their configuration, plugins, status and
    log documents.
  \<^item> \<open>LogParser\<close>, \<open>LogThread\<close>: \<^verbatim>\<open>logParser\<close> (src/services.cpp): what a first pass over a log keeps, that no later pass
    reads anything, and the parser's thread step by step against its destructor and the readers.
  \<^item> \<open>ServicesManager\<close>, \<open>SystemdPlugin\<close>: the registry and the detector of sockets (src/servicesManager.cpp), the systemd
    plugin (services/sdbus/systemdbus.cpp). The locale \<open>registry\<close> states what detection needs of services. Both detectors track
    every process they should, lose no running tracked process and keep every process in one service.
  \<^item> \<open>LuaPlugins\<close>: the plugins written in Lua (src/luacollectors.cpp), over the calls a script makes: no script can break the measures of a
    collector, and none takes a process, a socket, a collector or a log parser from a service.
  \<^item> \<open>Settings\<close>: \<^verbatim>\<open>Config\<close> and \<^verbatim>\<open>log\<close> (src/config.cpp, src/log.cpp): which value every setting has after a start.
  \<^item> \<open>Http\<close>, \<open>Headers\<close>, \<open>Connections\<close>, \<open>Responses\<close>: the server of the HTTP library (sws/utility.hpp, sws/server_http.hpp,
    sws/status_code.hpp). Reading and routing of a request, the hashed container of its fields (locale \<open>hashed_keys\<close>), the requests of
    one connection in pieces as the network cuts them, with what is lost when a piece has bytes of two requests, and the writers of a response; the static files of the agent (src/server.cpp).
  \<^item> \<open>HttpClient\<close>, \<open>TlsServer\<close>, \<open>TlsClient\<close>: the client of the library with its responses in one piece or in chunks, its retry
    and its pool (sws/client_http.hpp), the servers the agent makes and whom an encrypted one serves (src/server.cpp, sws/server_https.hpp), and the
    encrypted client with its tunnel, whatever text a proxy answers (sws/client_https.hpp). Client and server read what the other one writes.
  \<^item> \<open>Regex\<close>, \<open>Api\<close>, \<open>Pages\<close>: the fragment of \<^verbatim>\<open>std::regex\<close> the routes are written in (locale \<open>std_regex\<close>), the JSON
    handlers and the HTML pages (src/servicesManager.cpp, src/collectors.cpp, src/services.cpp).
  \<^item> \<open>Workers\<close>: the threads as interleaving step relations (locale \<open>step_invariant\<close>): a collector's thread against the request
    handlers and its destructor, and the start and stop of the discovery thread.
  \<^item> \<open>Lifetimes\<close>: the destructors and the counters the agent reports of itself.
  \<^item> \<open>Startup\<close>: \<^verbatim>\<open>main\<close>, \<^verbatim>\<open>servicesManager::init\<close>, the constructor of \<^verbatim>\<open>CollectorsManager\<close> and the routes; what a
    started agent listens on, and a file that keeps it from starting.
  \<^item> \<open>Agent\<close>: the running agent, rounds of the detectors and requests in any order and in changing worlds, with what the
    handlers of the services do when a request asks them: what every run keeps, and the only way a process comes to be in two services.

  The theorems of this theory follow a request of a client through the network, the server, the routes, the manager, the service, the collector and
  the measure, and the answer back to the client; and a request that is routed and never answered.

  \<^bold>\<open>Parameters.\<close> The operating system is the record \<open>os\<close> of what its files, directories, links and calls answer during one operation; the
  clock is an argument; jsoncpp, the regular expressions, SHA-256, OpenSSL (record \<open>ssllib\<close> and the handshakes), the bus (record \<open>bus\<close>), the Lua
  scripts, the shared libraries and the host name are arguments too, with what is relied on as hypotheses. Values the C++ code leaves uninitialised are
  arguments as well.

  \<^bold>\<open>Loops and bounds.\<close> Every definition is total. Loops over lines, directories and containers are folds; recursion that is not
  structural is on the rest of a text or of a connection, or is the single retry of the client, and has its measure. No fuel is used, and numbers have the widths of the source.

  \<^bold>\<open>Not modelled.\<close> Calls to the log inside other operations, except the servers' errors. The sockets and timers of asio: a socket is the list of the
  pieces that its reads get, and a timeout is the end of that list. The cryptography of OpenSSL. The binding to Lua (include/selene, vendored) and the
  interpreter with its errors: what a script does is the list of the calls it makes. What a round of detection that throws has
  changed before. Memory that is used after it was released (the text properties of the bus) is a finding and not a state
  of the model. Data races are not part of the functional models; \<open>Workers\<close> shows where one is.
\<close>

section \<open>From a request to its response\<close>

abbreviation history_route :: string where
  "history_route \<equiv> ''^/service/(.*)/(.*)/(.*)/history$''"

definition history_path :: "string \<Rightarrow> string \<Rightarrow> string \<Rightarrow> string" where
  "history_path i cid met = ''/service/'' @ i @ ''/'' @ cid @ ''/'' @ met @ ''/history''"

text \<open>A name that can stand in the path: no line ends, no question mark and no space.\<close>

definition path_name :: "string \<Rightarrow> bool" where
  "path_name s = list_all (\<lambda>c. dot_char c \<and> c \<noteq> CHR ''?'' \<and> c \<noteq> CHR '' '') s"

lemma history_route_toks:
  "parse_rx history_route = Some (map Lit ''/service/'' @
     Group AnyChars # Lit slash # Group AnyChars # Lit slash # Group AnyChars # Lit slash # map Lit ''history'')"
  by (simp add: parse_rx_def special_def)

lemma count_slash: "slash \<notin> set s \<Longrightarrow> count_list s slash = 0"
  by (induction s) auto

lemma history_route_match:
  assumes "path_name i" "path_name cid" "path_name met" "slash \<notin> set cid" "slash \<notin> set met" "std_regex rx"
  shows "rx history_route (history_path i cid met) = Some [i, cid, met]"
proof -
  have dots: "list_all (in_span AnyChars) g" if "path_name g" for g using that by (auto simp: path_name_def list_all_iff)
  have 1: "rmatch (Group AnyChars # Lit slash # map Lit ''history'') (met @ slash # ''history'') = Some [met]"
    by (rule rmatch_group) (simp_all add: dots assms(3) count_slash)
  have 2: "rmatch (Group AnyChars # Lit slash # Group AnyChars # Lit slash # map Lit ''history'') (cid @ slash # met @ slash # ''history'') = Some [cid, met]"
    by (rule rmatch_group[OF _ 1]) (simp_all add: dots assms count_slash)
  have 3: "rmatch (Group AnyChars # Lit slash # Group AnyChars # Lit slash # Group AnyChars # Lit slash # map Lit ''history'')
      (i @ slash # cid @ slash # met @ slash # ''history'') = Some [i, cid, met]"
    by (rule rmatch_group[OF _ 2]) (simp_all add: dots assms count_slash)
  show ?thesis
    using std_regex.rx_match[OF assms(6) history_route_toks] rmatch_lits[of "''/service/''"] 3 by (simp add: history_path_def)
qed

text \<open>No other route of the manager matches a path that ends like one of a history.\<close>

lemma manager_patterns:
  "map fst (manager_handlers J w ask now sys m) =
     [''^/$'', ''^/all$'', ''^/all.since=([0-9.]*)$'', ''^/service/(.*)/status$'', ''^/service/(.*)/log$'', ''^/service/(.*)/log.since=([0-9.]*)$'',
      ''^/service/(.*)/html$'', history_route, ''^/service/(.*)/(.*)/(.*)/history.since=([0-9.]*)$'', ''^/service/(.*)/(.*)/(.*)/graph$'',
      ''^/api/swagger.json$'']"
  by (simp add: manager_handlers_def Let_def)

lemma other_patterns:
  assumes "r \<in> set (map fst (manager_handlers J w ask now sys m))" "r \<noteq> history_route"
  shows "\<exists>ts. parse_rx r = Some ts \<and> \<not> may_end (rev ts) (CHR ''y'')"
proof -
  let ?ok = "\<lambda>r. r = history_route \<or> (case parse_rx r of None \<Rightarrow> False | Some ts \<Rightarrow> \<not> may_end (rev ts) (CHR ''y''))"
  have "list_all ?ok [''^/$'', ''^/all$'', ''^/all.since=([0-9.]*)$'', ''^/service/(.*)/status$'', ''^/service/(.*)/log$'', ''^/service/(.*)/log.since=([0-9.]*)$'',
      ''^/service/(.*)/html$'', history_route, ''^/service/(.*)/(.*)/(.*)/history.since=([0-9.]*)$'', ''^/service/(.*)/(.*)/(.*)/graph$'',
      ''^/api/swagger.json$'']"
    by code_simp
  then have "?ok r" using assms(1) unfolding manager_patterns list_all_iff by blast
  then show ?thesis using assms(2) by (auto split: option.splits)
qed

lemma other_routes_none:
  assumes "r \<in> set (map fst (manager_handlers J w ask now sys m))" "r \<noteq> history_route" "std_regex rx"
  shows "rx r (history_path i cid met) = None"
proof -
  obtain ts where ts: "parse_rx r = Some ts" "\<not> may_end (rev ts) (CHR ''y'')" using other_patterns[OF assms(1,2)] by blast
  have "last (history_path i cid met) = CHR ''y''" "history_path i cid met \<noteq> []" by (simp_all add: history_path_def)
  then show ?thesis using std_regex.rx_match[OF assms(3) ts(1)] rmatch_last ts(2) by simp
qed

lemma history_query:
  assumes "path_name i" "path_name cid" "path_name met"
  shows "request_query (history_path i cid met) = Inr []"
proof -
  have "CHR ''?'' \<notin> set (history_path i cid met)" using assms by (auto simp: history_path_def path_name_def list_all_iff)
  then show ?thesis by (simp add: request_query_def str_find_char_none)
qed

lemma history_served:
  assumes "std_regex rx" "path_name i" "path_name cid" "path_name met" "slash \<notin> set cid" "slash \<notin> set met"
    and "sendable ''GET'' (history_path i cid met) version h"
    and "List.find (\<lambda>s. service_is s i) (m_services m) = Some s" "getCollector s cid = Some c"
    and "map_of (c_ressources c) met = Some r" "getHistory J r (Fin (- 1)) = Inr hist"
    and "key_sorted rs" "\<forall>k \<in> fst ` set rs. history_route < k" "header_find sel h ''Content-Length'' = None"
  shows "\<exists>keep. serve_request sel extra rx (manager_routes J w ask now sys m rs) defaults
      (request_text ''GET'' (history_path i cid met) version h) = Inr (Some (setResponseJson hist, keep))"
proof -
  let ?path = "history_path i cid met" and ?hs = "manager_handlers J w ask now sys m"
  let ?req = "\<lparr>r_method = ''GET'', r_path = ?path, r_http_version = version, r_header = h, r_path_match = None\<rparr>"
  have "(history_route, doGetCollectorHistory J m) \<in> set ?hs" by (simp add: manager_handlers_def Let_def)
  moreover have "distinct (map fst ?hs)" unfolding manager_patterns by simp
  ultimately obtain ms where ms: "map_of (manager_routes J w ask now sys m rs) history_route = Some ms"
      "map_of ms ''GET'' = Some (\<lambda>req. bindR (request_query (r_path req)) (doGetCollectorHistory J m (handler_args (r_path_match req))))"
    using routes_of[of ?hs history_route "doGetCollectorHistory J m" "''GET''" rs] by (auto simp: manager_routes_def)
  have "rx k ?path = None" if "k \<in> fst ` set (manager_routes J w ask now sys m rs)" "k < history_route" for k
  proof -
    have "k \<in> set (map fst ?hs)"
      using that assms(13) less_asym by (auto simp: manager_routes_def routes_keys)
    then show ?thesis using other_routes_none[OF _ _ assms(1)] that(2) by blast
  qed
  then have "match_resource rx (manager_routes J w ask now sys m rs) ?req = Some
      (\<lambda>req. bindR (request_query (r_path req)) (doGetCollectorHistory J m (handler_args (r_path_match req))), ?req\<lparr>r_path_match := Some [i, cid, met]\<rparr>)"
    using ms history_route_match[OF assms(2-6) assms(1)] routes_keys(2)[OF assms(12)]
    by (intro match_resource_first) (simp_all add: manager_routes_def)
  moreover have "doGetCollectorHistory J m [i, cid, met, []] [] = Inr (setResponseJson hist)"
    using assms(8-11) by (simp add: doGetCollectorHistory_def with_collector_def doGetHistory_def since_arg_def)
  ultimately show ?thesis
    using parse_request_text[OF assms(7), of "[]"] assms(14) history_query[OF assms(2-4)]
    by (simp add: serve_request_def content_step_def find_resource_def write_response_def handler_args_def)
qed

section \<open>From a client to the agent and back\<close>

text \<open>
  C3: A client that asks the agent for the history of a measure gets this history. The text the client sends, cut into pieces by the
  network, is read by the server; the route of the histories takes it whatever routes were registered after it in
  the order of patterns; the manager finds the service and its collector; and from the answer, cut into pieces again, the
  session of the client, whichever way it connects, reads the status and the whole history, and keeps the connection.
\<close>

theorem client_gets_history:
  assumes "std_regex rx" "path_name i" "path_name cid" "path_name met" "slash \<notin> set cid" "slash \<notin> set met"
    and "cl_proxy_server cl = []" "sendable ''GET'' (history_path i cid met) ''1.1'' ((''Host'', cl_host cl) # h)"
    and "List.find (\<lambda>s. service_is s i) (m_services m) = Some s" "getCollector s cid = Some c"
    and "map_of (c_ressources c) met = Some r" "getHistory J r (Fin (- 1)) = Inr hist" "length hist < 2 ^ 64"
    and "key_sorted rs" "\<forall>k \<in> fst ` set rs. history_route < k" "\<not> has_length h" "\<forall>v. sel [v] = v"
    and "concat sent = client_request cl True ''GET'' (history_path i cid met) [] h" "[] \<notin> set sent"
  shows "\<exists>answer. serve_connection sel rx (manager_routes J w ask now sys m rs) defaults sent = Inr [answer] \<and> answer \<noteq> [] \<and>
    (\<forall>received is_open net conn. concat received = answer \<and> [] \<notin> set received \<and> conn is_open (net 0) = Some received \<longrightarrow>
       client_session conn sel is_open False [] net = Inr (Some \<lparr>cr_http_version = ''1.1'', cr_status_code = ''200 OK'',
         cr_header = json_fields (length hist), cr_content = hist\<rparr>, True))"
proof -
  let ?path = "history_path i cid met" and ?rs = "manager_routes J w ask now sys m rs"
  let ?t = "request_text ''GET'' ?path ''1.1'' ((''Host'', cl_host cl) # h)"
  have "corrected_path cl True ?path = ?path" using assms(7) by (simp add: corrected_path_def history_path_def)
  then have t: "concat sent = ?t" unfolding assms(18) client_request_text by (simp add: client_fields_of_def)
  have "\<not> has_length ((''Host'', cl_host cl) # h)" using assms(16) by (simp add: case_insensitive_equal_def)
  then have nl: "header_find sel ((''Host'', cl_host cl) # h) ''Content-Length'' = None"
    using has_length_filter by (simp add: header_find_def del: filter.simps)
  have "complete_request sel ?t []" using assms(8) nl unfolding complete_request_def by fastforce
  then have arr: "arrivals sel [(?t, [])] (concat [sent])" using t assms(19) by (intro arrivals_waiting) simp
  obtain keep where keep: "serve_request sel 0 rx ?rs defaults ?t = Inr (Some (setResponseJson hist, keep))"
    using history_served[OF assms(1-6,8-12,14,15) nl] by blast
  have "serve_connection sel rx ?rs defaults sent = Inr [setResponseJson hist]"
    using arrivals_served[OF arr, of rx ?rs defaults] keep by simp
  moreover have "setResponseJson hist \<noteq> []" by (simp add: setResponseJson_def)
  ultimately show ?thesis using client_session_answer[OF client_reads_json[OF _ _ assms(17,13)]] by blast
qed

definition demo_measure :: "jv ressource" where
  "demo_measure = (fst (new_ressource RPlain 5 ''serviceMemory'' []))\<lparr>rv := [JObj [(''timestamp'', JDbl (Fin 9)), (''total'', JInt 12)]]\<rparr>"

definition demo_collector :: "jv collector" where
  "demo_collector = (fst (new_collector ref_json ''mem'' (JObj []) 5 5 (Some ''nginx-web'') []))\<lparr>c_ressources := [(''mem'', demo_measure)]\<rparr>"

definition demo_measured :: "jv manager" where
  "demo_measured = \<lparr>m_services = [demo_up\<lparr>s_collectors := [(''mem'', demo_collector)]\<rparr>], m_templates = [], m_counters = []\<rparr>"

lemma demo_time: "length (dto_string (Fin 9)) = 8"
proof -
  have "round_even (9000000 :: rat) = 9000000" using round_even_of_int[of 9000000] by simp
  then show ?thesis by (simp add: show_nat.simps pad0_def)
qed

lemma demo_history: "\<exists>hist. getHistory ref_json demo_measure (Fin (- 1)) = Inr hist \<and> length hist < 2 ^ 64"
  by (simp add: getHistory_def history_text_def add_text_def recent_def demo_measure_def new_ressource_def mhas_def demo_time show_int_def
      show_nat.simps del: dto_string.simps)

theorem client_gets_history_witness:
  "\<exists>answer hist. serve_connection hd regex_match
      (manager_routes ref_json demo_os no_blackout (Fin 0) [] demo_measured [(''^/system/cpuload/(.*)/history$'', [])]) []
      [client_request agent_client True ''GET'' ''/service/nginx-web/mem/mem/history'' [] []] = Inr [answer] \<and>
    getHistory ref_json demo_measure (Fin (- 1)) = Inr hist \<and>
    client_session client_connect hd False False [] (\<lambda>_. fair_try [answer]) = Inr (Some \<lparr>cr_http_version = ''1.1'', cr_status_code = ''200 OK'',
         cr_header = json_fields (length hist), cr_content = hist\<rparr>, True)"
proof -
  obtain hist where hist: "getHistory ref_json demo_measure (Fin (- 1)) = Inr hist" "length hist < 2 ^ 64" using demo_history by blast
  have p: "history_path ''nginx-web'' ''mem'' ''mem'' = ''/service/nginx-web/mem/mem/history''" by (simp add: history_path_def)
  have lt: "history_route < ''^/system/cpuload/(.*)/history$''" by code_simp
  let ?sent = "[client_request agent_client True ''GET'' (history_path ''nginx-web'' ''mem'' ''mem'') [] []]"
  have ne: "[] \<notin> set ?sent" by (simp add: client_request_def create_request_header_def)
  have "\<exists>answer. serve_connection hd regex_match
      (manager_routes ref_json demo_os no_blackout (Fin 0) [] demo_measured [(''^/system/cpuload/(.*)/history$'', [])]) [] ?sent = Inr [answer] \<and>
    answer \<noteq> [] \<and> (\<forall>received is_open (net :: nat \<Rightarrow> try_net) conn. concat received = answer \<and> [] \<notin> set received \<and> conn is_open (net 0) = Some received \<longrightarrow>
       client_session conn hd is_open False [] net = Inr (Some \<lparr>cr_http_version = ''1.1'', cr_status_code = ''200 OK'',
         cr_header = json_fields (length hist), cr_content = hist\<rparr>, True))"
    by (rule client_gets_history[OF cpp_regex.std_regex_axioms, of "''nginx-web''" "''mem''" "''mem''" agent_client "[]" demo_measured
          "demo_up\<lparr>s_collectors := [(''mem'', demo_collector)]\<rparr>" demo_collector demo_measure ref_json hist])
      (use hist lt ne in \<open>simp_all add: history_path_def path_name_def dot_char_def sendable_def demo_measured_def service_is_iff getID_def demo_up_def
        blank_service_def getCollector_def demo_collector_def key_sorted_def agent_client_def\<close>)
  then obtain answer where a: "serve_connection hd regex_match
      (manager_routes ref_json demo_os no_blackout (Fin 0) [] demo_measured [(''^/system/cpuload/(.*)/history$'', [])]) [] ?sent = Inr [answer]"
      "answer \<noteq> []" and b: "\<And>received is_open (net :: nat \<Rightarrow> try_net) conn. concat received = answer \<Longrightarrow> [] \<notin> set received \<Longrightarrow> conn is_open (net 0) = Some received \<Longrightarrow>
       client_session conn hd is_open False [] net = Inr (Some \<lparr>cr_http_version = ''1.1'', cr_status_code = ''200 OK'',
         cr_header = json_fields (length hist), cr_content = hist\<rparr>, True)" by blast
  from b[of "[answer]" client_connect False "\<lambda>_. fair_try [answer]"] a hist(1) show ?thesis unfolding p by auto
qed

section \<open>A request that is not answered\<close>

abbreviation since_route :: string where
  "since_route \<equiv> ''^/all.since=([0-9.]*)$''"

lemma since_route_toks: "parse_rx since_route = Some (map Lit ''/all'' @ Dot # map Lit ''since='' @ [Group NumChars])"
  by (simp add: parse_rx_def special_def)

lemma since_route_match:
  assumes "list_all (in_span NumChars) x" "std_regex rx"
  shows "rx since_route (''/all?since='' @ x) = Some [x]"
proof -
  have "greedy (in_span NumChars) (rmatch []) x = Some (x, [])"
    using assms(1) greedy_eqI[of "in_span NumChars" x "rmatch []" "[]"] by simp
  then have "rmatch [Group NumChars] x = Some [x]" by simp
  then have "rmatch (map Lit ''since='' @ [Group NumChars]) (''since='' @ x) = Some [x]" by (simp only: rmatch_lits)
  then show ?thesis
    using std_regex.rx_match[OF assms(2) since_route_toks] by (simp add: dot_char_def)
qed

lemma before_since_route:
  assumes "r \<in> set (map fst (manager_handlers J w ask now sys m))" "r < since_route" "std_regex rx"
  shows "rx r (''/all?since='' @ x) = None"
proof -
  have "list_all (\<lambda>r. r < since_route \<longrightarrow> r = ''^/$'' \<or> r = ''^/all$'')
     [''^/$'', ''^/all$'', since_route, ''^/service/(.*)/status$'', ''^/service/(.*)/log$'', ''^/service/(.*)/log.since=([0-9.]*)$'',
      ''^/service/(.*)/html$'', history_route, ''^/service/(.*)/(.*)/(.*)/history.since=([0-9.]*)$'', ''^/service/(.*)/(.*)/(.*)/graph$'',
      ''^/api/swagger.json$'']"
    by code_simp
  then consider "r = ''^/$''" | "r = ''^/all$''" using assms(1,2) unfolding manager_patterns list_all_iff by blast
  then show ?thesis
  proof cases
    case 1
    have "parse_rx ''^/$'' = Some [Lit slash]" by (simp add: parse_rx_def special_def)
    from std_regex.rx_match[OF assms(3) this] 1 show ?thesis by simp
  next
    case 2
    have "parse_rx ''^/all$'' = Some (map Lit ''/all'')" by (simp add: parse_rx_def special_def)
    from std_regex.rx_match[OF assms(3) this] 2 show ?thesis by simp
  qed
qed

lemma since_query:
  assumes "set x \<subseteq> {CHR ''.''}" "length x < 2 ^ 60"
  shows "request_query (''/all?since='' @ x) = Inr [(''since'', x)]"
proof -
  let ?path = "''/all?since='' @ x" and ?kvs = "[(''since'', x)]"
  have "url_encode x = x" using assms(1) by (induction x) (auto simp: url_encode_def url_plain_def)
  then have q: "query_text ?kvs = ''since='' @ x" "query_keys_ok ?kvs" by (simp_all add: query_keys_ok_def)
  have "parse_query_string (''since='' @ x) = Inr ?kvs"
    using parse_query_string_eq[of "''since='' @ x"] query_run[OF _ q(2) _ _, of "''since='' @ x" "[]" "[]"] q(1) assms(2) by simp
  moreover have "str_find ?path ''?'' 0 = 4" by (simp add: str_find_def)
  moreover have "substr_from ?path 5 = Inr (''since='' @ x)" using assms(2) by (simp add: substr_from_Inr npos_def)
  ultimately show ?thesis by (simp add: request_query_def sz_add_def npos_def)
qed

text \<open>
  C38: A request for everything since a time that is no number, such as no digits at all, is taken by the route, but
  reading the time throws: nothing is written to the connection, which stays open, so that the client waits for an answer.
\<close>

theorem empty_since_unanswered:
  assumes "std_regex rx" "set x \<subseteq> {CHR ''.''}" "length x < 2 ^ 60" "sendable ''GET'' (''/all?since='' @ x) version h"
    and "header_range h ''Connection'' = []" "\<not> version < ''1.1''" "header_find sel h ''Content-Length'' = None"
    and "key_sorted rs" "\<forall>k \<in> fst ` set rs. since_route < k"
  shows "serve_request sel extra rx (manager_routes J w ask now sys m rs) defaults
      (request_text ''GET'' (''/all?since='' @ x) version h) = Inr (Some ([], True))"
proof -
  let ?path = "''/all?since='' @ x" and ?hs = "manager_handlers J w ask now sys m"
  let ?f = "\<lambda>req args. bindR (doGetAllJson J w ask now sys m req args) (\<lambda>r. Inr (snd r))"
  let ?req = "\<lparr>r_method = ''GET'', r_path = ?path, r_http_version = version, r_header = h, r_path_match = None\<rparr>"
  have "(since_route, ?f) \<in> set ?hs" by (simp add: manager_handlers_def Let_def)
  moreover have "distinct (map fst ?hs)" unfolding manager_patterns by simp
  ultimately obtain ms where ms: "map_of (manager_routes J w ask now sys m rs) since_route = Some ms"
      "map_of ms ''GET'' = Some (\<lambda>req. bindR (request_query (r_path req)) (?f (handler_args (r_path_match req))))"
    using routes_of[of ?hs since_route ?f "''GET''" rs] by (auto simp: manager_routes_def)
  have "rx k ?path = None" if "k \<in> fst ` set (manager_routes J w ask now sys m rs)" "k < since_route" for k
  proof -
    have "k \<in> set (map fst ?hs)" using that assms(9) less_asym by (auto simp: manager_routes_def routes_keys)
    then show ?thesis using before_since_route[OF _ that(2) assms(1)] by blast
  qed
  moreover have "list_all (in_span NumChars) x" using assms(2) by (auto simp: list_all_iff)
  ultimately have "match_resource rx (manager_routes J w ask now sys m rs) ?req = Some
      (\<lambda>req. bindR (request_query (r_path req)) (?f (handler_args (r_path_match req))), ?req\<lparr>r_path_match := Some [x]\<rparr>)"
    using ms since_route_match[OF _ assms(1)] routes_keys(2)[OF assms(8)]
    by (intro match_resource_first) (simp_all add: manager_routes_def)
  moreover have "doGetAllJson J w ask now sys m a [(''since'', x)] = Inl InvalidArgument" for a
    by (simp add: doGetAllJson_def since_arg_def stod_dots[OF assms(2)])
  ultimately show ?thesis
    using parse_request_text[OF assms(4), of "[]"] assms(5-7) since_query[OF assms(2,3)]
    by (simp add: serve_request_def content_step_def find_resource_def write_response_def keep_connection_def)
qed

theorem empty_since_unanswered_witness:
  "serve_request hd 0 regex_match (manager_routes ref_json demo_os no_blackout (Fin 0) [] demo_measured []) []
      (request_text ''GET'' ''/all?since='' ''1.1'' [(''Host'', ''localhost'')]) = Inr (Some ([], True))"
  using empty_since_unanswered[OF cpp_regex.std_regex_axioms, of "[]" "''1.1''" "[(''Host'', ''localhost'')]" hd "[]" 0 ref_json demo_os
      no_blackout "Fin 0" "[]" demo_measured "[]"]
  by (simp add: sendable_def header_range_def header_find_def case_insensitive_equal_def key_sorted_def)

end
